(* ===== verification/Prelude.thy ===== *)
theory Prelude
  imports Main "HOL-Library.Word"
begin

text \<open>
  What every component of the development shares: NTSTATUS codes, the part of the server's
  per-request environment that all handlers touch (the current thread's error code and the
  C allocator), C's 32-bit integer conversions, sequencing of fallible steps, and generic
  lemmas on lists and words.

  The C allocator is code outside the repository. It is a parameter: \<open>env\<close> carries an
  arbitrary answer sequence \<open>alloc_ok\<close>, the \<open>n\<close>-th call of \<open>malloc\<close> or \<open>realloc\<close> succeeds when
  \<open>alloc_ok n\<close>. Every out-of-memory branch of the source is therefore reachable in the
  model, and a theorem that an operation succeeds names the hypothesis \<open>mem_ok\<close>.
\<close>

unbundle bit_operations_syntax

named_theorems env_simps \<open>what the environment operations do to each field\<close>

type_synonym ntstatus = "32 word"
type_synonym data_size = nat

subsection \<open>NTSTATUS codes (include/ntstatus.h)\<close>

abbreviation (input) STATUS_SUCCESS :: ntstatus where "STATUS_SUCCESS \<equiv> 0"
abbreviation (input) STATUS_BUFFER_OVERFLOW :: ntstatus where "STATUS_BUFFER_OVERFLOW \<equiv> 0x80000005"
abbreviation (input) STATUS_INVALID_HANDLE :: ntstatus where "STATUS_INVALID_HANDLE \<equiv> 0xC0000008"
abbreviation (input) STATUS_INVALID_PARAMETER :: ntstatus where "STATUS_INVALID_PARAMETER \<equiv> 0xC000000D"
abbreviation (input) STATUS_NO_MEMORY :: ntstatus where "STATUS_NO_MEMORY \<equiv> 0xC0000017"
abbreviation (input) STATUS_ACCESS_DENIED :: ntstatus where "STATUS_ACCESS_DENIED \<equiv> 0xC0000022"
abbreviation (input) STATUS_BUFFER_TOO_SMALL :: ntstatus where "STATUS_BUFFER_TOO_SMALL \<equiv> 0xC0000023"
abbreviation (input) STATUS_OBJECT_TYPE_MISMATCH :: ntstatus where "STATUS_OBJECT_TYPE_MISMATCH \<equiv> 0xC0000024"
abbreviation (input) STATUS_OBJECT_NAME_INVALID :: ntstatus where "STATUS_OBJECT_NAME_INVALID \<equiv> 0xC0000033"
abbreviation (input) STATUS_OBJECT_NAME_NOT_FOUND :: ntstatus where "STATUS_OBJECT_NAME_NOT_FOUND \<equiv> 0xC0000034"
abbreviation (input) STATUS_INSUFFICIENT_RESOURCES :: ntstatus where "STATUS_INSUFFICIENT_RESOURCES \<equiv> 0xC000009A"
abbreviation (input) STATUS_PROCESS_IS_TERMINATING :: ntstatus where "STATUS_PROCESS_IS_TERMINATING \<equiv> 0xC000010A"
abbreviation (input) STATUS_NOT_SAME_OBJECT :: ntstatus where "STATUS_NOT_SAME_OBJECT \<equiv> 0xC00001AC"
abbreviation (input) STATUS_HANDLE_NOT_CLOSABLE :: ntstatus where "STATUS_HANDLE_NOT_CLOSABLE \<equiv> 0xC0000235"

subsection \<open>Error code and allocator\<close>

record env =
  cur_error :: ntstatus
  alloc_ok :: "nat \<Rightarrow> bool"
  alloc_no :: nat

text \<open>\<open>set_error\<close>, \<open>clear_error\<close> and \<open>get_error\<close> of server/thread.h, for a request that runs
  on behalf of a thread.\<close>

definition set_error :: "ntstatus \<Rightarrow> env \<Rightarrow> env" where
  "set_error err e = e\<lparr>cur_error := err\<rparr>"

definition clear_error :: "env \<Rightarrow> env" where
  "clear_error e = set_error 0 e"

text \<open>One call of the C allocator: its answer, and the environment for the next call.\<close>

definition c_alloc :: "env \<Rightarrow> bool \<times> env" where
  "c_alloc e = (alloc_ok e (alloc_no e), e\<lparr>alloc_no := Suc (alloc_no e)\<rparr>)"

text \<open>\<open>mem_alloc\<close> and \<open>memdup\<close> of server/object.c: an allocation that sets the error itself.\<close>

definition mem_alloc :: "env \<Rightarrow> bool \<times> env" where
  "mem_alloc e =
     (case c_alloc e of
        (True, e') \<Rightarrow> (True, e')
      | (False, e') \<Rightarrow> (False, set_error STATUS_NO_MEMORY e'))"

text \<open>The allocator never fails from here on.\<close>

definition mem_ok :: "env \<Rightarrow> bool" where
  "mem_ok e \<longleftrightarrow> (\<forall>n \<ge> alloc_no e. alloc_ok e n)"

text \<open>The environments a fallible operation can leave: the same allocator, further on.\<close>

definition env_step :: "env \<Rightarrow> env \<Rightarrow> bool" where
  "env_step e e' \<longleftrightarrow> alloc_ok e' = alloc_ok e \<and> alloc_no e \<le> alloc_no e'"

lemma env_step_refl [simp, intro]: "env_step e e"
  by (simp add: env_step_def)

lemma env_step_trans: "env_step e e' \<Longrightarrow> env_step e' e'' \<Longrightarrow> env_step e e''"
  by (simp add: env_step_def)

lemma env_step_set_error [simp]: "env_step e (set_error err e') = env_step e e'"
  by (simp add: env_step_def set_error_def)

lemma mem_ok_step: "mem_ok e \<Longrightarrow> env_step e e' \<Longrightarrow> mem_ok e'"
  by (auto simp: mem_ok_def env_step_def)

lemma c_alloc_step: "c_alloc e = (ok, e') \<Longrightarrow> env_step e e'"
  by (auto simp: c_alloc_def env_step_def)

lemma c_alloc_ok: "mem_ok e \<Longrightarrow> c_alloc e = (ok, e') \<Longrightarrow> ok"
  by (auto simp: c_alloc_def mem_ok_def)

lemma mem_alloc_step: "mem_alloc e = (ok, e') \<Longrightarrow> env_step e e'"
  by (auto simp: mem_alloc_def split: prod.splits bool.splits dest: c_alloc_step)

lemma mem_alloc_ok: "mem_ok e \<Longrightarrow> mem_alloc e = (ok, e') \<Longrightarrow> ok"
  by (auto simp: mem_alloc_def split: prod.splits bool.splits dest: c_alloc_ok)

lemma mem_alloc_fail: "mem_alloc e = (False, e') \<Longrightarrow> cur_error e' = STATUS_NO_MEMORY"
  by (auto simp: mem_alloc_def set_error_def split: prod.splits bool.splits)

lemma mem_alloc_error: "mem_alloc e = (True, e') \<Longrightarrow> cur_error e' = cur_error e"
  by (auto simp: mem_alloc_def c_alloc_def split: prod.splits bool.splits)

lemma set_error_simps [env_simps, simp]:
  "cur_error (set_error err e) = err"
  "alloc_ok (set_error err e) = alloc_ok e"
  "alloc_no (set_error err e) = alloc_no e"
  by (simp_all add: set_error_def)

text \<open>An environment for concrete runs: no error yet, an allocator that always succeeds.\<close>

definition fresh_env :: env where
  "fresh_env = \<lparr>cur_error = 0, alloc_ok = (\<lambda>_. True), alloc_no = 0\<rparr>"

lemma mem_ok_fresh_env [simp]: "mem_ok fresh_env"
  by (simp add: mem_ok_def fresh_env_def)

subsection \<open>Fallible steps on one object\<close>

text \<open>
  An operation on an object \<open>'o\<close> that can fail returns whether it succeeded, the object and
  the environment; after a failure the object is what the code left behind.
  \<open>and_then\<close> is C's \<open>if (!step) return 0; ...\<close>.
\<close>

type_synonym 'o fallible = "bool \<times> 'o \<times> env"

definition and_then :: "'o fallible \<Rightarrow> ('o \<Rightarrow> env \<Rightarrow> 'o fallible) \<Rightarrow> 'o fallible" where
  "and_then m k = (case m of (ok, s, e) \<Rightarrow> if ok then k s e else (False, s, e))"

lemma and_then_simps [simp]:
  "and_then (True, s, e) k = k s e"
  "and_then (False, s, e) k = (False, s, e)"
  by (simp_all add: and_then_def)

lemma and_then_TrueE:
  assumes "and_then m k = (True, s', e')"
  obtains s e where "m = (True, s, e)" and "k s e = (True, s', e')"
  using assms by (auto simp: and_then_def split: prod.splits if_splits)

lemma and_then_cong [fundef_cong]:
  "m = m' \<Longrightarrow> (\<And>s e. m' = (True, s, e) \<Longrightarrow> k s e = k' s e) \<Longrightarrow> and_then m k = and_then m' k'"
  by (auto simp: and_then_def split: prod.splits)

lemma and_then_assoc: "and_then (and_then m k) k' = and_then m (\<lambda>s e. and_then (k s e) k')"
  by (auto simp: and_then_def split: prod.splits)

subsection \<open>C integer conversions\<close>

text \<open>An \<open>int\<close> result outside the 32-bit range wraps, as two's complement arithmetic does.\<close>

definition c_int :: "int \<Rightarrow> int" where
  "c_int x = sint (word_of_int x :: 32 word)"

definition int_range :: "int \<Rightarrow> bool" where
  "int_range x \<longleftrightarrow> - (2 ^ 31) \<le> x \<and> x < 2 ^ 31"

lemma c_int_id: "int_range x \<Longrightarrow> c_int x = x"
  by (simp add: c_int_def int_range_def sint_word_ariths signed_take_bit_int_eq_self
      sint_sbintrunc')

subsection \<open>Lists\<close>

lemma takeWhile_append_dropWhile_set:
  "set xs = set (takeWhile P xs) \<union> set (dropWhile P xs)"
  by (metis set_append takeWhile_dropWhile_id)

lemma length_dropWhile_Cons: "P x \<Longrightarrow> length (dropWhile P (x # xs)) < Suc (length xs)"
  by (simp add: length_dropWhile_le less_Suc_eq_le)

end
