(* ===== verification/Region.thy ===== *)
theory Region
  imports Rectangle
begin

text \<open>
  The model of server/region.c: regions are lists of rectangles sorted into horizontal bands,
  combined by a sweep over the bands of two regions. The theory holds the definitions only;
  \<open>Region_Bands\<close> and \<open>Region_Correct\<close> hold the proofs.

  A \<open>struct region\<close> is a record: \<open>rects\<close> is the initialised part of the C array (its length is
  \<open>num_rects\<close>), \<open>rgn_size\<close> the number of rectangles allocated. A C pointer pair \<open>(r, rEnd)\<close>
  into a rectangle array is the list of the rectangles between the two. An operation that
  writes a region returns it together with the success flag and the environment, so that a
  partially written region after an allocation failure is visible.
\<close>

record region =
  rgn_size :: nat
  rects :: "rectangle list"
  extents :: rectangle

abbreviation num_rects :: "region \<Rightarrow> nat" where
  "num_rects reg \<equiv> length (rects reg)"

abbreviation RGN_DEFAULT_RECTS :: nat where
  "RGN_DEFAULT_RECTS \<equiv> 2"

definition EXTENTCHECK :: "rectangle \<Rightarrow> rectangle \<Rightarrow> bool" where
  "EXTENTCHECK r1 r2 \<longleftrightarrow>
     rright r1 > rleft r2 \<and> rleft r1 < rright r2 \<and> rbottom r1 > rtop r2 \<and> rtop r1 < rbottom r2"

type_synonym overlap_func =
  "rectangle list \<Rightarrow> rectangle list \<Rightarrow> int \<Rightarrow> int \<Rightarrow> region \<Rightarrow> env \<Rightarrow> region fallible"
type_synonym non_overlap_func =
  "rectangle list \<Rightarrow> int \<Rightarrow> int \<Rightarrow> region \<Rightarrow> env \<Rightarrow> region fallible"

text \<open>\<open>add_rect\<close> returns a slot that every caller fills at once; the rectangle is an argument.\<close>

definition add_rect :: "rectangle \<Rightarrow> region \<Rightarrow> env \<Rightarrow> region fallible" where
  "add_rect rect reg e =
     (if num_rects reg \<ge> rgn_size reg then
        (case c_alloc e of
           (False, e') \<Rightarrow> (False, reg, set_error STATUS_NO_MEMORY e')
         | (True, e') \<Rightarrow> (True, reg\<lparr>rgn_size := rgn_size reg * 2, rects := rects reg @ [rect]\<rparr>, e'))
      else (True, reg\<lparr>rects := rects reg @ [rect]\<rparr>, e))"

fun validate_rectangles :: "rectangle list \<Rightarrow> bool" where
  "validate_rectangles [] = True"
| "validate_rectangles [r] = (\<not> is_rect_empty r)"
| "validate_rectangles (r # s # rs) =
     (if is_rect_empty r then False
      else if rtop r = rtop s then
        if rbottom r \<noteq> rbottom s then False
        else if rright r \<ge> rleft s then False
        else validate_rectangles (s # rs)
      else
        if rbottom r > rtop s then False
        else validate_rectangles (s # rs))"

text \<open>The \<open>while (pRegEnd[-1].top == pRegEnd->top) pRegEnd--\<close> scan: the number of rectangles at
  the end of the list that share the last one's top.\<close>

definition last_band_start :: "rectangle list \<Rightarrow> nat" where
  "last_band_start rs =
     length rs - length (takeWhile (\<lambda>r. rtop r = rtop (last rs)) (rev rs))"

text \<open>
  \<open>coalesce_region\<close> merges the band that starts at \<open>curStart\<close> into the one between \<open>prevStart\<close>
  and \<open>curStart\<close>. The comparison loop is \<open>list_all2\<close>, the loop that lowers the bottoms is \<open>map2\<close>,
  and the copy loop that moves the remaining bands down is the append of \<open>rest\<close>.
\<close>

definition coalesce_region :: "nat \<Rightarrow> nat \<Rightarrow> region \<Rightarrow> nat \<times> region" where
  "coalesce_region prevStart curStart reg =
     (let rs = rects reg;
          prev = take (curStart - prevStart) (drop prevStart rs);
          bandtop = rtop (rs ! curStart);
          cur = takeWhile (\<lambda>r. rtop r = bandtop) (drop curStart rs);
          rest = dropWhile (\<lambda>r. rtop r = bandtop) (drop curStart rs);
          curStart' = (if rest \<noteq> [] then last_band_start rs else curStart)
      in if length cur = length prev \<and> cur \<noteq> [] \<and> rbottom (hd prev) = rtop (hd cur) \<and>
            list_all2 (\<lambda>p c. rleft p = rleft c \<and> rright p = rright c) prev cur
         then (if rest = [] then prevStart else curStart',
               reg\<lparr>rects := take prevStart rs @
                            map2 (\<lambda>p c. p\<lparr>rbottom := rbottom c\<rparr>) prev cur @ rest\<rparr>)
         else (curStart', reg))"

definition coalesce_if_added :: "nat \<Rightarrow> nat \<Rightarrow> region \<Rightarrow> nat \<times> region" where
  "coalesce_if_added prevBand curBand reg =
     (if num_rects reg \<noteq> curBand then coalesce_region prevBand curBand reg else (prevBand, reg))"

text \<open>A \<open>NULL\<close> function pointer is \<open>None\<close>: nothing is called.\<close>

fun call_non_overlap ::
  "non_overlap_func option \<Rightarrow> rectangle list \<Rightarrow> int \<Rightarrow> int \<Rightarrow> region \<Rightarrow> env \<Rightarrow> region fallible" where
  "call_non_overlap None band t b reg e = (True, reg, e)"
| "call_non_overlap (Some f) band t b reg e = f band t b reg e"

definition band_of :: "rectangle list \<Rightarrow> rectangle list" where
  "band_of rs = takeWhile (\<lambda>r. rtop r = rtop (hd rs)) rs"

definition after_band :: "rectangle list \<Rightarrow> rectangle list" where
  "after_band rs = dropWhile (\<lambda>r. rtop r = rtop (hd rs)) rs"

text \<open>First half of the body of the sweep: the part of the upper band above the lower one.\<close>

definition region_op_upper ::
  "non_overlap_func option \<Rightarrow> non_overlap_func option \<Rightarrow> rectangle list \<Rightarrow> rectangle list \<Rightarrow> int \<Rightarrow>
   region \<Rightarrow> env \<Rightarrow> region fallible" where
  "region_op_upper non_overlap1 non_overlap2 r1 r2 ybot reg e =
     (if rtop (hd r1) < rtop (hd r2) then
        let t = max (rtop (hd r1)) ybot; b = min (rbottom (hd r1)) (rtop (hd r2))
        in if t \<noteq> b then call_non_overlap non_overlap1 (band_of r1) t b reg e else (True, reg, e)
      else if rtop (hd r2) < rtop (hd r1) then
        let t = max (rtop (hd r2)) ybot; b = min (rbottom (hd r2)) (rtop (hd r1))
        in if t \<noteq> b then call_non_overlap non_overlap2 (band_of r2) t b reg e else (True, reg, e)
      else (True, reg, e))"

text \<open>
  The sweep itself. Its result carries where the sweep stopped: the rest of both lists, \<open>ybot\<close>
  and \<open>prevBand\<close>. Every round drops the band of at least one list. The C loop is a do-while
  whose callers pass two non-empty lists.
\<close>

record sweep =
  sw_r1 :: "rectangle list"
  sw_r2 :: "rectangle list"
  sw_ybot :: int
  sw_prev :: nat

function region_op_loop ::
  "overlap_func \<Rightarrow> non_overlap_func option \<Rightarrow> non_overlap_func option \<Rightarrow>
   sweep \<Rightarrow> region \<Rightarrow> env \<Rightarrow> bool \<times> sweep \<times> region \<times> env" where
  "region_op_loop ov no1 no2 sw reg e =
     (if sw_r1 sw = [] \<or> sw_r2 sw = [] then (True, sw, reg, e)
      else
        let r1 = sw_r1 sw; r2 = sw_r2 sw;
            ytop = max (rtop (hd r1)) (rtop (hd r2));
            ybot = min (rbottom (hd r1)) (rbottom (hd r2))
        in case region_op_upper no1 no2 r1 r2 (sw_ybot sw) reg e of
             (False, reg1, e1) \<Rightarrow> (False, sw, reg1, e1)
           | (True, reg1, e1) \<Rightarrow>
               let (prev2, reg2) = coalesce_if_added (sw_prev sw) (num_rects reg) reg1
               in case (if ybot > ytop then ov (band_of r1) (band_of r2) ytop ybot reg2 e1
                        else (True, reg2, e1)) of
                    (False, reg3, e3) \<Rightarrow> (False, sw, reg3, e3)
                  | (True, reg3, e3) \<Rightarrow>
                      let (prev4, reg4) = coalesce_if_added prev2 (num_rects reg2) reg3
                      in region_op_loop ov no1 no2
                           \<lparr>sw_r1 = (if rbottom (hd r1) = ybot then after_band r1 else r1),
                            sw_r2 = (if rbottom (hd r2) = ybot then after_band r2 else r2),
                            sw_ybot = ybot, sw_prev = prev4\<rparr> reg4 e3)"
  by pat_completeness auto
termination
proof (relation "measure (\<lambda>(_, _, _, sw, _, _). length (sw_r1 sw) + length (sw_r2 sw))", goal_cases)
  case 1
  show ?case by simp
next
  case (2 ov no1 no2 sw reg e r1 r2 ytop ybot)
  have "length (after_band xs) < length xs" if "xs \<noteq> []" for xs
    using that by (cases xs) (simp_all add: after_band_def length_dropWhile_le less_Suc_eq_le)
  moreover have "rbottom (hd r1) = ybot \<or> rbottom (hd r2) = ybot"
    using 2 by (auto simp: min_def)
  ultimately show ?case using 2 by (auto simp: add_less_le_mono add_le_less_mono less_imp_le)
qed

text \<open>The bands that are left in one list once the other is exhausted.\<close>

function region_op_tail :: "non_overlap_func \<Rightarrow> rectangle list \<Rightarrow> int \<Rightarrow> region \<Rightarrow> env \<Rightarrow> region fallible" where
  "region_op_tail f r ybot reg e =
     (if r = [] then (True, reg, e)
      else and_then (f (band_of r) (max (rtop (hd r)) ybot) (rbottom (hd r)) reg e)
             (region_op_tail f (after_band r) ybot))"
  by pat_completeness auto
termination
  by (relation "measure (\<lambda>(_, r, _, _, _). length r)")
    (auto simp: after_band_def neq_Nil_conv length_dropWhile_le less_Suc_eq_le)

declare region_op_loop.simps [simp del] region_op_tail.simps [simp del]

definition region_op ::
  "overlap_func \<Rightarrow> non_overlap_func option \<Rightarrow> non_overlap_func option \<Rightarrow>
   region \<Rightarrow> region \<Rightarrow> region \<Rightarrow> env \<Rightarrow> region fallible" where
  "region_op ov no1 no2 newReg reg1 reg2 e =
     (let new_size = max (num_rects reg1) (num_rects reg2) * 2
      in case mem_alloc e of
           (False, e') \<Rightarrow> (False, newReg, e')
         | (True, e') \<Rightarrow>
             let reg = newReg\<lparr>rgn_size := new_size, rects := []\<rparr>;
                 ybot = (if rtop (extents reg1) < rtop (extents reg2)
                         then rtop (extents reg1) else rtop (extents reg2))
             in case region_op_loop ov no1 no2
                       \<lparr>sw_r1 = rects reg1, sw_r2 = rects reg2, sw_ybot = ybot, sw_prev = 0\<rparr> reg e' of
                  (False, _, reg', e'') \<Rightarrow> (False, reg', e'')
                | (True, sw, reg', e'') \<Rightarrow>
                    and_then
                      (if sw_r1 sw \<noteq> [] then
                         (case no1 of None \<Rightarrow> (True, reg', e'')
                          | Some f \<Rightarrow> region_op_tail f (sw_r1 sw) (sw_ybot sw) reg' e'')
                       else if sw_r2 sw \<noteq> [] then
                         (case no2 of None \<Rightarrow> (True, reg', e'')
                          | Some f \<Rightarrow> region_op_tail f (sw_r2 sw) (sw_ybot sw) reg' e'')
                       else (True, reg', e''))
                      (\<lambda>reg3 e3.
                         let reg4 = snd (coalesce_if_added (sw_prev sw) (num_rects reg') reg3)
                         in if num_rects reg4 < rgn_size reg4 div 2 \<and> rgn_size reg4 > 2 then
                              (case c_alloc e3 of
                                 (False, e4) \<Rightarrow> (True, reg4, e4)
                               | (True, e4) \<Rightarrow>
                                   (True, reg4\<lparr>rgn_size := max (num_rects reg4) RGN_DEFAULT_RECTS\<rparr>, e4))
                            else (True, reg4, e3)))"

definition set_region_extents :: "region \<Rightarrow> region" where
  "set_region_extents reg =
     (if rects reg = [] then reg\<lparr>extents := empty_rect\<rparr>
      else
        let first = hd (rects reg); lst = last (rects reg);
            l = foldl (\<lambda>l r. if rleft r < l then rleft r else l) (rleft first) (rects reg);
            r = foldl (\<lambda>b r. if rright r > b then rright r else b) (rright lst) (rects reg)
        in reg\<lparr>extents := mk_rect l (rtop first) r (rbottom lst)\<rparr>)"

fun intersect_overlapping :: overlap_func where
  "intersect_overlapping (a # r1) (b # r2) t bt reg e =
     (let l = max (rleft a) (rleft b); r = min (rright a) (rright b)
      in and_then (if l < r then add_rect (mk_rect l t r bt) reg e else (True, reg, e))
           (\<lambda>reg e.
              if rright a < rright b then intersect_overlapping r1 (b # r2) t bt reg e
              else if rright b < rright a then intersect_overlapping (a # r1) r2 t bt reg e
              else intersect_overlapping r1 r2 t bt reg e))"
| "intersect_overlapping _ _ t bt reg e = (True, reg, e)"

fun subtract_non_overlapping :: non_overlap_func where
  "subtract_non_overlapping [] t bt reg e = (True, reg, e)"
| "subtract_non_overlapping (a # r) t bt reg e =
     and_then (add_rect (mk_rect (rleft a) t (rright a) bt) reg e)
       (subtract_non_overlapping r t bt)"

text \<open>\<open>r1++; if (r1 != r1End) left = r1->left;\<close>\<close>

definition next_left :: "int \<Rightarrow> rectangle list \<Rightarrow> int" where
  "next_left l r1 = (case r1 of [] \<Rightarrow> l | a # _ \<Rightarrow> rleft a)"

fun subtract_rest :: "int \<Rightarrow> non_overlap_func" where
  "subtract_rest l [] t bt reg e = (True, reg, e)"
| "subtract_rest l (a # r1) t bt reg e =
     and_then (add_rect (mk_rect l t (rright a) bt) reg e)
       (subtract_rest (next_left l r1) r1 t bt)"

fun subtract_loop :: "int \<Rightarrow> overlap_func" where
  "subtract_loop l (a # r1) (b # r2) t bt reg e =
     (if rright b \<le> l then subtract_loop l (a # r1) r2 t bt reg e
      else if rleft b \<le> l then
        (if rright b \<ge> rright a then subtract_loop (next_left (rright b) r1) r1 (b # r2) t bt reg e
         else subtract_loop (rright b) (a # r1) r2 t bt reg e)
      else if rleft b < rright a then
        and_then (add_rect (mk_rect l t (rleft b) bt) reg e)
          (\<lambda>reg e.
             if rright b \<ge> rright a then subtract_loop (next_left (rright b) r1) r1 (b # r2) t bt reg e
             else subtract_loop (rright b) (a # r1) r2 t bt reg e)
      else
        and_then (if rright a > l then add_rect (mk_rect l t (rright a) bt) reg e else (True, reg, e))
          (subtract_loop (next_left l r1) r1 (b # r2) t bt))"
| "subtract_loop l r1 _ t bt reg e = subtract_rest l r1 t bt reg e"

definition subtract_overlapping :: overlap_func where
  "subtract_overlapping r1 r2 t bt reg e = subtract_loop (rleft (hd r1)) r1 r2 t bt reg e"

fun union_non_overlapping :: non_overlap_func where
  "union_non_overlapping [] t bt reg e = (True, reg, e)"
| "union_non_overlapping (a # r) t bt reg e =
     and_then (add_rect (mk_rect (rleft a) t (rright a) bt) reg e)
       (union_non_overlapping r t bt)"

text \<open>The macro \<open>MERGERECT\<close>: extend the last rectangle of the band, or start a new one.\<close>

definition MERGERECT :: "rectangle \<Rightarrow> int \<Rightarrow> int \<Rightarrow> region \<Rightarrow> env \<Rightarrow> region fallible" where
  "MERGERECT r t bt reg e =
     (if rects reg \<noteq> [] \<and> rtop (last (rects reg)) = t \<and> rbottom (last (rects reg)) = bt \<and>
         rright (last (rects reg)) \<ge> rleft r
      then (if rright (last (rects reg)) < rright r
            then (True, reg\<lparr>rects := butlast (rects reg) @ [(last (rects reg))\<lparr>rright := rright r\<rparr>]\<rparr>, e)
            else (True, reg, e))
      else add_rect (mk_rect (rleft r) t (rright r) bt) reg e)"

fun union_overlapping :: overlap_func where
  "union_overlapping (a # r1) (b # r2) t bt reg e =
     (if rleft a < rleft b
      then and_then (MERGERECT a t bt reg e) (union_overlapping r1 (b # r2) t bt)
      else and_then (MERGERECT b t bt reg e) (union_overlapping (a # r1) r2 t bt))"
| "union_overlapping (a # r1) [] t bt reg e =
     and_then (MERGERECT a t bt reg e) (union_overlapping r1 [] t bt)"
| "union_overlapping [] (b # r2) t bt reg e =
     and_then (MERGERECT b t bt reg e) (union_overlapping [] r2 t bt)"
| "union_overlapping [] [] t bt reg e = (True, reg, e)"

subsection \<open>The operations other server files call\<close>

definition create_empty_region :: "env \<Rightarrow> region option \<times> env" where
  "create_empty_region e =
     (case mem_alloc e of
        (False, e') \<Rightarrow> (None, e')
      | (True, e') \<Rightarrow>
          (case mem_alloc e' of
             (False, e'') \<Rightarrow> (None, e'')
           | (True, e'') \<Rightarrow>
               (Some \<lparr>rgn_size = RGN_DEFAULT_RECTS, rects = [], extents = empty_rect\<rparr>, e'')))"

text \<open>The request data is an array of rectangles; trailing bytes are ignored by the C division.\<close>

definition create_region_from_req_data :: "rectangle list \<Rightarrow> env \<Rightarrow> region option \<times> env" where
  "create_region_from_req_data rs e =
     (let rs' = (if rs = [empty_rect] then [] else rs)
      in if \<not> validate_rectangles rs' then (None, set_error STATUS_INVALID_PARAMETER e)
         else
           (case mem_alloc e of
              (False, e') \<Rightarrow> (None, e')
            | (True, e') \<Rightarrow>
                (case mem_alloc e' of
                   (False, e'') \<Rightarrow> (None, e'')
                 | (True, e'') \<Rightarrow>
                     (Some (set_region_extents
                              \<lparr>rgn_size = max (length rs') RGN_DEFAULT_RECTS, rects = rs',
                               extents = empty_rect\<rparr>), e''))))"

definition set_region_rect :: "rectangle \<Rightarrow> region \<Rightarrow> region" where
  "set_region_rect rect reg =
     (if \<not> is_rect_empty rect then reg\<lparr>rects := [rect], extents := rect\<rparr>
      else reg\<lparr>rects := [], extents := empty_rect\<rparr>)"

abbreviation sizeof_rectangle :: nat where
  "sizeof_rectangle \<equiv> 16"

definition get_region_data :: "region \<Rightarrow> data_size \<Rightarrow> env \<Rightarrow> (rectangle list option \<times> data_size) \<times> env" where
  "get_region_data reg max_size e =
     (let data = (if rects reg = [] then [empty_rect] else rects reg);
          total_size = length data * sizeof_rectangle
      in if max_size \<ge> total_size then
           (case mem_alloc e of
              (True, e') \<Rightarrow> ((Some data, total_size), e')
            | (False, e') \<Rightarrow> ((None, total_size), e'))
         else ((None, total_size), set_error STATUS_BUFFER_OVERFLOW e))"

text \<open>The region is consumed: what it returns is the array itself, or a fresh empty rectangle.\<close>

definition get_region_data_and_free ::
  "region \<Rightarrow> data_size \<Rightarrow> env \<Rightarrow> (rectangle list option \<times> data_size) \<times> env" where
  "get_region_data_and_free reg max_size e =
     (if rects reg = [] then
        if max_size \<ge> sizeof_rectangle then
          (case mem_alloc e of
             (True, e') \<Rightarrow> ((Some [empty_rect], sizeof_rectangle), e')
           | (False, e') \<Rightarrow> ((None, sizeof_rectangle), e'))
        else ((None, sizeof_rectangle), set_error STATUS_BUFFER_OVERFLOW e)
      else
        let total_size = num_rects reg * sizeof_rectangle
        in if max_size < total_size then ((None, total_size), set_error STATUS_BUFFER_OVERFLOW e)
           else ((Some (rects reg), total_size), e))"

definition is_region_empty :: "region \<Rightarrow> bool" where
  "is_region_empty reg \<longleftrightarrow> num_rects reg = 0"

definition is_region_equal :: "region \<Rightarrow> region \<Rightarrow> bool" where
  "is_region_equal region1 region2 =
     (if num_rects region1 \<noteq> num_rects region2 then False
      else if num_rects region1 = 0 then True
      else if \<not> is_rect_equal (extents region1) (extents region2) then False
      else list_all2 is_rect_equal (rects region1) (rects region2))"

definition get_region_extents :: "region \<Rightarrow> rectangle" where
  "get_region_extents reg = extents reg"

definition offset_region :: "int \<Rightarrow> int \<Rightarrow> region \<Rightarrow> region" where
  "offset_region x y reg =
     (if rects reg = [] then reg
      else reg\<lparr>rects := map (offset_rect x y) (rects reg), extents := offset_rect x y (extents reg)\<rparr>)"

text \<open>
  One band of \<open>mirror_region\<close>, between \<open>start\<close> and \<open>end\<close>. The swap copies \<open>rects[j]\<close> to the
  temporary, so both ends of the band receive the rectangle at \<open>j\<close>.
\<close>

function mirror_band :: "rectangle \<Rightarrow> nat \<Rightarrow> nat \<Rightarrow> rectangle list \<Rightarrow> rectangle list" where
  "mirror_band client_rect i j rs =
     (if i < j then
        let rect = rs ! j;
            rs1 = rs[i := rs ! j];
            rs2 = rs1[j := rect];
            rs3 = rs2[j := mirror_rect client_rect (rs2 ! j)];
            rs4 = rs3[i := mirror_rect client_rect (rs3 ! i)]
        in mirror_band client_rect (i + 1) (j - 1) rs4
      else if i = j then rs[i := mirror_rect client_rect (rs ! i)]
      else rs)"
  by pat_completeness auto
termination by (relation "measure (\<lambda>(_, i, j, _). j - i)") auto

declare mirror_band.simps [simp del]

lemma length_mirror_band [simp]: "length (mirror_band c i j rs) = length rs"
proof (induction c i j rs rule: mirror_band.induct)
  case (1 c i j rs)
  then show ?case by (simp add: mirror_band.simps [of c i j rs] Let_def)
qed

text \<open>The index of the last rectangle of the band that starts at \<open>start\<close>.\<close>

definition band_end :: "rectangle list \<Rightarrow> nat \<Rightarrow> nat" where
  "band_end rs start =
     start + length (takeWhile (\<lambda>r. rtop r = rtop (rs ! start)) (drop (Suc start) rs))"

function mirror_bands :: "rectangle \<Rightarrow> nat \<Rightarrow> rectangle list \<Rightarrow> rectangle list" where
  "mirror_bands client_rect start rs =
     (if start < length rs then
        let last = band_end rs start
        in mirror_bands client_rect (last + 1) (mirror_band client_rect start last rs)
      else rs)"
  by pat_completeness auto
termination
  by (relation "measure (\<lambda>(_, start, rs). length rs - start)") (auto simp: band_end_def)

declare mirror_bands.simps [simp del]

definition mirror_region :: "rectangle \<Rightarrow> region \<Rightarrow> region" where
  "mirror_region client_rect reg =
     reg\<lparr>rects := mirror_bands client_rect 0 (rects reg),
         extents := mirror_rect client_rect (extents reg)\<rparr>"

definition scale_region :: "ratio \<Rightarrow> ratio \<Rightarrow> region \<Rightarrow> region" where
  "scale_region dpi_from dpi_to reg =
     (if rects reg = [] then reg
      else reg\<lparr>rects := map (scale_dpi_rect dpi_from dpi_to) (rects reg),
               extents := scale_dpi_rect dpi_from dpi_to (extents reg)\<rparr>)"

text \<open>
  \<open>copy_region\<close> when \<open>dst\<close> and \<open>src\<close> are different objects; a caller whose pointers may be equal
  gets \<open>src\<close> itself in that case, which is the same value.
\<close>

definition copy_region :: "region \<Rightarrow> region \<Rightarrow> env \<Rightarrow> region fallible" where
  "copy_region dst src e =
     (if rgn_size dst < num_rects src then
        (case c_alloc e of
           (False, e') \<Rightarrow> (False, dst, set_error STATUS_NO_MEMORY e')
         | (True, e') \<Rightarrow>
             (True, \<lparr>rgn_size = num_rects src, rects = rects src, extents = extents src\<rparr>, e'))
      else (True, dst\<lparr>rects := rects src, extents := extents src\<rparr>, e))"

definition intersect_region :: "region \<Rightarrow> region \<Rightarrow> region \<Rightarrow> env \<Rightarrow> region fallible" where
  "intersect_region dst src1 src2 e =
     (if rects src1 = [] \<or> rects src2 = [] \<or> \<not> EXTENTCHECK (extents src1) (extents src2)
      then (True, dst\<lparr>rects := [], extents := empty_rect\<rparr>, e)
      else and_then (region_op intersect_overlapping None None dst src1 src2 e)
             (\<lambda>dst e. (True, set_region_extents dst, e)))"

definition subtract_region :: "region \<Rightarrow> region \<Rightarrow> region \<Rightarrow> env \<Rightarrow> region fallible" where
  "subtract_region dst src1 src2 e =
     (if rects src1 = [] \<or> rects src2 = [] \<or> \<not> EXTENTCHECK (extents src1) (extents src2)
      then copy_region dst src1 e
      else and_then (region_op subtract_overlapping (Some subtract_non_overlapping) None dst src1 src2 e)
             (\<lambda>dst e. (True, set_region_extents dst, e)))"

definition rect_contains :: "rectangle \<Rightarrow> rectangle \<Rightarrow> bool" where
  "rect_contains r s \<longleftrightarrow>
     rleft r \<le> rleft s \<and> rtop r \<le> rtop s \<and> rright r \<ge> rright s \<and> rbottom r \<ge> rbottom s"

text \<open>\<open>same\<close> says whether the two source pointers are equal.\<close>

definition union_region :: "bool \<Rightarrow> region \<Rightarrow> region \<Rightarrow> region \<Rightarrow> env \<Rightarrow> region fallible" where
  "union_region same dst src1 src2 e =
     (if same then copy_region dst src1 e
      else if rects src1 = [] then copy_region dst src2 e
      else if rects src2 = [] then copy_region dst src1 e
      else if num_rects src1 = 1 \<and> rect_contains (extents src1) (extents src2)
        then copy_region dst src1 e
      else if num_rects src2 = 1 \<and> rect_contains (extents src2) (extents src1)
        then copy_region dst src2 e
      else and_then (region_op union_overlapping (Some union_non_overlapping)
                       (Some union_non_overlapping) dst src1 src2 e)
             (\<lambda>dst e. (True, dst\<lparr>extents :=
                mk_rect (min (rleft (extents src1)) (rleft (extents src2)))
                        (min (rtop (extents src1)) (rtop (extents src2)))
                        (max (rright (extents src1)) (rright (extents src2)))
                        (max (rbottom (extents src1)) (rbottom (extents src2)))\<rparr>, e)))"

text \<open>The second subtraction and the union write \<open>dst\<close>; \<open>tmp\<close> is freed on every path.\<close>

definition xor_region :: "region \<Rightarrow> region \<Rightarrow> region \<Rightarrow> env \<Rightarrow> region fallible" where
  "xor_region dst src1 src2 e =
     (case create_empty_region e of
        (None, e1) \<Rightarrow> (False, dst, e1)
      | (Some tmp0, e1) \<Rightarrow>
          (case subtract_region tmp0 src1 src2 e1 of
             (False, _, e2) \<Rightarrow> (False, dst, e2)
           | (True, tmp, e2) \<Rightarrow>
               and_then (subtract_region dst src2 src1 e2)
                 (\<lambda>dst e3. union_region False dst dst tmp e3)))"

fun point_in_rects :: "rectangle list \<Rightarrow> int \<Rightarrow> int \<Rightarrow> bool" where
  "point_in_rects [] x y = False"
| "point_in_rects (r # rs) x y =
     (if rtop r > y then False
      else if rbottom r \<le> y then point_in_rects rs x y
      else if rleft r > x then False
      else if rright r \<le> x then point_in_rects rs x y
      else True)"

definition point_in_region :: "region \<Rightarrow> int \<Rightarrow> int \<Rightarrow> bool" where
  "point_in_region reg x y = point_in_rects (rects reg) x y"

fun rect_in_rects :: "rectangle list \<Rightarrow> rectangle \<Rightarrow> bool" where
  "rect_in_rects [] rect = False"
| "rect_in_rects (r # rs) rect =
     (if rtop r \<ge> rbottom rect then False
      else if rbottom r \<le> rtop rect then rect_in_rects rs rect
      else if rleft r \<ge> rright rect then rect_in_rects rs rect
      else if rright r \<le> rleft rect then rect_in_rects rs rect
      else True)"

definition rect_in_region :: "region \<Rightarrow> rectangle \<Rightarrow> bool" where
  "rect_in_region reg rect = rect_in_rects (rects reg) rect"

end
