(* ===== verification/Region_Bands.thy ===== *)
theory Region_Bands
  imports Region
begin

text \<open>
  Facts about band structure: what \<open>validate_rectangles\<close> guarantees, how the first band of a
  well-formed list splits off, that coalescing keeps both the pixels and the structure, and
  what each of the overlap functions of server/region.c emits for one band.
\<close>

named_theorems band_intros \<open>introduction rules for band structure\<close>

subsection \<open>Well-formed rectangle lists\<close>

definition rect_before :: "rectangle \<Rightarrow> rectangle \<Rightarrow> bool" where
  "rect_before r s \<longleftrightarrow>
     (rtop r = rtop s \<and> rbottom r = rbottom s \<and> rright r < rleft s) \<or> rbottom r \<le> rtop s"

definition banded :: "rectangle list \<Rightarrow> bool" where
  "banded rs \<longleftrightarrow> (\<forall>r \<in> set rs. \<not> is_rect_empty r) \<and> sorted_wrt rect_before rs"

text \<open>One band: a common top and bottom, rectangles from left to right with gaps between them.\<close>

definition one_band :: "int \<Rightarrow> int \<Rightarrow> rectangle list \<Rightarrow> bool" where
  "one_band t b rs \<longleftrightarrow>
     (\<forall>r \<in> set rs. rtop r = t \<and> rbottom r = b \<and> rleft r < rright r) \<and>
     sorted_wrt (\<lambda>r s. rright r < rleft s) rs"

lemma rect_before_trans:
  "rect_before r s \<Longrightarrow> rect_before s q \<Longrightarrow> \<not> is_rect_empty s \<Longrightarrow> rect_before r q"
  by (auto simp: rect_before_def is_rect_empty_def)

lemma validate_rectangles_iff: "validate_rectangles rs \<longleftrightarrow> banded rs"
proof (induction rs rule: validate_rectangles.induct)
  case (3 r s rs)
  have adj: "banded (r # s # rs) \<longleftrightarrow> \<not> is_rect_empty r \<and> rect_before r s \<and> banded (s # rs)"
    by (auto simp: banded_def intro: rect_before_trans)
  show ?case
  proof (cases "is_rect_empty r")
    case False
    show ?thesis
    proof (cases "rtop r = rtop s")
      case True
      with False have "rect_before r s \<longleftrightarrow> rbottom r = rbottom s \<and> rright r < rleft s"
        if "\<not> is_rect_empty s"
        using that by (auto simp: rect_before_def is_rect_empty_def)
      moreover have "\<not> is_rect_empty s" if "banded (s # rs)" using that by (simp add: banded_def)
      ultimately show ?thesis using False True 3 by (auto simp: adj)
    next
      case ne: False
      then have "rect_before r s \<longleftrightarrow> rbottom r \<le> rtop s" by (simp add: rect_before_def)
      then show ?thesis using False ne 3 by (auto simp: adj)
    qed
  qed (simp add: adj)
qed (simp_all add: banded_def)

lemma banded_simps [simp]:
  "banded []"
  "banded (r # rs) \<longleftrightarrow> \<not> is_rect_empty r \<and> (\<forall>s \<in> set rs. rect_before r s) \<and> banded rs"
  by (auto simp: banded_def)

lemma banded_append:
  "banded (rs @ rs') \<longleftrightarrow> banded rs \<and> banded rs' \<and> (\<forall>r \<in> set rs. \<forall>s \<in> set rs'. rect_before r s)"
  by (auto simp: banded_def sorted_wrt_append)

lemma one_band_simps [simp]:
  "one_band t b []"
  "one_band t b (r # rs) \<longleftrightarrow>
     rtop r = t \<and> rbottom r = b \<and> rleft r < rright r \<and> (\<forall>s \<in> set rs. rright r < rleft s) \<and> one_band t b rs"
  by (auto simp: one_band_def)

lemma one_band_append:
  "one_band t b (rs @ rs') \<longleftrightarrow>
     one_band t b rs \<and> one_band t b rs' \<and> (\<forall>r \<in> set rs. \<forall>s \<in> set rs'. rright r < rleft s)"
  by (auto simp: one_band_def sorted_wrt_append)

lemma one_band_top: "one_band t b rs \<Longrightarrow> r \<in> set rs \<Longrightarrow> rtop r = t \<and> rbottom r = b \<and> rleft r < rright r"
  by (auto simp: one_band_def)

lemma one_band_banded: "one_band t b rs \<Longrightarrow> t < b \<Longrightarrow> banded rs"
  by (induction rs) (auto simp: is_rect_empty_def rect_before_def dest: one_band_top)

lemma one_band_pts:
  "one_band t b rs \<Longrightarrow> (x, y) \<in> pts rs \<longleftrightarrow> t \<le> y \<and> y < b \<and> in_row rs x"
  by (induction rs) (auto simp: rect_pts_def point_in_rect_def)

text \<open>Appending a band below everything that is there keeps the list well-formed.\<close>

lemma banded_append_band:
  assumes "banded rs" and "one_band t b out" and "t < b" and "\<forall>r \<in> set rs. rbottom r \<le> t"
  shows "banded (rs @ out)"
  using assms one_band_banded [OF assms(2,3)]
  by (auto simp: banded_append rect_before_def dest: one_band_top [OF assms(2)])

subsection \<open>The first band of a well-formed list\<close>

lemma band_split: "band_of rs @ after_band rs = rs"
  by (simp add: band_of_def after_band_def)

lemma band_of_nonempty: "rs \<noteq> [] \<Longrightarrow> band_of rs \<noteq> []"
  by (cases rs) (simp_all add: band_of_def)

lemma length_after_band: "rs \<noteq> [] \<Longrightarrow> length (after_band rs) < length rs"
  by (cases rs) (simp_all add: after_band_def length_dropWhile_le less_Suc_eq_le)

lemma banded_hd_bottom:
  "banded rs \<Longrightarrow> r \<in> set rs \<Longrightarrow> rtop r = rtop (hd rs) \<Longrightarrow> rbottom r = rbottom (hd rs)"
  by (cases rs) (auto simp: rect_before_def is_rect_empty_def)

lemma banded_hd_top: "banded rs \<Longrightarrow> r \<in> set rs \<Longrightarrow> rtop (hd rs) \<le> rtop r"
  by (cases rs) (auto simp: rect_before_def is_rect_empty_def)

lemma sorted_wrt_same_band:
  "banded rs \<Longrightarrow> \<forall>r \<in> set rs. rtop r = t \<Longrightarrow> sorted_wrt (\<lambda>r s. rright r < rleft s) rs"
  by (induction rs) (auto simp: rect_before_def is_rect_empty_def)

lemma one_band_band_of:
  assumes "banded rs"
  shows "one_band (rtop (hd rs)) (rbottom (hd rs)) (band_of rs)"
proof -
  have top: "\<forall>r \<in> set (band_of rs). rtop r = rtop (hd rs)"
    by (auto simp: band_of_def dest: set_takeWhileD)
  have sub: "set (band_of rs) \<subseteq> set rs" by (auto simp: band_of_def dest: set_takeWhileD)
  have "banded (band_of rs)"
    using assms band_split [of rs] by (metis banded_append)
  then have "sorted_wrt (\<lambda>r s. rright r < rleft s) (band_of rs)"
    using top by (rule sorted_wrt_same_band)
  moreover have "\<forall>r \<in> set (band_of rs). rbottom r = rbottom (hd rs) \<and> rleft r < rright r"
    using assms top sub banded_hd_bottom [OF assms] by (fastforce simp: banded_def is_rect_empty_def)
  ultimately show ?thesis using top by (auto simp: one_band_def)
qed

lemma banded_after_band: "banded rs \<Longrightarrow> banded (after_band rs)"
  using band_split [of rs] by (metis banded_append)

lemma after_band_below:
  assumes "banded rs" and "r \<in> set (after_band rs)"
  shows "rbottom (hd rs) \<le> rtop r"
proof (cases rs)
  case Nil
  with assms show ?thesis by (simp add: after_band_def)
next
  case (Cons a xs)
  have "after_band rs = dropWhile (\<lambda>r. rtop r = rtop a) xs" by (simp add: Cons after_band_def)
  with assms(2) obtain s ss where s: "dropWhile (\<lambda>r. rtop r = rtop a) xs = s # ss"
    and r: "r \<in> set (s # ss)" by (cases "dropWhile (\<lambda>r. rtop r = rtop a) xs") auto
  have ne: "rtop s \<noteq> rtop a" using hd_dropWhile [of "\<lambda>r. rtop r = rtop a" xs] s by simp
  have sub: "set (s # ss) \<subseteq> set xs" using s by (metis set_dropWhileD subsetI)
  have "banded (s # ss)" using s assms(1) Cons by (metis takeWhile_dropWhile_id banded_append banded_simps(2))
  then have "rtop s \<le> rtop r" using banded_hd_top [of "s # ss" r] r by simp
  moreover have "rbottom a \<le> rtop s" using sub ne assms(1) Cons by (auto simp: rect_before_def)
  ultimately show ?thesis using Cons by simp
qed

lemma pts_first_band:
  assumes "banded rs" and "rs \<noteq> []"
  shows "(x, y) \<in> pts rs \<longleftrightarrow>
     (if y < rbottom (hd rs) then rtop (hd rs) \<le> y \<and> in_row (band_of rs) x
      else (x, y) \<in> pts (after_band rs))"
proof -
  have "(x, y) \<in> pts rs \<longleftrightarrow> (x, y) \<in> pts (band_of rs) \<or> (x, y) \<in> pts (after_band rs)"
    by (metis band_split pts_simps(3) Un_iff)
  moreover have "(x, y) \<notin> pts (after_band rs)" if "y < rbottom (hd rs)"
    using that after_band_below [OF assms(1)]
    by (force simp: mem_pts point_in_rect_def)
  ultimately show ?thesis using one_band_pts [OF one_band_band_of [OF assms(1)], of x y] by auto
qed

subsection \<open>Coalescing\<close>

text \<open>Two bands with equal columns, one on top of the other, cover what the merged band covers.\<close>

lemma merge_bands:
  "list_all2 (\<lambda>p c. rleft p = rleft c \<and> rright p = rright c) prev cur \<Longrightarrow>
   one_band t m prev \<Longrightarrow> one_band m b cur \<Longrightarrow> t \<le> m \<Longrightarrow> m \<le> b \<Longrightarrow>
   one_band t b (map2 (\<lambda>p c. p\<lparr>rbottom := rbottom c\<rparr>) prev cur) \<and>
   pts (map2 (\<lambda>p c. p\<lparr>rbottom := rbottom c\<rparr>) prev cur) = pts prev \<union> pts cur \<and>
   length (map2 (\<lambda>p c. p\<lparr>rbottom := rbottom c\<rparr>) prev cur) = length cur \<and>
   rleft ` set (map2 (\<lambda>p c. p\<lparr>rbottom := rbottom c\<rparr>) prev cur) = rleft ` set prev"
proof (induction prev cur rule: list_all2_induct)
  case Nil
  then show ?case by simp
next
  case (Cons p prev c cur)
  let ?n = "map2 (\<lambda>p c. p\<lparr>rbottom := rbottom c\<rparr>) prev cur"
  have IH: "one_band t b ?n" "pts ?n = pts prev \<union> pts cur" "length ?n = length cur"
      "rleft ` set ?n = rleft ` set prev"
    using Cons by simp_all
  have gap: "rright p < rleft s" if "s \<in> set ?n" for s
  proof -
    have "rleft s \<in> rleft ` set prev" unfolding IH(4) [symmetric] using that by (rule imageI)
    then obtain q where "q \<in> set prev" "rleft s = rleft q" by auto
    then show ?thesis using Cons.prems by simp
  qed
  have "rect_pts (p\<lparr>rbottom := b\<rparr>) = rect_pts p \<union> rect_pts c"
    using Cons.hyps Cons.prems by (auto simp: rect_pts_def point_in_rect_def)
  then show ?case using Cons.hyps Cons.prems IH gap by auto
qed

text \<open>
  The last band of a list starts at index \<open>n\<close>. Before the first band is written, \<open>n\<close> is 0 and
  the band is empty.
\<close>

definition last_band_at :: "nat \<Rightarrow> rectangle list \<Rightarrow> bool" where
  "last_band_at n rs \<longleftrightarrow>
     (\<exists>pre prv t b. rs = pre @ prv \<and> n = length pre \<and> t < b \<and> one_band t b prv \<and>
        (\<forall>r \<in> set pre. rbottom r \<le> t))"

lemma last_band_at_Nil [simp]: "last_band_at 0 []"
  unfolding last_band_at_def by (rule exI [of _ "[]"], rule exI [of _ "[]"], rule exI [of _ 0], rule exI [of _ 1]) simp

lemma last_band_at_new:
  "one_band t b out \<Longrightarrow> t < b \<Longrightarrow> \<forall>r \<in> set acc. rbottom r \<le> t \<Longrightarrow> last_band_at (length acc) (acc @ out)"
  unfolding last_band_at_def by blast

text \<open>Two well-formed lists for the same pixels, the second no longer and no deeper.\<close>

definition coalesced :: "rectangle list \<Rightarrow> rectangle list \<Rightarrow> bool" where
  "coalesced rs rs' \<longleftrightarrow>
     pts rs' = pts rs \<and> banded rs' \<and> length rs' \<le> length rs \<and>
     (\<forall>y. (\<forall>r \<in> set rs. rbottom r \<le> y) \<longrightarrow> (\<forall>r \<in> set rs'. rbottom r \<le> y))"

lemma coalesced_refl [simp]: "coalesced rs rs \<longleftrightarrow> banded rs"
  by (auto simp: coalesced_def)

lemma coalesced_merge:
  assumes ok: "banded (pre @ prv @ cur @ rest)" and pre: "\<forall>r \<in> set pre. rbottom r \<le> t"
    and prv: "one_band t m prv" and cur: "one_band m b cur" and tm: "t < m" and mb: "m < b"
    and eq: "list_all2 (\<lambda>p c. rleft p = rleft c \<and> rright p = rright c) prv cur"
    and ne: "cur \<noteq> []" and rest: "\<forall>r \<in> set rest. b \<le> rtop r"
  defines "new \<equiv> map2 (\<lambda>p c. p\<lparr>rbottom := rbottom c\<rparr>) prv cur"
  shows "coalesced (pre @ prv @ cur @ rest) (pre @ new @ rest)" and "one_band t b new"
proof -
  have new: "one_band t b new" "pts new = pts prv \<union> pts cur" "length new = length cur"
    using merge_bands [OF eq prv cur] tm mb by (auto simp: new_def)
  then show "one_band t b new" by simp
  have tb: "t < b" using tm mb by simp
  have parts: "banded pre" "banded rest" "\<forall>r \<in> set pre. \<forall>s \<in> set rest. rect_before r s"
    using ok by (auto simp: banded_append)
  have n: "rtop s = t \<and> rbottom s = b" if "s \<in> set new" for s
    using one_band_top [OF new(1) that] by simp
  have "banded (pre @ new @ rest)"
    using parts pre rest n one_band_banded [OF new(1) tb]
    by (auto simp: banded_append rect_before_def)
  moreover have "\<exists>c \<in> set cur. rbottom c = b" using ne one_band_top [OF cur, of "hd cur"] by auto
  ultimately show "coalesced (pre @ prv @ cur @ rest) (pre @ new @ rest)"
    using new n by (auto simp: coalesced_def)
qed

text \<open>
  \<open>coalesce_region\<close> on a list whose last band before \<open>out\<close> starts at \<open>prevStart\<close>: same pixels,
  still well-formed; when \<open>out\<close> is a single band, the index it returns starts the last band.
\<close>

lemma coalesce_region_eq:
  assumes "rects reg = pre @ prv @ out" and "out \<noteq> []"
  defines "merge \<equiv> length (band_of out) = length prv \<and> band_of out \<noteq> [] \<and>
     rbottom (hd prv) = rtop (hd (band_of out)) \<and>
     list_all2 (\<lambda>p c. rleft p = rleft c \<and> rright p = rright c) prv (band_of out)"
    and "lst \<equiv> last_band_start (rects reg)"
  shows "coalesce_region (length pre) (length pre + length prv) reg =
      (if merge then (if after_band out = [] then length pre else lst,
          reg\<lparr>rects := pre @ map2 (\<lambda>p c. p\<lparr>rbottom := rbottom c\<rparr>) prv (band_of out) @ after_band out\<rparr>)
       else (if after_band out \<noteq> [] then lst else length pre + length prv, reg))"
proof -
  have "rects reg ! (length pre + length prv) = hd out"
    using assms(1,2) by (cases out) (simp_all add: nth_append)
  then show ?thesis
    using assms(1) by (simp add: coalesce_region_def Let_def merge_def lst_def band_of_def after_band_def)
qed

lemma coalesce_region_correct:
  assumes prev: "last_band_at prevStart acc" and rs: "rects reg = acc @ out" and out: "out \<noteq> []"
    and ok: "banded (acc @ out)" and below: "\<forall>r \<in> set acc. rbottom r \<le> rtop (hd out)"
    and res: "coalesce_region prevStart (length acc) reg = (start', reg')"
  shows "coalesced (acc @ out) (rects reg') \<and> extents reg' = extents reg \<and> rgn_size reg' = rgn_size reg \<and>
     (after_band out = [] \<longrightarrow> last_band_at start' (rects reg'))"
proof -
  obtain pre prv t b where acc: "acc = pre @ prv" and n: "prevStart = length pre" and tb: "t < b"
    and prv: "one_band t b prv" and pre: "\<forall>r \<in> set pre. rbottom r \<le> t"
    using prev by (auto simp: last_band_at_def)
  define merge where "merge \<longleftrightarrow> length (band_of out) = length prv \<and> band_of out \<noteq> [] \<and>
     rbottom (hd prv) = rtop (hd (band_of out)) \<and>
     list_all2 (\<lambda>p c. rleft p = rleft c \<and> rright p = rright c) prv (band_of out)"
  define new where "new = map2 (\<lambda>p c. p\<lparr>rbottom := rbottom c\<rparr>) prv (band_of out)"
  have eq: "coalesce_region prevStart (length acc) reg =
      (if merge then (if after_band out = [] then length pre else last_band_start (rects reg),
          reg\<lparr>rects := pre @ new @ after_band out\<rparr>)
       else (if after_band out \<noteq> [] then last_band_start (rects reg) else length acc, reg))"
    using coalesce_region_eq [of reg pre prv out] rs out acc n
    by (simp add: merge_def new_def)
  have bo: "banded out" using ok by (simp add: banded_append)
  have cur: "one_band (rtop (hd out)) (rbottom (hd out)) (band_of out)"
    by (rule one_band_band_of [OF bo])
  have curb: "rtop (hd out) < rbottom (hd out)"
    using bo out by (cases out) (auto simp: is_rect_empty_def)
  show ?thesis
  proof (cases merge)
    case False
    have "last_band_at (length acc) (acc @ out)" if "after_band out = []"
    proof -
      have "one_band (rtop (hd out)) (rbottom (hd out)) out"
        using cur that band_split [of out] by simp
      then show ?thesis using curb below by (rule last_band_at_new)
    qed
    moreover have "reg' = reg" and "after_band out = [] \<longrightarrow> start' = length acc"
      using False res eq by (auto split: if_splits)
    ultimately show ?thesis using rs ok by simp
  next
    case True
    have ne: "prv \<noteq> []" "band_of out \<noteq> []" using True by (auto simp: merge_def)
    have b: "b = rtop (hd out)"
      using True ne one_band_top [OF prv, of "hd prv"] one_band_top [OF cur, of "hd (band_of out)"]
      by (auto simp: merge_def)
    have sp: "acc @ out = pre @ prv @ band_of out @ after_band out"
      using acc band_split [of out] by simp
    have rest: "\<forall>r \<in> set (after_band out). rbottom (hd out) \<le> rtop r"
      using after_band_below [OF bo] by blast
    have merged: "coalesced (acc @ out) (pre @ new @ after_band out)" "one_band t (rbottom (hd out)) new"
      using coalesced_merge [of pre prv "band_of out" "after_band out" t b "rbottom (hd out)"]
        ok pre prv cur tb curb True ne rest unfolding sp b merge_def new_def by auto
    have "last_band_at (length pre) (pre @ new)"
      using tb curb by (intro last_band_at_new [OF merged(2) _ pre]) (simp add: b)
    moreover have "start' = (if after_band out = [] then length pre else last_band_start (rects reg))"
      and "reg' = reg\<lparr>rects := pre @ new @ after_band out\<rparr>"
      using True res eq by simp_all
    ultimately show ?thesis using merged(1) by simp
  qed
qed

lemma coalesce_if_added_correct:
  assumes prev: "last_band_at prevBand acc" and rs: "rects reg = acc @ out"
    and out: "one_band t b out" and tb: "t < b" and acc: "banded acc"
    and below: "\<forall>r \<in> set acc. rbottom r \<le> t"
    and res: "coalesce_if_added prevBand (length acc) reg = (start', reg')"
  shows "coalesced (acc @ out) (rects reg') \<and> extents reg' = extents reg \<and> rgn_size reg' = rgn_size reg \<and>
     last_band_at start' (rects reg')"
proof (cases "out = []")
  case True
  then show ?thesis using assms by (simp add: coalesce_if_added_def)
next
  case False
  have ok: "banded (acc @ out)" by (rule banded_append_band [OF acc out tb below])
  have hd: "rtop (hd out) = t" using one_band_top [OF out, of "hd out"] False by simp
  have "after_band out = []"
    using out hd by (auto simp: after_band_def dropWhile_eq_Nil_conv dest: one_band_top)
  then show ?thesis
    using coalesce_region_correct [OF prev rs False ok, of start' reg'] res below hd False rs
    by (simp add: coalesce_if_added_def)
qed

end
