(* ===== verification/Region_Overlap.thy ===== *)
theory Region_Overlap
  imports Region_Bands
begin

text \<open>
  What the overlap and non-overlap functions of server/region.c emit for one band. Each is
  related to a pure function that computes the rectangles of the band; the pure functions are
  shown to produce a well-formed band that covers the right columns.
\<close>

subsection \<open>The contract of a fallible step on a region\<close>

text \<open>
  \<open>band_result rs reg e res\<close>: if the step succeeds the region holds exactly \<open>rs\<close>; it leaves
  the extents alone, keeps the array large enough, fails only when the allocator does, and
  then reports \<open>STATUS_NO_MEMORY\<close>.
\<close>

definition fits :: "region \<Rightarrow> bool" where
  "fits reg \<longleftrightarrow> 0 < rgn_size reg \<and> num_rects reg \<le> rgn_size reg"

definition band_result :: "rectangle list \<Rightarrow> region \<Rightarrow> env \<Rightarrow> region fallible \<Rightarrow> bool" where
  "band_result rs reg e res \<longleftrightarrow>
     (case res of (ok, reg', e') \<Rightarrow>
        (ok \<longrightarrow> rects reg' = rs) \<and> extents reg' = extents reg \<and> (fits reg \<longrightarrow> fits reg') \<and>
        env_step e e' \<and> (mem_ok e \<longrightarrow> ok) \<and> (\<not> ok \<longrightarrow> cur_error e' = STATUS_NO_MEMORY))"

lemma band_result_done [simp]: "band_result rs reg e (True, reg, e) \<longleftrightarrow> rects reg = rs"
  by (auto simp: band_result_def)

lemma band_result_and_then:
  assumes m: "band_result rs reg e m"
    and k: "\<And>reg' e'. m = (True, reg', e') \<Longrightarrow> rects reg' = rs \<Longrightarrow> band_result rs' reg' e' (k reg' e')"
  shows "band_result rs' reg e (and_then m k)"
proof (cases m)
  case (fields ok reg' e')
  show ?thesis
  proof (cases ok)
    case True
    with fields m have "rects reg' = rs" "env_step e e'" by (auto simp: band_result_def)
    with k [of reg' e'] fields True m show ?thesis
      by (auto simp: band_result_def split: prod.splits dest: env_step_trans mem_ok_step)
  next
    case False
    with fields m show ?thesis by (auto simp: band_result_def)
  qed
qed

lemma add_rect_result: "band_result (rects reg @ [r]) reg e (add_rect r reg e)"
  by (auto simp: add_rect_def band_result_def fits_def split: prod.splits bool.splits
      dest: c_alloc_step c_alloc_ok)

text \<open>Adding a whole list of rectangles: the reference for the functions that only append.\<close>

fun add_rects :: "rectangle list \<Rightarrow> region \<Rightarrow> env \<Rightarrow> region fallible" where
  "add_rects [] reg e = (True, reg, e)"
| "add_rects (r # rs) reg e = and_then (add_rect r reg e) (add_rects rs)"

lemma add_rects_result: "band_result (rects reg @ rs) reg e (add_rects rs reg e)"
proof (induction rs arbitrary: reg e)
  case (Cons r rs)
  show ?case
    unfolding add_rects.simps
  proof (rule band_result_and_then [OF add_rect_result])
    fix reg' :: region and e' :: env assume "rects reg' = rects reg @ [r]"
    then show "band_result (rects reg @ r # rs) reg' e' (add_rects rs reg' e')"
      using Cons.IH [of reg' e'] by simp
  qed
qed simp

subsection \<open>Intersection\<close>

fun intersect_band :: "rectangle list \<Rightarrow> rectangle list \<Rightarrow> int \<Rightarrow> int \<Rightarrow> rectangle list" where
  "intersect_band (a # r1) (b # r2) t bt =
     (let l = max (rleft a) (rleft b); r = min (rright a) (rright b)
      in (if l < r then [mk_rect l t r bt] else []) @
         (if rright a < rright b then intersect_band r1 (b # r2) t bt
          else if rright b < rright a then intersect_band (a # r1) r2 t bt
          else intersect_band r1 r2 t bt))"
| "intersect_band _ _ t bt = []"

lemma intersect_overlapping_eq:
  "intersect_overlapping r1 r2 t bt reg e = add_rects (intersect_band r1 r2 t bt) reg e"
  by (induction r1 r2 t bt arbitrary: reg e rule: intersect_band.induct) (simp_all add: Let_def)

lemma intersect_band_within:
  "r \<in> set (intersect_band r1 r2 t bt) \<Longrightarrow>
     (\<exists>a \<in> set r1. rleft a \<le> rleft r) \<and> (\<exists>b \<in> set r2. rleft b \<le> rleft r)"
  by (induction r1 r2 t bt rule: intersect_band.induct) (auto simp: Let_def split: if_splits)

lemma one_band_intersect_band:
  "one_band t1 b1 r1 \<Longrightarrow> one_band t2 b2 r2 \<Longrightarrow> one_band t bt (intersect_band r1 r2 t bt)"
proof (induction r1 r2 t bt rule: intersect_band.induct)
  case (1 a r1 b r2 t bt)
  have gap1: "rright a < rleft s" if "s \<in> set (intersect_band r1 q t bt)" for s q
    using intersect_band_within [OF that] "1.prems"(1) by force
  have gap2: "rright b < rleft s" if "s \<in> set (intersect_band q r2 t bt)" for s q
    using intersect_band_within [OF that] "1.prems"(2) by force
  show ?case using 1 gap1 gap2 by (auto simp: Let_def less_le_trans intro: order.strict_trans1)
qed simp_all

lemma in_row_after:
  "one_band t b (a # r) \<Longrightarrow> x \<le> rright a \<Longrightarrow> \<not> in_row r x"
  by (force simp: in_row_def)

lemma in_row_intersect_band:
  "one_band t1 b1 r1 \<Longrightarrow> one_band t2 b2 r2 \<Longrightarrow>
     in_row (intersect_band r1 r2 t bt) x \<longleftrightarrow> in_row r1 x \<and> in_row r2 x"
proof (induction r1 r2 t bt rule: intersect_band.induct)
  case (1 a r1 b r2 t bt)
  have "\<not> in_row r1 x" if "x \<le> rright a" using in_row_after [OF "1.prems"(1) that] .
  moreover have "\<not> in_row r2 x" if "x \<le> rright b" using in_row_after [OF "1.prems"(2) that] .
  ultimately show ?case using 1 by (auto simp: Let_def)
qed simp_all

subsection \<open>Subtraction\<close>

fun subtract_band :: "int \<Rightarrow> rectangle list \<Rightarrow> rectangle list \<Rightarrow> int \<Rightarrow> int \<Rightarrow> rectangle list" where
  "subtract_band l (a # r1) (b # r2) t bt =
     (if rright b \<le> l then subtract_band l (a # r1) r2 t bt
      else if rleft b \<le> l then
        (if rright b \<ge> rright a then subtract_band (next_left (rright b) r1) r1 (b # r2) t bt
         else subtract_band (rright b) (a # r1) r2 t bt)
      else if rleft b < rright a then
        mk_rect l t (rleft b) bt #
          (if rright b \<ge> rright a then subtract_band (next_left (rright b) r1) r1 (b # r2) t bt
           else subtract_band (rright b) (a # r1) r2 t bt)
      else
        (if rright a > l then [mk_rect l t (rright a) bt] else []) @
        subtract_band (next_left l r1) r1 (b # r2) t bt)"
| "subtract_band l [] r2 t bt = []"
| "subtract_band l (a # r1) [] t bt =
     mk_rect l t (rright a) bt # subtract_band (next_left l r1) r1 [] t bt"

lemma subtract_rest_eq: "subtract_rest l r1 t bt = add_rects (subtract_band l r1 [] t bt)"
  by (induction r1 arbitrary: l; intro ext; simp)

lemma subtract_loop_eq: "subtract_loop l r1 r2 t bt = add_rects (subtract_band l r1 r2 t bt)"
proof (induction l r1 r2 t bt rule: subtract_band.induct)
  case (2 l r2 t bt)
  show ?case by (cases r2; intro ext; simp add: subtract_rest_eq)
qed (intro ext; simp add: subtract_rest_eq)+

text \<open>What is left of \<open>r1\<close> once the sweep has reached column \<open>l\<close> of its first rectangle.\<close>

definition clip_left :: "int \<Rightarrow> rectangle list \<Rightarrow> rectangle list" where
  "clip_left l r1 = (case r1 of [] \<Rightarrow> [] | a # r \<Rightarrow> a\<lparr>rleft := l\<rparr> # r)"

definition starts_in :: "int \<Rightarrow> rectangle list \<Rightarrow> bool" where
  "starts_in l r1 \<longleftrightarrow> (case r1 of [] \<Rightarrow> True | a # _ \<Rightarrow> rleft a \<le> l \<and> l < rright a)"

lemma clip_left_simps [simp]: "clip_left l [] = []" "clip_left l (a # r) = a\<lparr>rleft := l\<rparr> # r"
  by (simp_all add: clip_left_def)

lemma starts_in_simps [simp]: "starts_in l []" "starts_in l (a # r) \<longleftrightarrow> rleft a \<le> l \<and> l < rright a"
  by (simp_all add: starts_in_def)

lemma next_left_starts: "one_band t b r1 \<Longrightarrow> starts_in (next_left l r1) r1"
  by (cases r1) (simp_all add: next_left_def)

lemma clip_next_left: "in_row (clip_left (next_left l r1) r1) x = in_row r1 x"
  by (cases r1) (simp_all add: next_left_def)

lemma in_row_subtract_band:
  "one_band t1 b1 r1 \<Longrightarrow> one_band t2 b2 r2 \<Longrightarrow> starts_in l r1 \<Longrightarrow>
     in_row (subtract_band l r1 r2 t bt) x \<longleftrightarrow> in_row (clip_left l r1) x \<and> \<not> in_row r2 x"
proof (induction l r1 r2 t bt rule: subtract_band.induct)
  case (1 l a r1 b r2 t bt)
  have r1: "\<not> in_row r1 x" if "x \<le> rright a" using in_row_after [OF "1.prems"(1) that] .
  have r2: "\<not> in_row r2 x" if "x \<le> rright b" using in_row_after [OF "1.prems"(2) that] .
  have r1r: "in_row r1 x \<Longrightarrow> rright a < x" using r1 by linarith
  have nl: "starts_in (next_left k r1) r1" for k using "1.prems"(1) next_left_starts [of t1 b1 r1] by simp
  show ?case using 1 r1 r2 r1r nl by (auto simp: clip_next_left split: if_splits)
next
  case (3 l a r1 t bt)
  then show ?case using next_left_starts [of t1 b1 r1 l] by (simp add: clip_next_left)
qed simp

lemma subtract_band_rect:
  "one_band t1 b1 r1 \<Longrightarrow> starts_in l r1 \<Longrightarrow> r \<in> set (subtract_band l r1 r2 t bt) \<Longrightarrow>
     rtop r = t \<and> rbottom r = bt \<and> rleft r < rright r"
proof (induction l r1 r2 t bt rule: subtract_band.induct)
  case (1 l a r1 b r2 t bt)
  have nl: "starts_in (next_left k r1) r1" for k using "1.prems"(1) next_left_starts [of t1 b1 r1] by simp
  show ?case using 1 nl by (simp split: if_splits) auto
next
  case (3 l a r1 t bt)
  then show ?case using next_left_starts [of t1 b1 r1 l] by auto
qed simp

lemma clip_left_ge: "one_band t b r1 \<Longrightarrow> starts_in l r1 \<Longrightarrow> in_row (clip_left l r1) x \<Longrightarrow> l \<le> x"
  by (cases r1) (auto simp: in_row_def)

lemma subtract_band_after:
  assumes "one_band t1 b1 r1" "one_band t2 b2 r2" "starts_in l r1" "r \<in> set (subtract_band l r1 r2 t bt)"
  shows "l \<le> rleft r"
proof -
  have "in_row (subtract_band l r1 r2 t bt) (rleft r)"
    using subtract_band_rect [OF assms(1,3,4)] assms(4) by (auto simp: in_row_def)
  then show ?thesis
    using clip_left_ge [OF assms(1,3)] in_row_subtract_band [OF assms(1,2,3)] by simp
qed

lemma one_band_subtract_band:
  "one_band t1 b1 r1 \<Longrightarrow> one_band t2 b2 r2 \<Longrightarrow> starts_in l r1 \<Longrightarrow> one_band t bt (subtract_band l r1 r2 t bt)"
proof (induction l r1 r2 t bt rule: subtract_band.induct)
  case (1 l a r1 b r2 t bt)
  have nl: "starts_in (next_left k r1) r1" for k using "1.prems"(1) next_left_starts [of t1 b1 r1] by simp
  have bands: "one_band t1 b1 r1" "one_band t2 b2 r2" using "1.prems" by simp_all
  have next1: "rright a < rleft r" if "r \<in> set (subtract_band (next_left k r1) r1 (b # r2) t bt)" for r k
  proof -
    have "next_left k r1 \<le> rleft r"
      by (rule subtract_band_after [OF bands(1) "1.prems"(2) nl that])
    moreover have "rright a < next_left k r1" using that "1.prems"(1) by (cases r1) (auto simp: next_left_def)
    ultimately show ?thesis by simp
  qed
  have next2: "rright b \<le> rleft r"
    if "r \<in> set (subtract_band (rright b) (a # r1) r2 t bt)" "l < rright b" "rright b < rright a" for r
    using subtract_band_after [OF "1.prems"(1) bands(2) _ that(1)] that "1.prems"(3) by simp
  have b: "rleft b < rright b" "rleft a \<le> l" "l < rright a" using "1.prems" by simp_all
  consider (skip) "rright b \<le> l"
    | (eat1) "l < rright b" "rleft b \<le> l" "rright a \<le> rright b"
    | (eat2) "l < rright b" "rleft b \<le> l" "rright b < rright a"
    | (emit1) "l < rleft b" "rleft b < rright a" "rright a \<le> rright b"
    | (emit2) "l < rleft b" "rleft b < rright a" "rright b < rright a"
    | (gone) "l < rleft b" "rright a \<le> rleft b"
    by linarith
  then show ?case
  proof cases
    case skip
    then show ?thesis using "1.IH"(1) "1.prems" by simp
  next
    case eat1
    then show ?thesis using "1.IH"(2) [OF _ _ _ bands(1) "1.prems"(2) nl] by simp
  next
    case eat2
    then show ?thesis using "1.IH"(3) [OF _ _ _ "1.prems"(1) bands(2)] b by simp
  next
    case emit1
    have "\<forall>r \<in> set (subtract_band (next_left (rright b) r1) r1 (b # r2) t bt). rleft b < rleft r"
      using next1 emit1 by fastforce
    then show ?thesis using "1.IH"(4) [OF _ _ _ _ bands(1) "1.prems"(2) nl] b emit1 by simp
  next
    case emit2
    have "\<forall>r \<in> set (subtract_band (rright b) (a # r1) r2 t bt). rleft b < rleft r"
      using next2 emit2 b by fastforce
    then show ?thesis using "1.IH"(5) [OF _ _ _ _ "1.prems"(1) bands(2)] b emit2 by simp
  next
    case gone
    then show ?thesis using "1.IH"(6) [OF _ _ _ bands(1) "1.prems"(2) nl] b next1 by simp
  qed
next
  case (3 l a r1 t bt)
  have "rright a < rleft r" if "r \<in> set (subtract_band (next_left l r1) r1 [] t bt)" for r
  proof -
    have "next_left l r1 \<le> rleft r"
      using subtract_band_after [OF _ "3.prems"(2) next_left_starts that, of t1 b1 t1 b1] "3.prems"(1) by simp
    moreover have "rright a < next_left l r1" using that "3.prems"(1) by (cases r1) (auto simp: next_left_def)
    ultimately show ?thesis by simp
  qed
  then show ?case using 3 next_left_starts [of t1 b1 r1 l] by auto
qed simp

lemma subtract_non_overlapping_eq:
  "subtract_non_overlapping r t bt = add_rects (map (\<lambda>a. mk_rect (rleft a) t (rright a) bt) r)"
  by (induction r; intro ext; simp)

lemma union_non_overlapping_eq:
  "union_non_overlapping r t bt = add_rects (map (\<lambda>a. mk_rect (rleft a) t (rright a) bt) r)"
  by (induction r; intro ext; simp)

lemma one_band_map:
  "one_band t1 b1 r \<Longrightarrow> one_band t bt (map (\<lambda>a. mk_rect (rleft a) t (rright a) bt) r)"
  by (induction r) auto

lemma in_row_map: "in_row (map (\<lambda>a. mk_rect (rleft a) t (rright a) bt) r) x = in_row r x"
  by (simp add: in_row_def)

subsection \<open>Union\<close>

definition merge_rect :: "int \<Rightarrow> int \<Rightarrow> rectangle list \<Rightarrow> rectangle \<Rightarrow> rectangle list" where
  "merge_rect t bt cur r =
     (if cur \<noteq> [] \<and> rright (last cur) \<ge> rleft r
      then (if rright (last cur) < rright r then butlast cur @ [(last cur)\<lparr>rright := rright r\<rparr>] else cur)
      else cur @ [mk_rect (rleft r) t (rright r) bt])"

fun union_band :: "rectangle list \<Rightarrow> rectangle list \<Rightarrow> rectangle list \<Rightarrow> int \<Rightarrow> int \<Rightarrow> rectangle list" where
  "union_band cur (a # r1) (b # r2) t bt =
     (if rleft a < rleft b then union_band (merge_rect t bt cur a) r1 (b # r2) t bt
      else union_band (merge_rect t bt cur b) (a # r1) r2 t bt)"
| "union_band cur (a # r1) [] t bt = union_band (merge_rect t bt cur a) r1 [] t bt"
| "union_band cur [] (b # r2) t bt = union_band (merge_rect t bt cur b) [] r2 t bt"
| "union_band cur [] [] t bt = cur"

lemma merge_rect_correct:
  assumes "one_band t bt cur" and "rleft r < rright r" and "\<forall>c \<in> set cur. rleft c \<le> rleft r"
  shows "one_band t bt (merge_rect t bt cur r)"
    and "in_row (merge_rect t bt cur r) x \<longleftrightarrow> in_row cur x \<or> (rleft r \<le> x \<and> x < rright r)"
    and "c \<in> set (merge_rect t bt cur r) \<Longrightarrow> rleft c \<le> rleft r"
proof -
  have "one_band t bt (merge_rect t bt cur r) \<and>
    (in_row (merge_rect t bt cur r) x \<longleftrightarrow> in_row cur x \<or> (rleft r \<le> x \<and> x < rright r)) \<and>
    (c \<in> set (merge_rect t bt cur r) \<longrightarrow> rleft c \<le> rleft r)"
  proof (cases cur rule: rev_cases)
    case Nil
    then show ?thesis using assms by (simp add: merge_rect_def)
  next
    case (snoc ini l)
    have gap: "q \<in> set ini \<Longrightarrow> rright q < rleft l" for q using assms(1) snoc by (auto simp: one_band_append)
    then show ?thesis using assms snoc
      by (auto simp: merge_rect_def one_band_append dest: gap)
  qed
  then show "one_band t bt (merge_rect t bt cur r)"
    and "in_row (merge_rect t bt cur r) x \<longleftrightarrow> in_row cur x \<or> (rleft r \<le> x \<and> x < rright r)"
    and "c \<in> set (merge_rect t bt cur r) \<Longrightarrow> rleft c \<le> rleft r"
    by blast+
qed

lemma MERGERECT_result:
  assumes "rects reg = base @ cur" and "one_band t bt cur" and "t < bt"
    and "\<forall>r \<in> set base. rbottom r \<le> t"
  shows "band_result (base @ merge_rect t bt cur r) reg e (MERGERECT r t bt reg e)"
proof (cases cur rule: rev_cases)
  case Nil
  have "rects reg \<noteq> [] \<Longrightarrow> rbottom (last (rects reg)) \<le> t" using assms(1,4) Nil by simp
  then have "MERGERECT r t bt reg e = add_rect (mk_rect (rleft r) t (rright r) bt) reg e"
    using assms(3) by (auto simp: MERGERECT_def)
  then show ?thesis using add_rect_result [of reg "mk_rect (rleft r) t (rright r) bt" e] assms(1) Nil
    by (simp add: merge_rect_def)
next
  case (snoc ini l)
  have l: "rtop l = t" "rbottom l = bt" using assms(2) snoc by (auto simp: one_band_append)
  show ?thesis
  proof (cases "rright l \<ge> rleft r")
    case True
    then show ?thesis using assms(1) snoc l
      by (auto simp: MERGERECT_def merge_rect_def band_result_def fits_def butlast_append)
  next
    case False
    have "MERGERECT r t bt reg e = add_rect (mk_rect (rleft r) t (rright r) bt) reg e"
      using assms(1) snoc False by (simp add: MERGERECT_def)
    then show ?thesis
      using add_rect_result [of reg "mk_rect (rleft r) t (rright r) bt" e] assms(1) snoc False
      by (simp add: merge_rect_def)
  qed
qed

text \<open>The state of the merge: the band written so far, and what is still to come on its right.\<close>

definition merging :: "int \<Rightarrow> int \<Rightarrow> rectangle list \<Rightarrow> rectangle list \<Rightarrow> rectangle list \<Rightarrow> bool" where
  "merging t bt cur r1 r2 \<longleftrightarrow>
     one_band t bt cur \<and> (\<exists>t1 b1. one_band t1 b1 r1) \<and> (\<exists>t2 b2. one_band t2 b2 r2) \<and>
     (\<forall>c \<in> set cur. \<forall>r \<in> set r1 \<union> set r2. rleft c \<le> rleft r)"

lemma merging_step1:
  assumes "merging t bt cur (a # r1) r2" and "\<forall>b \<in> set r2. rleft a \<le> rleft b"
  shows "merging t bt (merge_rect t bt cur a) r1 r2"
proof -
  obtain t1 b1 where a: "one_band t1 b1 (a # r1)" using assms(1) by (auto simp: merging_def)
  have c: "one_band t bt cur" "\<forall>c \<in> set cur. rleft c \<le> rleft a" using assms(1) by (auto simp: merging_def)
  have lt: "rleft a < rright a" using a by simp
  have "rleft a \<le> rleft r" if "r \<in> set r1 \<union> set r2" for r
    using that a assms(2) by force
  then show ?thesis using assms(1) a merge_rect_correct(1,3) [OF c(1) lt c(2)]
    unfolding merging_def by (metis one_band_simps(2) order_trans)
qed

lemma merging_swap: "merging t bt cur r1 r2 = merging t bt cur r2 r1"
  by (auto simp: merging_def)

lemma merging_hd: "merging t bt cur (a # r1) r2 \<Longrightarrow> r \<in> set (a # r1) \<Longrightarrow> rleft a \<le> rleft r"
  by (force simp: merging_def)

lemma merging_step2:
  assumes "merging t bt cur r1 (b # r2)" and "\<forall>a \<in> set r1. rleft b \<le> rleft a"
  shows "merging t bt (merge_rect t bt cur b) r1 r2"
  using merging_step1 [of t bt cur b r2 r1] assms merging_swap by blast

text \<open>In each round of the merge the rectangle that is taken is the leftmost one left.\<close>

lemma merging_first:
  "merging t bt cur (a # r1) (b # r2) \<Longrightarrow>
   (if rleft a < rleft b then merging t bt (merge_rect t bt cur a) r1 (b # r2)
    else merging t bt (merge_rect t bt cur b) (a # r1) r2)"
proof -
  assume m: "merging t bt cur (a # r1) (b # r2)"
  have a: "r \<in> set (a # r1) \<Longrightarrow> rleft a \<le> rleft r" for r by (rule merging_hd [OF m])
  have b: "r \<in> set (b # r2) \<Longrightarrow> rleft b \<le> rleft r" for r
    by (rule merging_hd [OF m [unfolded merging_swap [of t bt cur "a # r1"]]])
  show ?thesis
  proof (cases "rleft a < rleft b")
    case True
    have "\<forall>r \<in> set (b # r2). rleft a \<le> rleft r" using True b by fastforce
    then show ?thesis using merging_step1 [OF m] True by simp
  next
    case False
    have "\<forall>r \<in> set (a # r1). rleft b \<le> rleft r" using False a by fastforce
    then show ?thesis using merging_step2 [OF m] False by simp
  qed
qed

lemma union_overlapping_result:
  "merging t bt cur r1 r2 \<Longrightarrow> t < bt \<Longrightarrow> \<forall>r \<in> set base. rbottom r \<le> t \<Longrightarrow> rects reg = base @ cur \<Longrightarrow>
   band_result (base @ union_band cur r1 r2 t bt) reg e (union_overlapping r1 r2 t bt reg e)"
proof (induction cur r1 r2 t bt arbitrary: reg e rule: union_band.induct)
  case (1 cur a r1 b r2 t bt)
  have step: "band_result (base @ merge_rect t bt cur r) reg e (MERGERECT r t bt reg e)" for r
    using 1 by (intro MERGERECT_result) (auto simp: merging_def)
  show ?case
  proof (cases "rleft a < rleft b")
    case True
    then show ?thesis using "1.IH"(1) "1.prems" merging_first [OF "1.prems"(1)]
      by (auto intro: band_result_and_then [OF step])
  next
    case False
    then show ?thesis using "1.IH"(2) "1.prems" merging_first [OF "1.prems"(1)]
      by (auto intro: band_result_and_then [OF step])
  qed
next
  case (2 cur a r1 t bt)
  have "band_result (base @ merge_rect t bt cur a) reg e (MERGERECT a t bt reg e)"
    using 2 by (intro MERGERECT_result) (auto simp: merging_def)
  moreover have "merging t bt (merge_rect t bt cur a) r1 []" using merging_step1 2 by simp
  ultimately show ?case using 2 by (auto intro: band_result_and_then)
next
  case (3 cur b r2 t bt)
  have "band_result (base @ merge_rect t bt cur b) reg e (MERGERECT b t bt reg e)"
    using 3 by (intro MERGERECT_result) (auto simp: merging_def)
  moreover have "merging t bt (merge_rect t bt cur b) [] r2" using merging_step2 3 by simp
  ultimately show ?case using 3 by (auto intro: band_result_and_then)
qed simp

lemma merging_in_row:
  assumes "merging t bt cur (a # r1) r2"
  shows "in_row (merge_rect t bt cur a) x \<longleftrightarrow> in_row cur x \<or> (rleft a \<le> x \<and> x < rright a)"
  using assms merge_rect_correct(2) [of t bt cur a] by (auto simp: merging_def)

lemma union_band_correct:
  "merging t bt cur r1 r2 \<Longrightarrow>
   one_band t bt (union_band cur r1 r2 t bt) \<and>
   (in_row (union_band cur r1 r2 t bt) x \<longleftrightarrow> in_row cur x \<or> in_row r1 x \<or> in_row r2 x)"
proof (induction cur r1 r2 t bt rule: union_band.induct)
  case (1 cur a r1 b r2 t bt)
  then show ?case using merging_first [OF "1.prems"] merging_in_row [OF "1.prems"]
      merging_in_row [of t bt cur b r2 "a # r1"] by (auto simp: merging_swap)
next
  case (2 cur a r1 t bt)
  then show ?case using merging_step1 [of t bt cur a r1 "[]"] merging_in_row [OF "2.prems"] by auto
next
  case (3 cur b r2 t bt)
  then show ?case using merging_step2 [of t bt cur "[]" b r2] merging_in_row [of t bt cur b r2 "[]"]
    by (auto simp: merging_swap)
qed (simp add: merging_def)

end
