(* ===== verification/Region_Sweep.thy ===== *)
theory Region_Sweep
  imports Region_Overlap
begin

text \<open>
  Correctness of \<open>region_op\<close> of server/region.c, once for all the operators built on it. The
  locale \<open>band_op\<close> is the contract between the sweep and the functions it calls on single
  bands: with \<open>f\<close> the boolean operation on membership, each of them appends one well-formed
  band whose columns are those of \<open>f\<close>. Under that contract the sweep produces a well-formed
  list that covers exactly the points of \<open>f\<close>, and fails only when the allocator does.
\<close>

subsection \<open>What every step of the sweep keeps\<close>

definition frame :: "region \<Rightarrow> env \<Rightarrow> region fallible \<Rightarrow> bool" where
  "frame reg e res \<longleftrightarrow>
     (case res of (ok, reg', e') \<Rightarrow>
        extents reg' = extents reg \<and> (fits reg \<longrightarrow> fits reg') \<and>
        env_step e e' \<and> (mem_ok e \<longrightarrow> ok) \<and> (\<not> ok \<longrightarrow> cur_error e' = STATUS_NO_MEMORY))"

lemma frame_refl [simp]: "frame reg e (True, reg, e)"
  by (simp add: frame_def)

lemma frame_trans: "frame reg e (True, reg1, e1) \<Longrightarrow> frame reg1 e1 res \<Longrightarrow> frame reg e res"
  by (auto simp: frame_def dest: env_step_trans mem_ok_step)

lemma band_result_frame: "band_result rs reg e res \<Longrightarrow> frame reg e res"
  by (auto simp: band_result_def frame_def)

lemma band_result_rects: "band_result rs reg e (True, reg', e') \<Longrightarrow> rects reg' = rs"
  by (simp add: band_result_def)

text \<open>A step that appends the band between \<open>t\<close> and \<open>b\<close> with the columns \<open>cols\<close>.\<close>

definition emits :: "(int \<Rightarrow> bool) \<Rightarrow> int \<Rightarrow> int \<Rightarrow> region \<Rightarrow> env \<Rightarrow> region fallible \<Rightarrow> bool" where
  "emits cols t b reg e res \<longleftrightarrow>
     (\<exists>out. one_band t b out \<and> (\<forall>x. in_row out x \<longleftrightarrow> cols x) \<and> band_result (rects reg @ out) reg e res)"

abbreviation all_above :: "int \<Rightarrow> rectangle list \<Rightarrow> bool" where
  "all_above y rs \<equiv> \<forall>r \<in> set rs. rbottom r \<le> y"

text \<open>The output list of the sweep: complete down to row \<open>y\<close>, its last band at \<open>prev\<close>.\<close>

definition written :: "int \<Rightarrow> nat \<Rightarrow> rectangle list \<Rightarrow> bool" where
  "written y prev acc \<longleftrightarrow> banded acc \<and> last_band_at prev acc \<and> all_above y acc"

lemma written_weaken: "written y prev acc \<Longrightarrow> y \<le> y' \<Longrightarrow> written y' prev acc"
  by (force simp: written_def)

lemma coalesce_skip [simp]: "coalesce_if_added prev (num_rects reg) reg = (prev, reg)"
  by (simp add: coalesce_if_added_def)

lemma emit_and_coalesce:
  assumes w: "written t prev (rects reg)" and tb: "t < b"
    and em: "emits cols t b reg e (True, reg1, e1)"
    and co: "coalesce_if_added prev (num_rects reg) reg1 = (prev', reg2)"
  shows "written b prev' (rects reg2) \<and> frame reg e (True, reg2, e1) \<and>
     pts (rects reg2) = pts (rects reg) \<union> {(x, y). t \<le> y \<and> y < b \<and> cols x}"
proof -
  obtain out where out: "one_band t b out" "\<And>x. in_row out x \<longleftrightarrow> cols x"
    and br: "band_result (rects reg @ out) reg e (True, reg1, e1)" using em by (auto simp: emits_def)
  have r1: "rects reg1 = rects reg @ out" by (rule band_result_rects [OF br])
  have c: "coalesced (rects reg @ out) (rects reg2) \<and> extents reg2 = extents reg1 \<and>
      rgn_size reg2 = rgn_size reg1 \<and> last_band_at prev' (rects reg2)"
    using w co by (intro coalesce_if_added_correct [OF _ r1 out(1) tb]) (auto simp: written_def)
  have "all_above b (rects reg @ out)"
    using w tb one_band_top [OF out(1)] by (force simp: written_def)
  then have "written b prev' (rects reg2)" using c by (simp add: written_def coalesced_def)
  moreover have "frame reg e (True, reg2, e1)"
    using band_result_frame [OF br] c r1 by (auto simp: frame_def fits_def coalesced_def)
  moreover have "pts out = {(x, y). t \<le> y \<and> y < b \<and> cols x}"
    using one_band_pts [OF out(1)] out(2) by auto
  ultimately show ?thesis using c by (simp add: coalesced_def)
qed

text \<open>The same for a step that is skipped when there is no row between \<open>t\<close> and \<open>b\<close>.\<close>

lemma emit_rows:
  assumes w: "written y0 prev (rects reg)" and t: "y0 \<le> t" "t \<le> b"
    and res: "(ok, reg1, e1) = (if t \<noteq> b then m else (True, reg, e))"
    and em: "t < b \<Longrightarrow> emits cols t b reg e m"
    and cv: "\<And>x y. y0 \<le> y \<Longrightarrow> y < b \<Longrightarrow> P x y \<longleftrightarrow> t \<le> y \<and> cols x"
    and co: "coalesce_if_added prev (num_rects reg) reg1 = (prev2, reg2)"
  shows "frame reg e (ok, reg1, e1) \<and> (ok \<longrightarrow> written b prev2 (rects reg2) \<and> frame reg e (True, reg2, e1) \<and>
      pts (rects reg2) = pts (rects reg) \<union> {(x, y). y0 \<le> y \<and> y < b \<and> P x y})"
proof (cases "t < b")
  case True
  have m: "emits cols t b reg e (ok, reg1, e1)" using em [OF True] res True by simp
  have "frame reg e (ok, reg1, e1)" using m band_result_frame by (auto simp: emits_def)
  moreover have "{(x, y). y0 \<le> y \<and> y < b \<and> P x y} = {(x, y). t \<le> y \<and> y < b \<and> cols x}"
    using cv t by auto
  ultimately show ?thesis
    using emit_and_coalesce [OF written_weaken [OF w t(1)] True _ co] m by auto
next
  case False
  then have "t = b" using t by simp
  moreover have "{(x, y). y0 \<le> y \<and> y < b \<and> P x y} = {}" using cv \<open>t = b\<close> by auto
  ultimately show ?thesis using res co w written_weaken [OF w, of b] t by auto
qed

subsection \<open>The tail of the sweep\<close>

text \<open>The bands below the last common one, all from the same list, appended without coalescing.\<close>

definition appended :: "(bool \<Rightarrow> bool) \<Rightarrow> int \<Rightarrow> rectangle list \<Rightarrow> rectangle list \<Rightarrow> bool" where
  "appended g y r out \<longleftrightarrow>
     banded out \<and> (\<forall>s \<in> set out. max (rtop (hd r)) y \<le> rtop s) \<and>
     (\<forall>x y'. (x, y') \<in> pts out \<longleftrightarrow> y \<le> y' \<and> g ((x, y') \<in> pts r))"

lemma appended_Cons:
  assumes b: "banded r" "r \<noteq> []" and y: "y < rbottom (hd r)" and g: "\<not> g False"
    and B: "one_band (max (rtop (hd r)) y) (rbottom (hd r)) B" "\<And>x. in_row B x \<longleftrightarrow> g (in_row (band_of r) x)"
    and rest: "if after_band r = [] then out = [] else appended g y (after_band r) out"
  shows "appended g y r (B @ out)"
proof -
  have lt: "max (rtop (hd r)) y < rbottom (hd r)" using b y by (cases r) (auto simp: is_rect_empty_def)
  have top: "rbottom (hd r) \<le> rtop s" if "s \<in> set out" for s
    using that rest after_band_below [OF b(1), of "hd (after_band r)"]
    by (fastforce simp: appended_def split: if_splits)
  have bs: "rtop s = max (rtop (hd r)) y" "rbottom s = rbottom (hd r)" if "s \<in> set B" for s
    using one_band_top [OF B(1) that] by simp_all
  have "banded out" using rest by (simp add: appended_def split: if_splits)
  then have "banded (B @ out)"
    using one_band_banded [OF B(1) lt] top bs(2) by (simp add: banded_append rect_before_def)
  moreover have "max (rtop (hd r)) y \<le> rtop s" if "s \<in> set (B @ out)" for s
    using that bs(1) [of s] top [of s] lt by (cases "s \<in> set B") auto
  moreover have "(x, y') \<in> pts (B @ out) \<longleftrightarrow> y \<le> y' \<and> g ((x, y') \<in> pts r)" for x y'
  proof (cases "y' < rbottom (hd r)")
    case True
    then have "(x, y') \<notin> pts out" using top by (force simp: mem_pts point_in_rect_def)
    then show ?thesis using True one_band_pts [OF B(1), of x y'] B(2) [of x] pts_first_band [OF b, of x y'] g
      by (cases "rtop (hd r) \<le> y'") auto
  next
    case False
    then show ?thesis using y one_band_pts [OF B(1), of x y'] pts_first_band [OF b, of x y'] rest g
      by (auto simp: appended_def split: if_splits)
  qed
  ultimately show ?thesis by (simp add: appended_def)
qed

lemma tail_correct:
  assumes h: "\<And>B t1 b1 t b reg e. one_band t1 b1 B \<Longrightarrow> t < b \<Longrightarrow> all_above t (rects reg) \<Longrightarrow>
      emits (\<lambda>x. g (in_row B x)) t b reg e (h B t b reg e)"
    and g: "\<not> g False"
  shows "banded r \<Longrightarrow> r \<noteq> [] \<Longrightarrow> y < rbottom (hd r) \<Longrightarrow> all_above (max (rtop (hd r)) y) (rects reg) \<Longrightarrow>
     frame reg e (region_op_tail h r y reg e) \<and>
     (\<forall>reg' e'. region_op_tail h r y reg e = (True, reg', e') \<longrightarrow>
        (\<exists>out. rects reg' = rects reg @ out \<and> appended g y r out))"
proof (induction "length r" arbitrary: r reg e rule: less_induct)
  case less
  let ?t = "max (rtop (hd r)) y" and ?b = "rbottom (hd r)"
  have tb: "?t < ?b" using less.prems by (cases r) (auto simp: is_rect_empty_def)
  obtain B where B: "one_band ?t ?b B" "\<And>x. in_row B x \<longleftrightarrow> g (in_row (band_of r) x)"
    and br: "band_result (rects reg @ B) reg e (h (band_of r) ?t ?b reg e)"
    using h [OF one_band_band_of [OF less.prems(1)] tb less.prems(4)] by (auto simp: emits_def)
  have unf: "region_op_tail h r y reg e =
      and_then (h (band_of r) ?t ?b reg e) (region_op_tail h (after_band r) y)"
    using less.prems(2) by (simp add: region_op_tail.simps [of h r])
  obtain ok1 reg1 e1 where h1: "h (band_of r) ?t ?b reg e = (ok1, reg1, e1)" by (rule prod_cases3)
  note f1 = band_result_frame [OF br, unfolded h1]
  note app = appended_Cons [OF less.prems(1-3) g B]
  show ?case
  proof (cases "ok1 \<and> after_band r \<noteq> []")
    case False
    then show ?thesis using f1 unf h1 br app [of "[]"]
      by (cases ok1) (auto simp: region_op_tail.simps [of h "[]"] band_result_def)
  next
    case True
    have r1: "rects reg1 = rects reg @ B" using br True h1 by (simp add: band_result_def)
    have hd: "?b \<le> rtop (hd (after_band r))"
      using after_band_below [OF less.prems(1)] True by simp
    have ba: "banded (after_band r)" using less.prems(1) by (rule banded_after_band)
    have "y < rbottom (hd (after_band r))"
      using ba hd True less.prems(3) by (cases "after_band r") (auto simp: is_rect_empty_def)
    moreover have "all_above (max (rtop (hd (after_band r))) y) (rects reg1)"
      using r1 less.prems(4) hd tb one_band_top [OF B(1)] by fastforce
    ultimately have IH: "frame reg1 e1 (region_op_tail h (after_band r) y reg1 e1) \<and>
       (\<forall>reg' e'. region_op_tail h (after_band r) y reg1 e1 = (True, reg', e') \<longrightarrow>
          (\<exists>out. rects reg' = rects reg1 @ out \<and> appended g y (after_band r) out))"
      using less.hyps [OF length_after_band [OF less.prems(2)] ba] True by blast
    then show ?thesis using True unf h1 f1 r1 app by (auto intro: frame_trans)
  qed
qed

lemma coalesce_tail:
  assumes w: "written y prev (rects reg)" and b: "banded r" "r \<noteq> []" "y < rbottom (hd r)"
    and rs: "rects reg3 = rects reg @ out" and out: "appended g y r out"
    and co: "coalesce_if_added prev (num_rects reg) reg3 = (p4, reg4)"
  shows "coalesced (rects reg @ out) (rects reg4) \<and> extents reg4 = extents reg3 \<and> rgn_size reg4 = rgn_size reg3"
proof (cases "out = []")
  case True
  then show ?thesis using co rs w by (auto simp: coalesce_if_added_def written_def)
next
  case False
  have le: "rbottom s \<le> rtop q" if "s \<in> set (rects reg)" "q \<in> set out" for s q
    using w out that by (fastforce simp: written_def appended_def)
  then have "banded (rects reg @ out)"
    using w out by (simp add: banded_append written_def appended_def rect_before_def)
  moreover have "last_band_at prev (rects reg)" using w by (simp add: written_def)
  moreover have "coalesce_region prev (num_rects reg) reg3 = (p4, reg4)"
    using co rs False by (simp add: coalesce_if_added_def)
  ultimately show ?thesis
    using coalesce_region_correct [of prev "rects reg" reg3 out p4 reg4] rs False le by simp
qed

text \<open>What follows the sweep when only \<open>r\<close> is left, \<open>no\<close> being its non-overlap function.\<close>

lemma finish_one:
  assumes h: "\<And>B t1 b1 t b reg e. one_band t1 b1 B \<Longrightarrow> t < b \<Longrightarrow> all_above t (rects reg) \<Longrightarrow>
      emits (\<lambda>x. g (in_row B x)) t b reg e (call_non_overlap no B t b reg e)"
    and g: "\<not> g False"
    and w: "written y prev (rects reg)" and b: "banded r" "r \<noteq> []" "y < rbottom (hd r)"
    and res: "(case no of None \<Rightarrow> (True, reg, e) | Some h \<Rightarrow> region_op_tail h r y reg e) = (ok, reg3, e3)"
    and co: "coalesce_if_added prev (num_rects reg) reg3 = (p4, reg4)"
  shows "frame reg e (ok, reg3, e3) \<and> (ok \<longrightarrow> frame reg e (True, reg4, e3) \<and> banded (rects reg4) \<and>
     pts (rects reg4) = pts (rects reg) \<union> {(x, y'). y \<le> y' \<and> g ((x, y') \<in> pts r)})"
proof (cases no)
  case None
  have "emits (\<lambda>x. g (in_row [mk_rect 0 0 1 1] x)) 0 1 (reg\<lparr>rects := []\<rparr>) e (True, reg\<lparr>rects := []\<rparr>, e)"
    using h [of 0 1 "[mk_rect 0 0 1 1]" 0 1 "reg\<lparr>rects := []\<rparr>" e] None by simp
  then have "\<forall>x. \<not> g (in_row [mk_rect 0 0 1 1] x)" by (auto simp: emits_def)
  then have "\<not> g True" by (auto dest: spec [of _ 0])
  then have "\<not> g p" for p using g by (cases p) auto
  then show ?thesis using None res co w by (auto simp: written_def)
next
  case (Some hh)
  have tail: "region_op_tail hh r y reg e = (ok, reg3, e3)" using res Some by simp
  have above: "all_above (max (rtop (hd r)) y) (rects reg)" using w by (force simp: written_def)
  have T: "frame reg e (ok, reg3, e3)"
    "ok \<Longrightarrow> \<exists>out. rects reg3 = rects reg @ out \<and> appended g y r out"
    using tail_correct [of g hh r y reg e] h Some g b above tail by auto
  moreover have "frame reg e (True, reg4, e3) \<and> banded (rects reg4) \<and>
     pts (rects reg4) = pts (rects reg) \<union> {(x, y'). y \<le> y' \<and> g ((x, y') \<in> pts r)}" if ok': ok
  proof -
    obtain out where out: "rects reg3 = rects reg @ out" "appended g y r out" using T(2) [OF ok'] by auto
    note c = coalesce_tail [OF w b out co]
    have "pts out = {(x, y'). y \<le> y' \<and> g ((x, y') \<in> pts r)}" using out(2) by (auto simp: appended_def)
    then show ?thesis using c T(1) ok' out(1) by (auto simp: coalesced_def frame_def fits_def)
  qed
  ultimately show ?thesis by blast
qed

subsection \<open>The contract of an operator\<close>

locale band_op =
  fixes ov :: overlap_func
    and no1 no2 :: "non_overlap_func option"
    and f :: "bool \<Rightarrow> bool \<Rightarrow> bool"
  assumes f_none: "\<not> f False False"
    and overlap: "one_band t1 b1 B1 \<Longrightarrow> one_band t2 b2 B2 \<Longrightarrow> B1 \<noteq> [] \<Longrightarrow> B2 \<noteq> [] \<Longrightarrow> t < b \<Longrightarrow>
       all_above t (rects reg) \<Longrightarrow>
       emits (\<lambda>x. f (in_row B1 x) (in_row B2 x)) t b reg e (ov B1 B2 t b reg e)"
    and only1: "one_band t1 b1 B \<Longrightarrow> t < b \<Longrightarrow> all_above t (rects reg) \<Longrightarrow>
       emits (\<lambda>x. f (in_row B x) False) t b reg e (call_non_overlap no1 B t b reg e)"
    and only2: "one_band t1 b1 B \<Longrightarrow> t < b \<Longrightarrow> all_above t (rects reg) \<Longrightarrow>
       emits (\<lambda>x. f False (in_row B x)) t b reg e (call_non_overlap no2 B t b reg e)"
begin

text \<open>The points that are still to be produced from row \<open>y\<close> on.\<close>

definition covers :: "rectangle list \<Rightarrow> rectangle list \<Rightarrow> int \<Rightarrow> int \<Rightarrow> bool" where
  "covers r1 r2 x y \<longleftrightarrow> f ((x, y) \<in> pts r1) ((x, y) \<in> pts r2)"

definition ahead :: "int \<Rightarrow> rectangle list \<Rightarrow> bool" where
  "ahead y r \<longleftrightarrow> banded r \<and> (r \<noteq> [] \<longrightarrow> y < rbottom (hd r))"

definition sweep_ok :: "sweep \<Rightarrow> rectangle list \<Rightarrow> bool" where
  "sweep_ok sw acc \<longleftrightarrow>
     written (sw_ybot sw) (sw_prev sw) acc \<and> ahead (sw_ybot sw) (sw_r1 sw) \<and> ahead (sw_ybot sw) (sw_r2 sw) \<and>
     (sw_r1 sw \<noteq> [] \<longrightarrow> sw_r2 sw \<noteq> [] \<longrightarrow> sw_ybot sw \<le> max (rtop (hd (sw_r1 sw))) (rtop (hd (sw_r2 sw))))"

text \<open>What the finished region will cover: what is written and what is to come.\<close>

definition goal :: "sweep \<Rightarrow> rectangle list \<Rightarrow> (int \<times> int) set" where
  "goal sw acc = pts acc \<union> {(x, y). sw_ybot sw \<le> y \<and> covers (sw_r1 sw) (sw_r2 sw) x y}"

lemma ahead_hd: "ahead y r \<Longrightarrow> r \<noteq> [] \<Longrightarrow> rtop (hd r) < rbottom (hd r) \<and> y < rbottom (hd r)"
  by (cases r) (auto simp: ahead_def is_rect_empty_def)

lemma ahead_band: "ahead y r \<Longrightarrow> one_band (rtop (hd r)) (rbottom (hd r)) (band_of r)"
  by (simp add: ahead_def one_band_band_of)

lemma ahead_pts:
  "ahead y0 r \<Longrightarrow> r \<noteq> [] \<Longrightarrow> y < rbottom (hd r) \<Longrightarrow>
   (x, y) \<in> pts r \<longleftrightarrow> rtop (hd r) \<le> y \<and> in_row (band_of r) x"
  by (simp add: ahead_def pts_first_band)

subsection \<open>One round of the sweep\<close>

text \<open>
  Rows above the next common band: at most one of the two lists has rectangles there, and the
  round hands that part of its band to the non-overlap function.
\<close>

lemma covers_upto:
  assumes "ahead y0 r1" and "ahead y0 r2" and "r1 \<noteq> []" "r2 \<noteq> []"
    and "y < min (rbottom (hd r1)) (rbottom (hd r2))"
  shows "covers r1 r2 x y \<longleftrightarrow>
     f (rtop (hd r1) \<le> y \<and> in_row (band_of r1) x) (rtop (hd r2) \<le> y \<and> in_row (band_of r2) x)"
  using ahead_pts [OF assms(1,3)] ahead_pts [OF assms(2,4)] assms(5) by (simp add: covers_def)

lemma upper_half:
  assumes w: "written y0 prev (rects reg)" and a1: "ahead y0 r1" and a2: "ahead y0 r2"
    and ne: "r1 \<noteq> []" "r2 \<noteq> []" and y0: "y0 \<le> max (rtop (hd r1)) (rtop (hd r2))"
    and up: "region_op_upper no1 no2 r1 r2 y0 reg e = (ok, reg1, e1)"
    and co: "coalesce_if_added prev (num_rects reg) reg1 = (prev2, reg2)"
  defines "ymid \<equiv> min (max (rtop (hd r1)) (rtop (hd r2))) (min (rbottom (hd r1)) (rbottom (hd r2)))"
  shows "frame reg e (ok, reg1, e1) \<and> (ok \<longrightarrow> written ymid prev2 (rects reg2) \<and> frame reg e (True, reg2, e1) \<and>
      pts (rects reg2) = pts (rects reg) \<union> {(x, y). y0 \<le> y \<and> y < ymid \<and> covers r1 r2 x y})"
proof -
  have h: "rtop (hd r1) < rbottom (hd r1)" "y0 < rbottom (hd r1)"
      "rtop (hd r2) < rbottom (hd r2)" "y0 < rbottom (hd r2)"
    using ahead_hd a1 a2 ne by blast+
  note c = covers_upto [OF a1 a2 ne]
  have up': "(ok, reg1, e1) = region_op_upper no1 no2 r1 r2 y0 reg e" using up by simp
  have above: "y0 \<le> t \<Longrightarrow> all_above t (rects reg)" for t using written_weaken [OF w] by (simp add: written_def)
  consider (up1) "rtop (hd r1) < rtop (hd r2)" | (up2) "rtop (hd r2) < rtop (hd r1)" | (eq) "rtop (hd r1) = rtop (hd r2)"
    by linarith
  then show ?thesis
  proof cases
    case up1
    let ?t = "max (rtop (hd r1)) y0"
    have m: "ymid = min (rbottom (hd r1)) (rtop (hd r2))" using up1 h by (auto simp: ymid_def)
    show ?thesis
    proof (rule emit_rows [OF w, where t = ?t])
      show "(ok, reg1, e1) = (if ?t \<noteq> ymid then call_non_overlap no1 (band_of r1) ?t ymid reg e else (True, reg, e))"
        unfolding up' m using up1 by (simp add: region_op_upper_def Let_def)
      show "covers r1 r2 x y \<longleftrightarrow> ?t \<le> y \<and> f (in_row (band_of r1) x) False" if "y0 \<le> y" "y < ymid" for x y
        using c [of y x] that m up1 h f_none by (cases "rtop (hd r1) \<le> y") auto
    qed (use up1 h y0 m only1 [OF ahead_band [OF a1]] above co in auto)
  next
    case up2
    let ?t = "max (rtop (hd r2)) y0"
    have m: "ymid = min (rbottom (hd r2)) (rtop (hd r1))" using up2 h by (auto simp: ymid_def)
    show ?thesis
    proof (rule emit_rows [OF w, where t = ?t])
      show "(ok, reg1, e1) = (if ?t \<noteq> ymid then call_non_overlap no2 (band_of r2) ?t ymid reg e else (True, reg, e))"
        unfolding up' m using up2 by (simp add: region_op_upper_def Let_def)
      show "covers r1 r2 x y \<longleftrightarrow> ?t \<le> y \<and> f False (in_row (band_of r2) x)" if "y0 \<le> y" "y < ymid" for x y
        using c [of y x] that m up2 h f_none by (cases "rtop (hd r2) \<le> y") auto
    qed (use up2 h y0 m only2 [OF ahead_band [OF a2]] above co in auto)
  next
    case eq
    have m: "ymid = rtop (hd r1)" using eq h by (simp add: ymid_def)
    show ?thesis
    proof (rule emit_rows [OF w, where t = ymid and cols = "\<lambda>_. False"])
      show "covers r1 r2 x y \<longleftrightarrow> ymid \<le> y \<and> False" if "y0 \<le> y" "y < ymid" for x y
        using c [of y x] that m eq h f_none by auto
    qed (use up' eq h y0 m co in \<open>auto simp: region_op_upper_def\<close>)
  qed
qed

lemma lower_half:
  assumes a1: "ahead y0 r1" and a2: "ahead y0 r2" and ne: "r1 \<noteq> []" "r2 \<noteq> []"
  defines "ytop \<equiv> max (rtop (hd r1)) (rtop (hd r2))" and "ybot \<equiv> min (rbottom (hd r1)) (rbottom (hd r2))"
  assumes w: "written (min ytop ybot) prev (rects reg)"
    and res: "(if ybot > ytop then ov (band_of r1) (band_of r2) ytop ybot reg e else (True, reg, e)) = (ok, reg1, e1)"
    and co: "coalesce_if_added prev (num_rects reg) reg1 = (prev2, reg2)"
  shows "frame reg e (ok, reg1, e1) \<and> (ok \<longrightarrow> written ybot prev2 (rects reg2) \<and> frame reg e (True, reg2, e1) \<and>
      pts (rects reg2) = pts (rects reg) \<union> {(x, y). min ytop ybot \<le> y \<and> y < ybot \<and> covers r1 r2 x y})"
proof (rule emit_rows [OF w, where t = "min ytop ybot"])
  show "(ok, reg1, e1) =
      (if min ytop ybot \<noteq> ybot then ov (band_of r1) (band_of r2) (min ytop ybot) ybot reg e else (True, reg, e))"
    using res by (auto simp: min_def split: if_splits)
  show "emits (\<lambda>x. f (in_row (band_of r1) x) (in_row (band_of r2) x)) (min ytop ybot) ybot reg e
      (ov (band_of r1) (band_of r2) (min ytop ybot) ybot reg e)" if "min ytop ybot < ybot"
    using overlap [OF ahead_band [OF a1] ahead_band [OF a2] _ _ that] w ne
    by (simp add: band_of_nonempty written_def)
  show "covers r1 r2 x y \<longleftrightarrow> min ytop ybot \<le> y \<and> f (in_row (band_of r1) x) (in_row (band_of r2) x)"
    if "min ytop ybot \<le> y" "y < ybot" for x y
  proof -
    have "rtop (hd r1) \<le> y" "rtop (hd r2) \<le> y" using that by (auto simp: ytop_def min_def split: if_splits)
    then show ?thesis using covers_upto [OF a1 a2 ne, of y x] that by (simp add: ybot_def)
  qed
qed (use co in auto)

text \<open>Leaving out the bands that end at the row the sweep has reached.\<close>

definition advance :: "int \<Rightarrow> rectangle list \<Rightarrow> rectangle list" where
  "advance y r = (if rbottom (hd r) = y then after_band r else r)"

lemma advance_ahead:
  assumes "ahead y0 r" and "r \<noteq> []" and "y \<le> rbottom (hd r)"
  shows "ahead y (advance y r)"
    and "y \<le> y' \<Longrightarrow> (x, y') \<in> pts (advance y r) \<longleftrightarrow> (x, y') \<in> pts r"
    and "rbottom (hd r) = y \<Longrightarrow> advance y r \<noteq> [] \<Longrightarrow> y \<le> rtop (hd (advance y r))"
proof -
  have b: "banded r" using assms(1) by (simp add: ahead_def)
  have below: "after_band r \<noteq> [] \<Longrightarrow> rbottom (hd r) \<le> rtop (hd (after_band r))"
    using after_band_below [OF b hd_in_set] .
  have "banded (after_band r)" using b by (rule banded_after_band)
  then have "after_band r \<noteq> [] \<Longrightarrow> rbottom (hd r) < rbottom (hd (after_band r))"
    using below by (cases "after_band r") (auto simp: is_rect_empty_def)
  then show "ahead y (advance y r)" using assms b banded_after_band [OF b] by (auto simp: advance_def ahead_def)
  show "y \<le> y' \<Longrightarrow> (x, y') \<in> pts (advance y r) \<longleftrightarrow> (x, y') \<in> pts r"
    using pts_first_band [OF b assms(2), of x y'] by (auto simp: advance_def)
  show "rbottom (hd r) = y \<Longrightarrow> advance y r \<noteq> [] \<Longrightarrow> y \<le> rtop (hd (advance y r))"
    using below by (simp add: advance_def)
qed

lemma next_round:
  assumes ok: "sweep_ok sw acc" and ne: "sw_r1 sw \<noteq> []" "sw_r2 sw \<noteq> []"
  defines "ybot \<equiv> min (rbottom (hd (sw_r1 sw))) (rbottom (hd (sw_r2 sw)))"
  defines "sw' p \<equiv> \<lparr>sw_r1 = advance ybot (sw_r1 sw), sw_r2 = advance ybot (sw_r2 sw), sw_ybot = ybot, sw_prev = p\<rparr>"
  assumes w: "written ybot prev acc'"
    and p: "pts acc' = pts acc \<union> {(x, y). sw_ybot sw \<le> y \<and> y < ybot \<and> covers (sw_r1 sw) (sw_r2 sw) x y}"
  shows "sweep_ok (sw' prev) acc' \<and> goal (sw' prev) acc' = goal sw acc \<and>
     length (sw_r1 (sw' prev)) + length (sw_r2 (sw' prev)) < length (sw_r1 sw) + length (sw_r2 sw)"
proof -
  have a: "ahead (sw_ybot sw) (sw_r1 sw)" "ahead (sw_ybot sw) (sw_r2 sw)" using ok by (auto simp: sweep_ok_def)
  have le: "ybot \<le> rbottom (hd (sw_r1 sw))" "ybot \<le> rbottom (hd (sw_r2 sw))" by (auto simp: ybot_def)
  have y: "sw_ybot sw \<le> ybot" using ahead_hd a ne by (simp add: ybot_def less_imp_le)
  note adv = advance_ahead [OF a(1) ne(1) le(1)] advance_ahead [OF a(2) ne(2) le(2)]
  have which: "rbottom (hd (sw_r1 sw)) = ybot \<or> rbottom (hd (sw_r2 sw)) = ybot" by (auto simp: ybot_def)
  have "sweep_ok (sw' prev) acc'"
    using w adv(1,4) which adv(3,6) by (auto simp: sweep_ok_def sw'_def max.coboundedI1 max.coboundedI2)
  moreover have "covers (advance ybot (sw_r1 sw)) (advance ybot (sw_r2 sw)) x y' \<longleftrightarrow> covers (sw_r1 sw) (sw_r2 sw) x y'"
    if "ybot \<le> y'" for x y' using adv(2,5) [OF that] by (simp add: covers_def)
  then have "goal (sw' prev) acc' = goal sw acc"
    using p y by (auto simp: goal_def sw'_def)
  moreover have "length (advance ybot (sw_r1 sw)) + length (advance ybot (sw_r2 sw)) < length (sw_r1 sw) + length (sw_r2 sw)"
    using length_after_band [OF ne(1)] length_after_band [OF ne(2)] which by (auto simp: advance_def)
  ultimately show ?thesis by (simp add: sw'_def)
qed

subsection \<open>The whole sweep\<close>

lemma loop_correct:
  "sweep_ok sw (rects reg) \<Longrightarrow> region_op_loop ov no1 no2 sw reg e = (ok, sw', reg', e') \<Longrightarrow>
   frame reg e (ok, reg', e') \<and>
   (ok \<longrightarrow> sweep_ok sw' (rects reg') \<and> goal sw' (rects reg') = goal sw (rects reg) \<and>
      (sw_r1 sw' = [] \<or> sw_r2 sw' = []))"
proof (induction "length (sw_r1 sw) + length (sw_r2 sw)" arbitrary: sw reg e rule: less_induct)
  case less
  note run = less.prems(2) [unfolded region_op_loop.simps [of ov no1 no2 sw]]
  show ?case
  proof (cases "sw_r1 sw = [] \<or> sw_r2 sw = []")
    case True
    then show ?thesis using run less.prems(1) by auto
  next
    case False
    then have ne: "sw_r1 sw \<noteq> []" "sw_r2 sw \<noteq> []" by auto
    let ?r1 = "sw_r1 sw" and ?r2 = "sw_r2 sw"
    let ?ytop = "max (rtop (hd ?r1)) (rtop (hd ?r2))" and ?ybot = "min (rbottom (hd ?r1)) (rbottom (hd ?r2))"
    have a: "ahead (sw_ybot sw) ?r1" "ahead (sw_ybot sw) ?r2" and w: "written (sw_ybot sw) (sw_prev sw) (rects reg)"
      and y0: "sw_ybot sw \<le> ?ytop" using less.prems(1) ne by (auto simp: sweep_ok_def)
    obtain ok1 reg1 e1 where up: "region_op_upper no1 no2 ?r1 ?r2 (sw_ybot sw) reg e = (ok1, reg1, e1)"
      by (rule prod_cases3)
    obtain p2 reg2 where co1: "coalesce_if_added (sw_prev sw) (num_rects reg) reg1 = (p2, reg2)" by (rule prod.exhaust)
    note U = upper_half [OF w a ne y0 up co1]
    obtain ok3 reg3 e3 where lo: "(if ?ybot > ?ytop then ov (band_of ?r1) (band_of ?r2) ?ytop ?ybot reg2 e1
        else (True, reg2, e1)) = (ok3, reg3, e3)" by (rule prod_cases3)
    obtain p4 reg4 where co2: "coalesce_if_added p2 (num_rects reg2) reg3 = (p4, reg4)" by (rule prod.exhaust)
    let ?sw = "\<lparr>sw_r1 = advance ?ybot ?r1, sw_r2 = advance ?ybot ?r2, sw_ybot = ?ybot, sw_prev = p4\<rparr>"
    have run': "(if \<not> ok1 then (False, sw, reg1, e1) else if \<not> ok3 then (False, sw, reg3, e3)
        else region_op_loop ov no1 no2 ?sw reg4 e3) = (ok, sw', reg', e')"
      using run unfolding Let_def up co1 prod.case
      by (cases ok1; cases ok3; simp only: ne lo co2 prod.case bool.case advance_def not_True_eq_False
          not_False_eq_True if_True if_False simp_thms)
    show ?thesis
    proof (cases "ok1 \<and> ok3")
      case False
      show ?thesis
      proof (cases ok1)
        case True
        then show ?thesis using False run' U lower_half [OF a ne _ lo co2] by (auto intro: frame_trans)
      qed (use run' U in auto)
    next
      case True
      then have u: "written (min ?ytop ?ybot) p2 (rects reg2)" "frame reg e (True, reg2, e1)"
          "pts (rects reg2) = pts (rects reg) \<union> {(x, y). sw_ybot sw \<le> y \<and> y < min ?ytop ?ybot \<and> covers ?r1 ?r2 x y}"
        using U by auto
      have l: "written ?ybot p4 (rects reg4)" "frame reg2 e1 (True, reg4, e3)"
          "pts (rects reg4) = pts (rects reg2) \<union> {(x, y). min ?ytop ?ybot \<le> y \<and> y < ?ybot \<and> covers ?r1 ?r2 x y}"
        using lower_half [OF a ne u(1) lo co2] True by auto
      have "sw_ybot sw \<le> min ?ytop ?ybot" using y0 ahead_hd [OF a(1) ne(1)] ahead_hd [OF a(2) ne(2)] by auto
      then have p: "pts (rects reg4) = pts (rects reg) \<union> {(x, y). sw_ybot sw \<le> y \<and> y < ?ybot \<and> covers ?r1 ?r2 x y}"
        unfolding l(3) u(3) by auto
      note N = next_round [OF less.prems(1) ne l(1) p]
      have "frame reg4 e3 (ok, reg', e') \<and> (ok \<longrightarrow> sweep_ok sw' (rects reg') \<and>
          goal sw' (rects reg') = goal ?sw (rects reg4) \<and> (sw_r1 sw' = [] \<or> sw_r2 sw' = []))"
        using less.hyps [of ?sw reg4 e3] N run' True by auto
      then show ?thesis using N frame_trans [OF frame_trans [OF u(2) l(2)]] by auto
    qed
  qed
qed

lemma start_sweep:
  assumes b: "banded r1" "banded r2" and ne: "r1 \<noteq> []" "r2 \<noteq> []"
  defines "sw \<equiv> \<lparr>sw_r1 = r1, sw_r2 = r2, sw_ybot = min (rtop (hd r1)) (rtop (hd r2)), sw_prev = 0\<rparr>"
  shows "sweep_ok sw []" and "goal sw [] = {(x, y). covers r1 r2 x y}"
proof -
  have lt: "rtop (hd r1) < rbottom (hd r1)" "rtop (hd r2) < rbottom (hd r2)"
    using b ne by (cases r1; cases r2; auto simp: is_rect_empty_def)+
  then show "sweep_ok sw []" using b by (auto simp: sweep_ok_def sw_def written_def ahead_def)
  have none: "(x, y) \<notin> pts r" if "banded r" "y < rtop (hd r)" for x y r
    using banded_hd_top [OF that(1)] that(2) by (force simp: mem_pts point_in_rect_def)
  have "rtop (hd r1) \<le> y \<or> rtop (hd r2) \<le> y" if "covers r1 r2 x y" for x y
    using that none [OF b(1), of y x] none [OF b(2), of y x] f_none by (force simp: covers_def)
  then show "goal sw [] = {(x, y). covers r1 r2 x y}"
    by (auto simp: goal_def sw_def min_le_iff_disj)
qed

lemma finish_correct:
  assumes ok: "sweep_ok sw (rects reg)" and one: "sw_r1 sw = [] \<or> sw_r2 sw = []"
    and res: "(if sw_r1 sw \<noteq> [] then
                 (case no1 of None \<Rightarrow> (True, reg, e) | Some h \<Rightarrow> region_op_tail h (sw_r1 sw) (sw_ybot sw) reg e)
               else if sw_r2 sw \<noteq> [] then
                 (case no2 of None \<Rightarrow> (True, reg, e) | Some h \<Rightarrow> region_op_tail h (sw_r2 sw) (sw_ybot sw) reg e)
               else (True, reg, e)) = (ok', reg3, e3)"
    and co: "coalesce_if_added (sw_prev sw) (num_rects reg) reg3 = (p4, reg4)"
  shows "frame reg e (ok', reg3, e3) \<and> (ok' \<longrightarrow> frame reg e (True, reg4, e3) \<and> banded (rects reg4) \<and>
     pts (rects reg4) = goal sw (rects reg))"
proof -
  have w: "written (sw_ybot sw) (sw_prev sw) (rects reg)" using ok by (simp add: sweep_ok_def)
  have a: "banded (sw_r1 sw)" "banded (sw_r2 sw)" "sw_r1 sw \<noteq> [] \<Longrightarrow> sw_ybot sw < rbottom (hd (sw_r1 sw))"
      "sw_r2 sw \<noteq> [] \<Longrightarrow> sw_ybot sw < rbottom (hd (sw_r2 sw))"
    using ok by (auto simp: sweep_ok_def ahead_def)
  consider (l1) "sw_r1 sw \<noteq> []" "sw_r2 sw = []" | (l2) "sw_r1 sw = []" "sw_r2 sw \<noteq> []"
    | (none) "sw_r1 sw = []" "sw_r2 sw = []" using one by blast
  then show ?thesis
  proof cases
    case l1
    then show ?thesis using finish_one [OF only1 f_none w a(1) l1(1) a(3) _ co] res
      by (simp add: goal_def covers_def)
  next
    case l2
    then show ?thesis using finish_one [OF only2 f_none w a(2) l2(2) a(4) _ co] res
      by (simp add: goal_def covers_def)
  next
    case none
    then show ?thesis using res co w f_none by (auto simp: goal_def covers_def written_def)
  qed
qed

text \<open>
  The operator as a whole. It may fail with part of the output written; the extents are the
  caller's business.
\<close>

lemma region_op_correct:
  assumes b: "banded (rects src1)" "banded (rects src2)" and ne: "rects src1 \<noteq> []" "rects src2 \<noteq> []"
    and top: "rtop (extents src1) = rtop (hd (rects src1))" "rtop (extents src2) = rtop (hd (rects src2))"
    and res: "region_op ov no1 no2 dst src1 src2 e = (ok, reg', e')"
  shows "frame dst e (ok, reg', e') \<and>
     (ok \<longrightarrow> fits reg' \<and> banded (rects reg') \<and>
        pts (rects reg') = {(x, y). f ((x, y) \<in> pts (rects src1)) ((x, y) \<in> pts (rects src2))})"
proof -
  obtain ok1 e1 where ma: "mem_alloc e = (ok1, e1)" by (rule prod.exhaust)
  define reg0 where "reg0 = dst\<lparr>rgn_size := max (num_rects src1) (num_rects src2) * 2, rects := []\<rparr>"
  define sw0 where "sw0 = \<lparr>sw_r1 = rects src1, sw_r2 = rects src2,
     sw_ybot = min (rtop (hd (rects src1))) (rtop (hd (rects src2))), sw_prev = 0\<rparr>"
  have lt_min: "(if a < b then a else b) = min a b" for a b :: int by auto
  have fits0: "fits reg0" using ne by (simp add: reg0_def fits_def less_max_iff_disj)
  have f0: "frame dst e (ok, r, e') \<and> fits r" if "frame reg0 e1 (ok, r, e')" "ok1" for ok r e'
    using that fits0 mem_alloc_step [OF ma] by (auto simp: frame_def reg0_def dest: mem_ok_step env_step_trans)
  obtain ok2 sw reg2 e2 where loop: "region_op_loop ov no1 no2 sw0 reg0 e1 = (ok2, sw, reg2, e2)"
    by (rule prod_cases4)
  obtain ok3 reg3 e3 where tail: "(if sw_r1 sw \<noteq> [] then
        (case no1 of None \<Rightarrow> (True, reg2, e2) | Some h \<Rightarrow> region_op_tail h (sw_r1 sw) (sw_ybot sw) reg2 e2)
      else if sw_r2 sw \<noteq> [] then
        (case no2 of None \<Rightarrow> (True, reg2, e2) | Some h \<Rightarrow> region_op_tail h (sw_r2 sw) (sw_ybot sw) reg2 e2)
      else (True, reg2, e2)) = (ok3, reg3, e3)" by (rule prod_cases3)
  obtain p4 reg4 where co: "coalesce_if_added (sw_prev sw) (num_rects reg2) reg3 = (p4, reg4)" by (rule prod.exhaust)
  obtain oka e4 where al: "c_alloc e3 = (oka, e4)" by (rule prod.exhaust)
  have r: "(ok, reg', e') = (if \<not> ok1 then (False, dst, e1) else if \<not> ok2 then (False, reg2, e2)
      else if \<not> ok3 then (False, reg3, e3)
      else if num_rects reg4 < rgn_size reg4 div 2 \<and> rgn_size reg4 > 2
        then (True, if oka then reg4\<lparr>rgn_size := max (num_rects reg4) RGN_DEFAULT_RECTS\<rparr> else reg4, e4)
        else (True, reg4, e3))"
    unfolding res [symmetric] region_op_def Let_def ma top lt_min prod.case reg0_def [symmetric] sw0_def [symmetric] loop tail
    by (cases ok1; cases ok2; cases ok3; cases oka; simp only: co al prod.case bool.case and_then_simps snd_conv
        simp_thms if_True if_False)
  note start = start_sweep [OF b ne]
  have L: "frame reg0 e1 (ok2, reg2, e2)"
    and L2: "ok2 \<Longrightarrow> sweep_ok sw (rects reg2) \<and> goal sw (rects reg2) = {(x, y). covers (rects src1) (rects src2) x y} \<and>
       (sw_r1 sw = [] \<or> sw_r2 sw = [])"
    using loop_correct [OF _ loop] start by (auto simp: sw0_def reg0_def)
  have F: "frame reg0 e1 (ok3, reg3, e3)" and F2: "ok3 \<Longrightarrow> frame reg0 e1 (True, reg4, e3) \<and> banded (rects reg4) \<and>
       pts (rects reg4) = {(x, y). covers (rects src1) (rects src2) x y}" if ok2
    using finish_correct [OF _ _ tail co] L2 [OF that] L that by (auto intro: frame_trans)
  have S: "frame reg0 e1 (True, if oka then reg4\<lparr>rgn_size := max (num_rects reg4) RGN_DEFAULT_RECTS\<rparr> else reg4, e4)"
    if ok2 ok3
    using F2 [OF that] c_alloc_step [OF al] by (auto simp: frame_def fits_def dest: env_step_trans)
  have M: "frame dst e (ok1, dst, e1)"
    using mem_alloc_step [OF ma] mem_alloc_ok [OF _ ma] mem_alloc_fail [of e e1] ma by (auto simp: frame_def)
  show ?thesis
    using r M f0 [OF L] f0 [OF F] f0 [OF S] f0 [of True reg4 e3] F2
    by (auto simp: covers_def split: if_splits)
qed

end

end
