(* ===== verification/Region_Correct.thy ===== *)
theory Region_Correct
  imports Region_Sweep
begin

text \<open>
  The contract of server/region.c for the rest of the server. A well-formed region holds a
  banded list of rectangles with their exact bounding box; the operators compute intersection,
  difference, union and symmetric difference of the pixels, keep regions well-formed, and fail
  only when the allocator does. The queries and the conversion from and to request data agree
  with the pixels.
\<close>

subsection \<open>The operators meet the contract of the sweep\<close>

lemma emits_add_rects:
  "one_band t b out \<Longrightarrow> (\<And>x. in_row out x \<longleftrightarrow> cols x) \<Longrightarrow> emits cols t b reg e (add_rects out reg e)"
  using add_rects_result by (auto simp: emits_def)

interpretation inter: band_op intersect_overlapping None None "(\<and>)"
proof
  fix t1 b1 B1 t2 b2 B2 t b and reg :: region and e :: env
  assume "one_band t1 b1 B1" "one_band t2 b2 B2" "(t :: int) < b"
  then show "emits (\<lambda>x. in_row B1 x \<and> in_row B2 x) t b reg e (intersect_overlapping B1 B2 t b reg e)"
    unfolding intersect_overlapping_eq
    by (intro emits_add_rects) (auto simp: one_band_intersect_band in_row_intersect_band)
qed (auto simp: emits_def intro: exI [of _ "[]"])

interpretation subt: band_op subtract_overlapping "Some subtract_non_overlapping" None "\<lambda>p q. p \<and> \<not> q"
proof
  fix t1 b1 B1 t2 b2 B2 t b and reg :: region and e :: env
  assume B: "one_band t1 b1 B1" "one_band t2 b2 B2" and ne: "B1 \<noteq> []"
  have "starts_in (rleft (hd B1)) B1" and "clip_left (rleft (hd B1)) B1 = B1"
    using B(1) ne by (cases B1; simp)+
  then show "emits (\<lambda>x. in_row B1 x \<and> \<not> in_row B2 x) t b reg e (subtract_overlapping B1 B2 t b reg e)"
    unfolding subtract_overlapping_def subtract_loop_eq
    using one_band_subtract_band [OF B] in_row_subtract_band [OF B] by (intro emits_add_rects) auto
qed (auto simp: emits_def subtract_non_overlapping_eq intro: exI [of _ "[]"]
      intro!: emits_add_rects [unfolded emits_def] one_band_map simp: in_row_map)

interpretation uni: band_op union_overlapping "Some union_non_overlapping" "Some union_non_overlapping" "(\<or>)"
proof
  fix t1 b1 B1 t2 b2 B2 t b and reg :: region and e :: env
  assume B: "one_band t1 b1 B1" "one_band t2 b2 B2" "t < b" "all_above t (rects reg)"
  have m: "merging t b [] B1 B2" using B by (auto simp: merging_def)
  show "emits (\<lambda>x. in_row B1 x \<or> in_row B2 x) t b reg e (union_overlapping B1 B2 t b reg e)"
    using union_overlapping_result [OF m B(3,4), of reg e] union_band_correct [OF m] by (auto simp: emits_def)
qed (auto simp: union_non_overlapping_eq intro!: emits_add_rects one_band_map simp: in_row_map)

subsection \<open>Extents\<close>

text \<open>The smallest rectangle around a set of points: it contains them and each side touches one.\<close>

definition tight :: "(int \<times> int) set \<Rightarrow> rectangle \<Rightarrow> bool" where
  "tight P ext \<longleftrightarrow> P \<subseteq> rect_pts ext \<and> (\<exists>y. (rleft ext, y) \<in> P) \<and> (\<exists>x. (x, rtop ext) \<in> P) \<and>
     (\<exists>y. (rright ext - 1, y) \<in> P) \<and> (\<exists>x. (x, rbottom ext - 1) \<in> P)"

definition wf_region :: "region \<Rightarrow> bool" where
  "wf_region reg \<longleftrightarrow> fits reg \<and> banded (rects reg) \<and>
     (if rects reg = [] then extents reg = empty_rect else tight (pts (rects reg)) (extents reg))"

abbreviation region_pts :: "region \<Rightarrow> (int \<times> int) set" where
  "region_pts reg \<equiv> pts (rects reg)"

lemma corner_pts:
  "\<not> is_rect_empty r \<Longrightarrow> (rleft r, rtop r) \<in> rect_pts r \<and> (rright r - 1, rbottom r - 1) \<in> rect_pts r"
  by (auto simp: rect_pts_def point_in_rect_def is_rect_empty_def)

lemma rect_pts_mem: "(x, y) \<in> rect_pts r \<longleftrightarrow> rleft r \<le> x \<and> x < rright r \<and> rtop r \<le> y \<and> y < rbottom r"
  by (auto simp: rect_pts_def point_in_rect_def)

lemma foldl_min:
  "foldl (\<lambda>l r. if rleft r < l then rleft r else l) a rs \<in> insert a (rleft ` set rs) \<and>
   foldl (\<lambda>l r. if rleft r < l then rleft r else l) a rs \<le> a \<and>
   (\<forall>r \<in> set rs. foldl (\<lambda>l r. if rleft r < l then rleft r else l) a rs \<le> rleft r)"
proof (induction rs arbitrary: a)
  case (Cons r rs)
  show ?case using Cons.IH [of "if rleft r < a then rleft r else a"] by (auto split: if_splits)
qed simp

lemma foldl_max:
  "foldl (\<lambda>b r. if rright r > b then rright r else b) a rs \<in> insert a (rright ` set rs) \<and>
   a \<le> foldl (\<lambda>b r. if rright r > b then rright r else b) a rs \<and>
   (\<forall>r \<in> set rs. rright r \<le> foldl (\<lambda>b r. if rright r > b then rright r else b) a rs)"
proof (induction rs arbitrary: a)
  case (Cons r rs)
  show ?case using Cons.IH [of "if rright r > a then rright r else a"] by (auto split: if_splits)
qed simp

lemma banded_last_bottom: "banded rs \<Longrightarrow> r \<in> set rs \<Longrightarrow> rbottom r \<le> rbottom (last rs)"
proof (induction rs arbitrary: r)
  case (Cons a rs)
  show ?case
  proof (cases "rs = []")
    case False
    have "rect_before a (last rs)" "\<not> is_rect_empty (last rs)"
      using Cons.prems(1) last_in_set [OF False] by (auto simp: banded_def)
    then have "rbottom a \<le> rbottom (last rs)" by (auto simp: rect_before_def is_rect_empty_def)
    then show ?thesis using Cons False by auto
  qed (use Cons.prems in simp)
qed simp

lemma set_region_extents_tight:
  assumes b: "banded (rects reg)" and ne: "rects reg \<noteq> []"
  shows "tight (region_pts reg) (extents (set_region_extents reg))"
proof -
  let ?l = "foldl (\<lambda>l r. if rleft r < l then rleft r else l) (rleft (hd (rects reg))) (rects reg)"
  let ?r = "foldl (\<lambda>b r. if rright r > b then rright r else b) (rright (last (rects reg))) (rects reg)"
  have ext: "extents (set_region_extents reg) = mk_rect ?l (rtop (hd (rects reg))) ?r (rbottom (last (rects reg)))"
    using ne by (simp add: set_region_extents_def Let_def)
  have l: "?l \<in> rleft ` set (rects reg)" and r: "?r \<in> rright ` set (rects reg)"
    using foldl_min [of "rleft (hd (rects reg))" "rects reg"] foldl_max [of "rright (last (rects reg))" "rects reg"]
      ne by (auto simp del: insert_iff simp: insert_absorb)
  have c: "(rleft q, rtop q) \<in> region_pts reg \<and> (rright q - 1, rbottom q - 1) \<in> region_pts reg" if "q \<in> set (rects reg)" for q
    using corner_pts [of q] that b by (auto simp: pts_def banded_def)
  have "rect_pts q \<subseteq> rect_pts (extents (set_region_extents reg))" if "q \<in> set (rects reg)" for q
    using that banded_hd_top [OF b that] banded_last_bottom [OF b that]
      foldl_min [of "rleft (hd (rects reg))" "rects reg"] foldl_max [of "rright (last (rects reg))" "rects reg"]
    unfolding ext by (fastforce simp: rect_pts_mem)
  then have "region_pts reg \<subseteq> rect_pts (extents (set_region_extents reg))" by (auto simp: pts_def)
  moreover have "(\<exists>y. (?l, y) \<in> region_pts reg)" "(\<exists>y. (?r - 1, y) \<in> region_pts reg)" using l r c by force+
  ultimately show ?thesis using c [OF hd_in_set [OF ne]] c [OF last_in_set [OF ne]]
    unfolding tight_def ext by auto
qed

lemma wf_set_region_extents:
  "fits reg \<Longrightarrow> banded (rects reg) \<Longrightarrow>
   wf_region (set_region_extents reg) \<and> rects (set_region_extents reg) = rects reg"
  using set_region_extents_tight [of reg]
  by (auto simp: wf_region_def fits_def set_region_extents_def Let_def)

lemma tight_top:
  assumes "banded rs" and "rs \<noteq> []" and "tight (pts rs) ext"
  shows "rtop ext = rtop (hd rs)"
proof -
  obtain x r where r: "r \<in> set rs" "(x, rtop ext) \<in> rect_pts r" using assms(3) by (auto simp: tight_def pts_def)
  have "rtop (hd rs) \<le> rtop ext" using banded_hd_top [OF assms(1) r(1)] r(2) by (simp add: rect_pts_mem)
  moreover have "(rleft (hd rs), rtop (hd rs)) \<in> pts rs"
    using corner_pts [of "hd rs"] assms(1,2) by (cases rs) auto
  then have "(rleft (hd rs), rtop (hd rs)) \<in> rect_pts ext" using assms(3) by (auto simp: tight_def)
  ultimately show ?thesis by (simp add: rect_pts_mem)
qed

lemma tight_union:
  assumes "tight P r" and "tight Q s"
  shows "tight (P \<union> Q) (mk_rect (min (rleft r) (rleft s)) (min (rtop r) (rtop s))
     (max (rright r) (rright s)) (max (rbottom r) (rbottom s)))"
proof -
  let ?u = "mk_rect (min (rleft r) (rleft s)) (min (rtop r) (rtop s))
     (max (rright r) (rright s)) (max (rbottom r) (rbottom s))"
  have "rect_pts r \<subseteq> rect_pts ?u" "rect_pts s \<subseteq> rect_pts ?u" by (auto simp: rect_pts_mem)
  then have "P \<union> Q \<subseteq> rect_pts ?u" using assms by (auto simp: tight_def)
  moreover have "(\<exists>y. (min (rleft r) (rleft s), y) \<in> P \<union> Q) \<and> (\<exists>x. (x, min (rtop r) (rtop s)) \<in> P \<union> Q)"
    using assms by (auto simp: tight_def min_def)
  moreover have "(\<exists>y. (max (rright r) (rright s) - 1, y) \<in> P \<union> Q) \<and> (\<exists>x. (x, max (rbottom r) (rbottom s) - 1) \<in> P \<union> Q)"
    using assms by (auto simp: tight_def max_def)
  ultimately show ?thesis by (simp add: tight_def)
qed

lemma tight_outside: "\<not> EXTENTCHECK r s \<Longrightarrow> rect_pts r \<inter> rect_pts s = {}"
  by (auto simp: EXTENTCHECK_def rect_pts_mem)

lemma wf_extents: "wf_region reg \<Longrightarrow> region_pts reg \<subseteq> rect_pts (extents reg)"
  by (auto simp: wf_region_def tight_def split: if_splits)

lemma wf_single:
  assumes "wf_region reg" and "num_rects reg = 1"
  shows "region_pts reg = rect_pts (extents reg)"
proof -
  obtain r where r: "rects reg = [r]" using assms(2) by (auto simp: length_Suc_conv)
  then have t: "tight (rect_pts r) (extents reg)" and ne: "\<not> is_rect_empty r"
    using assms(1) by (auto simp: wf_region_def)
  then have "rect_pts (extents reg) \<subseteq> rect_pts r" by (auto simp: tight_def rect_pts_mem)
  then show ?thesis using t r by (auto simp: tight_def)
qed

lemma rect_contains_pts: "rect_contains r s \<Longrightarrow> rect_pts s \<subseteq> rect_pts r"
  by (auto simp: rect_contains_def rect_pts_mem)

subsection \<open>The operators\<close>

text \<open>
  \<open>computes P dst e res\<close>: on success the region is well-formed and covers exactly \<open>P\<close>; the
  operation succeeds whenever the allocator does, and a failure is \<open>STATUS_NO_MEMORY\<close>.
\<close>

definition computes :: "(int \<times> int) set \<Rightarrow> region \<Rightarrow> env \<Rightarrow> region fallible \<Rightarrow> bool" where
  "computes P dst e res \<longleftrightarrow>
     (case res of (ok, dst', e') \<Rightarrow>
        (ok \<longrightarrow> wf_region dst' \<and> region_pts dst' = P) \<and> (fits dst \<longrightarrow> fits dst') \<and>
        env_step e e' \<and> (mem_ok e \<longrightarrow> ok) \<and> (\<not> ok \<longrightarrow> cur_error e' = STATUS_NO_MEMORY))"

lemma computes_and_then:
  assumes "computes P dst e m" and "\<And>dst' e'. wf_region dst' \<Longrightarrow> region_pts dst' = P \<Longrightarrow> computes Q dst' e' (k dst' e')"
  shows "computes Q dst e (and_then m k)"
proof (cases m)
  case (fields ok dst' e')
  then show ?thesis
    using assms(1) assms(2) [of dst' e']
    by (cases ok) (auto simp: computes_def split: prod.splits dest: env_step_trans mem_ok_step)
qed

lemma op_with_extents:
  assumes "frame dst e (ok, reg', e') \<and> (ok \<longrightarrow> fits reg' \<and> banded (rects reg') \<and> region_pts reg' = P)"
  shows "computes P dst e (and_then (ok, reg', e') (\<lambda>dst e. (True, set_region_extents dst, e)))"
  using assms wf_set_region_extents [of reg']
  by (cases ok) (auto simp: computes_def frame_def wf_region_def)

lemma computes_copy_region: "wf_region src \<Longrightarrow> fits dst \<Longrightarrow> computes (region_pts src) dst e (copy_region dst src e)"
  by (auto simp: copy_region_def computes_def wf_region_def fits_def split: prod.splits bool.splits
      dest: c_alloc_step c_alloc_ok)

lemma computes_intersect:
  assumes w: "wf_region src1" "wf_region src2" and dst: "fits dst"
  shows "computes (region_pts src1 \<inter> region_pts src2) dst e (intersect_region dst src1 src2 e)"
proof (cases "rects src1 = [] \<or> rects src2 = [] \<or> \<not> EXTENTCHECK (extents src1) (extents src2)")
  case True
  then have "region_pts src1 \<inter> region_pts src2 = {}"
    using tight_outside wf_extents [OF w(1)] wf_extents [OF w(2)] by fastforce
  then show ?thesis using True dst by (simp add: intersect_region_def computes_def wf_region_def fits_def)
next
  case False
  obtain ok reg' e' where res: "region_op intersect_overlapping None None dst src1 src2 e = (ok, reg', e')"
    by (rule prod_cases3)
  have "{(x, y). (x, y) \<in> region_pts src1 \<and> (x, y) \<in> region_pts src2} = region_pts src1 \<inter> region_pts src2" by auto
  then show ?thesis
    using inter.region_op_correct [OF _ _ _ _ _ _ res] w False tight_top res
    by (simp add: intersect_region_def op_with_extents wf_region_def)
qed

lemma computes_subtract:
  assumes w: "wf_region src1" "wf_region src2" and dst: "fits dst"
  shows "computes (region_pts src1 - region_pts src2) dst e (subtract_region dst src1 src2 e)"
proof (cases "rects src1 = [] \<or> rects src2 = [] \<or> \<not> EXTENTCHECK (extents src1) (extents src2)")
  case True
  then have "region_pts src1 - region_pts src2 = region_pts src1"
    using tight_outside wf_extents [OF w(1)] wf_extents [OF w(2)] by fastforce
  then show ?thesis using True computes_copy_region [OF w(1) dst] by (simp add: subtract_region_def)
next
  case False
  obtain ok reg' e' where res: "region_op subtract_overlapping (Some subtract_non_overlapping) None dst src1 src2 e =
      (ok, reg', e')" by (rule prod_cases3)
  have "{(x, y). (x, y) \<in> region_pts src1 \<and> (x, y) \<notin> region_pts src2} = region_pts src1 - region_pts src2" by auto
  then show ?thesis
    using subt.region_op_correct [OF _ _ _ _ _ _ res] w False tight_top res
    by (simp add: subtract_region_def op_with_extents wf_region_def)
qed

lemma union_extents:
  assumes w: "wf_region src1" "wf_region src2" and ne: "rects src1 \<noteq> []" "rects src2 \<noteq> []"
    and op: "frame dst e (ok, reg', e') \<and> (ok \<longrightarrow> fits reg' \<and> banded (rects reg') \<and>
       region_pts reg' = region_pts src1 \<union> region_pts src2)"
  shows "computes (region_pts src1 \<union> region_pts src2) dst e
     (and_then (ok, reg', e') (\<lambda>dst e. (True, dst\<lparr>extents :=
        mk_rect (min (rleft (extents src1)) (rleft (extents src2)))
                (min (rtop (extents src1)) (rtop (extents src2)))
                (max (rright (extents src1)) (rright (extents src2)))
                (max (rbottom (extents src1)) (rbottom (extents src2)))\<rparr>, e)))"
proof (cases ok)
  case True
  have t: "tight (region_pts src1) (extents src1)" "tight (region_pts src2) (extents src2)"
    using w ne by (auto simp: wf_region_def)
  then have "region_pts src1 \<noteq> {}" by (auto simp: tight_def)
  then have "rects reg' \<noteq> []" using op True by auto
  then show ?thesis using op True tight_union [OF t] by (auto simp: computes_def frame_def wf_region_def fits_def)
next
  case False
  then show ?thesis using op by (auto simp: computes_def frame_def)
qed

lemma computes_union:
  assumes w: "wf_region src1" "wf_region src2" and dst: "fits dst" and same: "same \<longrightarrow> src1 = src2"
  shows "computes (region_pts src1 \<union> region_pts src2) dst e (union_region same dst src1 src2 e)"
proof -
  note copy1 = computes_copy_region [OF w(1) dst, of e] and copy2 = computes_copy_region [OF w(2) dst, of e]
  consider (same) same | (e1) "\<not> same" "rects src1 = []" | (e2) "\<not> same" "rects src1 \<noteq> []" "rects src2 = []"
    | (in1) "\<not> same" "rects src1 \<noteq> []" "rects src2 \<noteq> []" "num_rects src1 = 1" "rect_contains (extents src1) (extents src2)"
    | (in2) "\<not> same" "rects src1 \<noteq> []" "rects src2 \<noteq> []" "\<not> (num_rects src1 = 1 \<and> rect_contains (extents src1) (extents src2))"
        "num_rects src2 = 1" "rect_contains (extents src2) (extents src1)"
    | (op) "\<not> same" "rects src1 \<noteq> []" "rects src2 \<noteq> []" "\<not> (num_rects src1 = 1 \<and> rect_contains (extents src1) (extents src2))"
        "\<not> (num_rects src2 = 1 \<and> rect_contains (extents src2) (extents src1))" by blast
  then show ?thesis
  proof cases
    case in1
    have "region_pts src1 \<union> region_pts src2 = region_pts src1"
      using wf_single [OF w(1) in1(4)] wf_extents [OF w(2)] rect_contains_pts [OF in1(5)] by auto
    then show ?thesis using in1 copy1 by (simp add: union_region_def)
  next
    case in2
    have "region_pts src1 \<union> region_pts src2 = region_pts src2"
      using wf_single [OF w(2) in2(5)] wf_extents [OF w(1)] rect_contains_pts [OF in2(6)] by auto
    then show ?thesis using in2 copy2 by (auto simp: union_region_def)
  next
    case op
    obtain ok reg' e' where res: "region_op union_overlapping (Some union_non_overlapping)
        (Some union_non_overlapping) dst src1 src2 e = (ok, reg', e')" by (rule prod_cases3)
    have "{(x, y). (x, y) \<in> region_pts src1 \<or> (x, y) \<in> region_pts src2} = region_pts src1 \<union> region_pts src2" by auto
    then have "frame dst e (ok, reg', e') \<and> (ok \<longrightarrow> fits reg' \<and> banded (rects reg') \<and>
        region_pts reg' = region_pts src1 \<union> region_pts src2)"
      using uni.region_op_correct [OF _ _ _ _ _ _ res] w op tight_top by (simp add: wf_region_def)
    from union_extents [OF w op(2,3) this] show ?thesis using op res by (auto simp: union_region_def)
  qed (use same copy1 copy2 in \<open>auto simp: union_region_def\<close>)
qed

lemma create_empty_region_result:
  assumes "create_empty_region e = (res, e')"
  shows "env_step e e' \<and> (mem_ok e \<longrightarrow> res \<noteq> None) \<and> (res = None \<longrightarrow> cur_error e' = STATUS_NO_MEMORY) \<and>
     (\<forall>reg. res = Some reg \<longrightarrow> wf_region reg \<and> region_pts reg = {})"
proof -
  obtain ok1 e1 where a1: "mem_alloc e = (ok1, e1)" by (rule prod.exhaust)
  obtain ok2 e2 where a2: "mem_alloc e1 = (ok2, e2)" by (rule prod.exhaust)
  have st: "env_step e e1" "env_step e1 e2" using a1 a2 by (auto dest: mem_alloc_step)
  have ok: "mem_ok e \<Longrightarrow> ok1 \<and> ok2" using mem_alloc_ok a1 a2 mem_ok_step [OF _ st(1)] by blast
  show ?thesis
    using assms a1 a2 ok st env_step_trans [OF st] mem_alloc_fail [of e e1] mem_alloc_fail [of e1 e2]
    by (cases ok1; cases ok2) (auto simp: create_empty_region_def wf_region_def fits_def)
qed

lemma computes_xor:
  assumes w: "wf_region src1" "wf_region src2" and dst: "fits dst"
  shows "computes ((region_pts src1 - region_pts src2) \<union> (region_pts src2 - region_pts src1)) dst e
     (xor_region dst src1 src2 e)"
proof -
  obtain c e1 where c: "create_empty_region e = (c, e1)" by (rule prod.exhaust)
  note cr = create_empty_region_result [OF c]
  show ?thesis
  proof (cases c)
    case None
    then show ?thesis using cr c by (auto simp: xor_region_def computes_def)
  next
    case (Some tmp0)
    obtain ok tmp e2 where s: "subtract_region tmp0 src1 src2 e1 = (ok, tmp, e2)" by (rule prod_cases3)
    have sub: "computes (region_pts src1 - region_pts src2) tmp0 e1 (ok, tmp, e2)"
      using computes_subtract [OF w, of tmp0 e1] s cr Some by (auto simp: wf_region_def)
    have "computes ((region_pts src1 - region_pts src2) \<union> (region_pts src2 - region_pts src1)) dst e2
        (and_then (subtract_region dst src2 src1 e2) (\<lambda>dst e3. union_region False dst dst tmp e3))" if ok
    proof (rule computes_and_then [OF computes_subtract [OF w(2,1) dst]])
      fix dst' e' assume d: "wf_region dst'" "region_pts dst' = region_pts src2 - region_pts src1"
      have t: "wf_region tmp" "region_pts tmp = region_pts src1 - region_pts src2"
        using sub that by (auto simp: computes_def)
      have "fits dst'" using d(1) by (simp add: wf_region_def)
      then show "computes ((region_pts src1 - region_pts src2) \<union> (region_pts src2 - region_pts src1)) dst' e'
          (union_region False dst' dst' tmp e')"
        using computes_union [OF d(1) t(1), of dst' False e'] unfolding d(2) t(2) by (simp add: Un_commute)
    qed
    then show ?thesis using sub cr c s Some
      by (cases ok) (auto simp: xor_region_def computes_def split: prod.splits dest: env_step_trans mem_ok_step)
  qed
qed

subsection \<open>Queries, request data and translation\<close>

lemma point_in_rects_iff: "banded rs \<Longrightarrow> point_in_rects rs x y \<longleftrightarrow> (x, y) \<in> pts rs"
proof (induction rs)
  case (Cons r rs)
  have below: "(x, y) \<notin> pts rs" if "y < rtop r"
    using Cons.prems that by (force simp: mem_pts point_in_rect_def rect_before_def is_rect_empty_def)
  have right: "(x, y) \<notin> pts rs" if "y < rbottom r" "x < rleft r"
    using Cons.prems that by (force simp: mem_pts point_in_rect_def rect_before_def is_rect_empty_def)
  show ?case using Cons below right by (auto simp: rect_pts_mem)
qed simp

lemma rect_in_rects_iff:
  "banded rs \<Longrightarrow> \<not> is_rect_empty rect \<Longrightarrow> rect_in_rects rs rect \<longleftrightarrow> pts rs \<inter> rect_pts rect \<noteq> {}"
proof (induction rs)
  case (Cons r rs)
  have meet: "rect_pts r \<inter> rect_pts rect \<noteq> {} \<longleftrightarrow>
      rtop r < rbottom rect \<and> rtop rect < rbottom r \<and> rleft r < rright rect \<and> rleft rect < rright r"
    using intersect_rect_pts [of r rect] Cons.prems by (auto simp: intersect_rect_def is_rect_empty_def Let_def)
  have below: "pts rs \<inter> rect_pts rect = {}" if "rbottom rect \<le> rtop r"
    using Cons.prems that by (force simp: mem_pts point_in_rect_def rect_pts_mem rect_before_def is_rect_empty_def)
  show ?case using Cons below meet by (auto simp: Int_Un_distrib2)
qed simp

lemma tight_unique:
  assumes "tight P r" and "tight P s"
  shows "r = s"
proof -
  have "rleft s \<le> rleft r \<and> rtop s \<le> rtop r \<and> rright r \<le> rright s \<and> rbottom r \<le> rbottom s"
    if "tight P r" "tight P s" for r s
  proof -
    obtain y1 x1 y2 x2 where "(rleft r, y1) \<in> P" "(x1, rtop r) \<in> P" "(rright r - 1, y2) \<in> P" "(x2, rbottom r - 1) \<in> P"
      using \<open>tight P r\<close> by (auto simp: tight_def)
    then have "(rleft r, y1) \<in> rect_pts s" "(x1, rtop r) \<in> rect_pts s" "(rright r - 1, y2) \<in> rect_pts s"
        "(x2, rbottom r - 1) \<in> rect_pts s" using \<open>tight P s\<close> by (auto simp: tight_def)
    then show ?thesis by (simp add: rect_pts_mem)
  qed
  from this [of r s] this [of s r] show ?thesis using assms by (intro rectangle.equality) auto
qed

lemma create_region_result:
  assumes "create_region_from_req_data rs e = (res, e')"
  defines "rs' \<equiv> if rs = [empty_rect] then [] else rs"
  shows "(banded rs' \<longrightarrow> mem_ok e \<longrightarrow> res \<noteq> None) \<and> (\<not> banded rs' \<longrightarrow> res = None \<and> cur_error e' = STATUS_INVALID_PARAMETER) \<and>
     (\<forall>reg. res = Some reg \<longrightarrow> wf_region reg \<and> rects reg = rs')"
proof -
  let ?reg = "\<lparr>rgn_size = max (length rs') RGN_DEFAULT_RECTS, rects = rs', extents = empty_rect\<rparr>"
  obtain ok1 e1 where a1: "mem_alloc e = (ok1, e1)" by (rule prod.exhaust)
  obtain ok2 e2 where a2: "mem_alloc e1 = (ok2, e2)" by (rule prod.exhaust)
  have ok: "mem_ok e \<Longrightarrow> ok1 \<and> ok2" using mem_alloc_ok a1 a2 mem_ok_step mem_alloc_step by blast
  have "fits ?reg" by (simp add: fits_def)
  then have "banded rs' \<Longrightarrow> wf_region (set_region_extents ?reg) \<and> rects (set_region_extents ?reg) = rs'"
    using wf_set_region_extents [of ?reg] by simp
  then show ?thesis using assms(1) a1 a2 ok
    unfolding create_region_from_req_data_def rs'_def [symmetric] Let_def validate_rectangles_iff
    by (cases ok1; cases ok2; cases "banded rs'") auto
qed

lemma wf_region_data:
  assumes "wf_region reg" and "wf_region reg'" and "rects reg' = rects reg"
  shows "extents reg' = extents reg"
  using assms tight_unique by (auto simp: wf_region_def split: if_splits)

lemma offset_rect_id:
  "int_range (rleft r + dx) \<Longrightarrow> int_range (rtop r + dy) \<Longrightarrow> int_range (rright r + dx) \<Longrightarrow> int_range (rbottom r + dy) \<Longrightarrow>
   offset_rect dx dy r = mk_rect (rleft r + dx) (rtop r + dy) (rright r + dx) (rbottom r + dy)"
  by (simp add: offset_rect_def c_int_id)

end
