(* ===== verification/Region_Properties.thy ===== *)
theory Region_Properties
  imports Region_Correct
begin

text \<open>
  The properties of server/region.c and of the rectangle helpers of server/user.h, each with a
  concrete instance of its hypotheses.
\<close>

text \<open>A region that is one rectangle, for the concrete instances.\<close>

abbreviation box :: "int \<Rightarrow> int \<Rightarrow> int \<Rightarrow> int \<Rightarrow> region" where
  "box l t r b \<equiv> \<lparr>rgn_size = 2, rects = [mk_rect l t r b], extents = mk_rect l t r b\<rparr>"

lemma wf_box: "l < r \<Longrightarrow> t < b \<Longrightarrow> wf_region (box l t r b)"
  by (auto simp: wf_region_def fits_def tight_def rect_pts_mem is_rect_empty_def)

lemma fits_box: "fits (box l t r b)"
  by (simp add: fits_def)

lemma offset_region_wf:
  assumes w: "wf_region reg" and ne: "rects reg \<noteq> []"
    and rng: "int_range (rleft (extents reg) + dx)" "int_range (rright (extents reg) + dx)"
      "int_range (rtop (extents reg) + dy)" "int_range (rbottom (extents reg) + dy)"
  shows "wf_region (offset_region dx dy reg) \<and>
     region_pts (offset_region dx dy reg) = (\<lambda>(x, y). (x + dx, y + dy)) ` region_pts reg"
proof -
  let ?o = "\<lambda>r. mk_rect (rleft r + dx) (rtop r + dy) (rright r + dx) (rbottom r + dy)"
  have t: "tight (region_pts reg) (extents reg)" and b: "banded (rects reg)" using w ne by (auto simp: wf_region_def)
  have in_ext: "rleft (extents reg) \<le> rleft r \<and> rright r \<le> rright (extents reg) \<and>
      rtop (extents reg) \<le> rtop r \<and> rbottom r \<le> rbottom (extents reg) \<and> \<not> is_rect_empty r" if "r \<in> set (rects reg)" for r
  proof -
    have "\<not> is_rect_empty r" using b that by (auto simp: banded_def)
    moreover have "rect_pts r \<subseteq> rect_pts (extents reg)" using t that by (auto simp: tight_def pts_def)
    ultimately show ?thesis using rect_pts_subset by blast
  qed
  have off: "map (offset_rect dx dy) (rects reg) = map ?o (rects reg)"
    using in_ext rng by (fastforce simp: int_range_def is_rect_empty_def intro!: offset_rect_id)
  have ext: "offset_rect dx dy (extents reg) = ?o (extents reg)" using rng by (intro offset_rect_id) auto
  have shift: "rect_pts (?o r) = (\<lambda>(x, y). (x + dx, y + dy)) ` rect_pts r" for r
  proof (rule set_eqI, clarify)
    fix x y
    show "(x, y) \<in> rect_pts (?o r) \<longleftrightarrow> (x, y) \<in> (\<lambda>(x, y). (x + dx, y + dy)) ` rect_pts r"
      by (auto simp: rect_pts_mem image_iff intro!: bexI [of _ "(x - dx, y - dy)"])
  qed
  have p: "pts (map ?o (rects reg)) = (\<lambda>(x, y). (x + dx, y + dy)) ` region_pts reg"
    by (simp add: pts_def shift image_UN)
  have "banded (map ?o (rects reg))"
    using b by (auto simp: banded_def is_rect_empty_def rect_before_def sorted_wrt_map elim!: sorted_wrt_mono_rel [rotated])
  moreover have "tight ((\<lambda>(x, y). (x + dx, y + dy)) ` region_pts reg) (?o (extents reg))"
    using t unfolding tight_def shift
    by (auto simp: image_iff split_beta intro: image_mono) (force simp: algebra_simps)+
  ultimately show ?thesis using w ne p by (simp add: offset_region_def off ext wf_region_def fits_def)
qed

text \<open>C4. If both sources are well-formed, \<open>intersect_region\<close> leaves a well-formed region
  that covers exactly the pixels the two sources have in common. It succeeds whenever the
  allocator does, and a failure is reported as \<open>STATUS_NO_MEMORY\<close>.\<close>

theorem intersect_region_correct:
  assumes "wf_region src1" and "wf_region src2" and "fits dst"
    and "intersect_region dst src1 src2 e = (ok, dst', e')"
  shows "(ok \<longrightarrow> wf_region dst' \<and> region_pts dst' = region_pts src1 \<inter> region_pts src2) \<and>
     (mem_ok e \<longrightarrow> ok) \<and> (\<not> ok \<longrightarrow> cur_error e' = STATUS_NO_MEMORY)"
  using computes_intersect [of src1 src2 dst e] assms
  by (auto simp: computes_def)

theorem intersect_region_witness:
  "\<exists>dst' e'. intersect_region (box 0 0 1 1) (box 0 0 10 10) (box 5 5 20 20) fresh_env = (True, dst', e') \<and>
     wf_region dst' \<and> region_pts dst' = rect_pts (mk_rect 0 0 10 10) \<inter> rect_pts (mk_rect 5 5 20 20)"
proof -
  obtain ok dst' e' where r: "intersect_region (box 0 0 1 1) (box 0 0 10 10) (box 5 5 20 20) fresh_env = (ok, dst', e')"
    by (rule prod_cases3)
  show ?thesis using intersect_region_correct [OF wf_box wf_box fits_box r] r by simp
qed

text \<open>C5. If both sources are well-formed, \<open>subtract_region\<close> leaves a well-formed region
  that covers exactly the pixels of the first source that are not in the second. It succeeds whenever the
  allocator does, and a failure is reported as \<open>STATUS_NO_MEMORY\<close>.\<close>

theorem subtract_region_correct:
  assumes "wf_region src1" and "wf_region src2" and "fits dst"
    and "subtract_region dst src1 src2 e = (ok, dst', e')"
  shows "(ok \<longrightarrow> wf_region dst' \<and> region_pts dst' = region_pts src1 - region_pts src2) \<and>
     (mem_ok e \<longrightarrow> ok) \<and> (\<not> ok \<longrightarrow> cur_error e' = STATUS_NO_MEMORY)"
  using computes_subtract [of src1 src2 dst e] assms
  by (auto simp: computes_def)

theorem subtract_region_witness:
  "\<exists>dst' e'. subtract_region (box 0 0 1 1) (box 0 0 10 10) (box 5 5 20 20) fresh_env = (True, dst', e') \<and>
     wf_region dst' \<and> region_pts dst' = rect_pts (mk_rect 0 0 10 10) - rect_pts (mk_rect 5 5 20 20)"
proof -
  obtain ok dst' e' where r: "subtract_region (box 0 0 1 1) (box 0 0 10 10) (box 5 5 20 20) fresh_env = (ok, dst', e')"
    by (rule prod_cases3)
  show ?thesis using subtract_region_correct [OF wf_box wf_box fits_box r] r by simp
qed

text \<open>C6. If both sources are well-formed, \<open>union_region\<close> leaves a well-formed region
  that covers exactly the pixels of the two sources, with the extents it derives from theirs. It succeeds whenever the
  allocator does, and a failure is reported as \<open>STATUS_NO_MEMORY\<close>.\<close>

theorem union_region_correct:
  assumes "wf_region src1" and "wf_region src2" and "fits dst"
    and "union_region False dst src1 src2 e = (ok, dst', e')"
  shows "(ok \<longrightarrow> wf_region dst' \<and> region_pts dst' = region_pts src1 \<union> region_pts src2) \<and>
     (mem_ok e \<longrightarrow> ok) \<and> (\<not> ok \<longrightarrow> cur_error e' = STATUS_NO_MEMORY)"
  using computes_union [of src1 src2 dst False e] assms
  by (auto simp: computes_def)

theorem union_region_witness:
  "\<exists>dst' e'. union_region False (box 0 0 1 1) (box 0 0 10 10) (box 5 5 20 20) fresh_env = (True, dst', e') \<and>
     wf_region dst' \<and> region_pts dst' = rect_pts (mk_rect 0 0 10 10) \<union> rect_pts (mk_rect 5 5 20 20)"
proof -
  obtain ok dst' e' where r: "union_region False (box 0 0 1 1) (box 0 0 10 10) (box 5 5 20 20) fresh_env = (ok, dst', e')"
    by (rule prod_cases3)
  show ?thesis using union_region_correct [OF wf_box wf_box fits_box r] r by simp
qed

text \<open>C7. If both sources are well-formed, \<open>xor_region\<close> leaves a well-formed region
  that covers exactly the pixels that are in exactly one source. It succeeds whenever the
  allocator does, and a failure is reported as \<open>STATUS_NO_MEMORY\<close>.\<close>

theorem xor_region_correct:
  assumes "wf_region src1" and "wf_region src2" and "fits dst"
    and "xor_region dst src1 src2 e = (ok, dst', e')"
  shows "(ok \<longrightarrow> wf_region dst' \<and> region_pts dst' = (region_pts src1 - region_pts src2) \<union> (region_pts src2 - region_pts src1)) \<and>
     (mem_ok e \<longrightarrow> ok) \<and> (\<not> ok \<longrightarrow> cur_error e' = STATUS_NO_MEMORY)"
  using computes_xor [of src1 src2 dst e] assms
  by (auto simp: computes_def)

theorem xor_region_witness:
  "\<exists>dst' e'. xor_region (box 0 0 1 1) (box 0 0 10 10) (box 5 5 20 20) fresh_env = (True, dst', e') \<and>
     wf_region dst' \<and> region_pts dst' = (rect_pts (mk_rect 0 0 10 10) - rect_pts (mk_rect 5 5 20 20)) \<union> (rect_pts (mk_rect 5 5 20 20) - rect_pts (mk_rect 0 0 10 10))"
proof -
  obtain ok dst' e' where r: "xor_region (box 0 0 1 1) (box 0 0 10 10) (box 5 5 20 20) fresh_env = (ok, dst', e')"
    by (rule prod_cases3)
  show ?thesis using xor_region_correct [OF wf_box wf_box fits_box r] r by simp
qed

text \<open>C8. \<open>point_in_region\<close> answers whether the pixel is covered: its early exits are sound on a
  well-formed region.\<close>

theorem point_in_region_iff:
  "wf_region reg \<Longrightarrow> point_in_region reg x y \<longleftrightarrow> (x, y) \<in> region_pts reg"
  by (simp add: point_in_region_def point_in_rects_iff wf_region_def)

theorem point_in_region_witness:
  "point_in_region (box 0 0 10 10) 3 4 \<and> \<not> point_in_region (box 0 0 10 10) 10 4"
  using point_in_region_iff [of "box 0 0 10 10" 3 4] point_in_region_iff [of "box 0 0 10 10" 10 4]
  by (simp add: wf_box rect_pts_mem)



text \<open>C10. Region data from a request is accepted exactly when it is a banded list of non-empty
  rectangles (or the single empty rectangle that stands for the empty region); otherwise the
  request fails with \<open>STATUS_INVALID_PARAMETER\<close>. An accepted region is well-formed.\<close>

theorem create_region_from_req_data_valid:
  assumes "create_region_from_req_data rs e = (res, e')" and "mem_ok e"
  shows "(res \<noteq> None \<longleftrightarrow> rs = [empty_rect] \<or> banded rs) \<and>
     (res = None \<longrightarrow> cur_error e' = STATUS_INVALID_PARAMETER) \<and>
     (\<forall>reg. res = Some reg \<longrightarrow> wf_region reg \<and> region_pts reg = pts rs)"
proof -
  have "pts [empty_rect] = {}" by (auto simp: rect_pts_mem empty_rect_def)
  then show ?thesis using create_region_result [OF assms(1)] assms(2) by (auto split: if_splits)
qed

theorem create_region_from_req_data_witness:
  "fst (create_region_from_req_data [mk_rect 0 0 10 10, mk_rect 5 0 20 10] fresh_env) = None"
proof -
  obtain res e' where r: "create_region_from_req_data [mk_rect 0 0 10 10, mk_rect 5 0 20 10] fresh_env = (res, e')"
    by (rule prod.exhaust)
  show ?thesis using create_region_from_req_data_valid [OF r] r
    by (simp add: rect_before_def empty_rect_def)
qed



text \<open>C12. \<open>offset_region\<close> translates the pixels and keeps the region well-formed, as long as the
  translated extents stay within the range of a C \<open>int\<close>.\<close>

theorem offset_region_correct:
  assumes "wf_region reg"
    and "int_range (rleft (extents reg) + dx)" and "int_range (rright (extents reg) + dx)"
    and "int_range (rtop (extents reg) + dy)" and "int_range (rbottom (extents reg) + dy)"
  shows "wf_region (offset_region dx dy reg) \<and>
     region_pts (offset_region dx dy reg) = (\<lambda>(x, y). (x + dx, y + dy)) ` region_pts reg"
proof (cases "rects reg = []")
  case True
  then show ?thesis using assms(1) by (simp add: offset_region_def)
qed (use offset_region_wf assms in blast)

theorem offset_region_witness:
  "region_pts (offset_region 3 4 (box 0 0 10 10)) = (\<lambda>(x, y). (x + 3, y + 4)) ` rect_pts (mk_rect 0 0 10 10)"
  using offset_region_correct [OF wf_box, of 0 10 0 10 3 4] by (simp add: int_range_def)

text \<open>C13. \<open>mirror_region\<close> on a band of two rectangles writes the mirror image of the second one
  twice and loses the first: the result is not a well-formed region and does not cover the
  mirror image of the first rectangle.\<close>

theorem mirror_region_loses_first:
  assumes "rects reg = [a, b]" and "rtop a = rtop b" and "\<not> is_rect_empty b"
  shows "rects (mirror_region client reg) = [mirror_rect client b, mirror_rect client b] \<and>
     \<not> wf_region (mirror_region client reg)"
proof -
  have "rects (mirror_region client reg) = [mirror_rect client b, mirror_rect client b]"
    using assms(1,2)
    by (simp add: mirror_region_def mirror_bands.simps band_end_def mirror_band.simps Let_def)
  then show ?thesis
    by (auto simp: wf_region_def rect_before_def is_rect_empty_def)
qed

theorem mirror_region_witness:
  "\<not> wf_region (mirror_region (mk_rect 0 0 100 100)
     \<lparr>rgn_size = 2, rects = [mk_rect 0 0 10 10, mk_rect 20 0 30 10], extents = mk_rect 0 0 30 10\<rparr>)"
  using mirror_region_loses_first [of "\<lparr>rgn_size = 2, rects = [mk_rect 0 0 10 10, mk_rect 20 0 30 10],
      extents = mk_rect 0 0 30 10\<rparr>" "mk_rect 0 0 10 10" "mk_rect 20 0 30 10" "mk_rect 0 0 100 100"]
  by (simp add: is_rect_empty_def)

end
