(* ===== verification/Objects.thy ===== *)
theory Objects
  imports Prelude "HOL-Library.Monad_Syntax"
begin

text \<open>
  The server's objects (server/object.h, server/object.c): reference counts, the per-type
  statistics and the generic access mapping. Objects live in a store, a partial map from
  object identities to headers; a freed object is absent.

  An operation that would touch freed memory, read memory that was never written, index outside
  an array or fail an \<open>assert\<close> has no result: it returns \<open>None\<close>. That an operation returns
  \<open>Some\<close> is therefore a statement of memory safety.

  When the last reference goes, \<open>release_object\<close> calls the destructor of the object's type. What a
  destructor does belongs to the component of that type; here its call is recorded in
  \<open>destroyed\<close>. The close callback of a type is a predicate: whether it lets the handle be closed.
\<close>

type_synonym oid = nat
type_synonym pid = nat
type_synonym obj_handle = "32 word"
type_synonym access = "32 word"

text \<open>
  Of \<open>struct type_descr\<close> the name, of \<open>struct object\<close> the wait queue, the name and the security
  descriptor, and of \<open>struct object_ops\<close> the callbacks that handle.c does not call are left out:
  they belong to components with their own state.
\<close>

record generic_map =
  map_read :: access
  map_write :: access
  map_exec :: access
  map_all :: access

record type_descr =
  valid_access :: access
  mapping :: generic_map
  type_index :: nat
  type_obj_count :: nat
  type_handle_count :: nat
  type_obj_max :: nat
  type_handle_max :: nat

record object_ops =
  ops_type :: nat
  ops_map_access :: "(oid \<Rightarrow> access \<Rightarrow> access) option"
  ops_close_handle :: "(oid \<Rightarrow> pid \<Rightarrow> obj_handle \<Rightarrow> bool) option"

record object =
  refcount :: nat
  handle_count :: nat
  obj_ops :: nat
  is_permanent :: bool

text \<open>The entries of the handle tables (server/handle.c); \<open>e_ptr = None\<close> is a null pointer.\<close>

record handle_entry =
  e_ptr :: "oid option"
  e_access :: access

text \<open>\<open>process_token\<close> is the primary token of a process, \<open>process_of_obj\<close> the process behind a process
  object. \<open>entries\<close> has as many slots as are allocated; a slot that was never written is \<open>None\<close>.\<close>

record handle_table =
  t_process :: "pid option"
  t_count :: int
  t_last :: int
  t_free :: int
  entries :: "handle_entry option list"

record server =
  objects :: "oid \<Rightarrow> object option"
  type_tab :: "nat \<Rightarrow> type_descr"
  ops_tab :: "nat \<Rightarrow> object_ops"
  handles :: "pid \<Rightarrow> handle_table option"
  global_table :: "handle_table option"
  process_token :: "pid \<Rightarrow> oid option"
  process_of_obj :: "oid \<Rightarrow> pid"
  destroyed :: "oid list"

abbreviation (input) GENERIC_READ :: access where "GENERIC_READ \<equiv> 0x80000000"
abbreviation (input) GENERIC_WRITE :: access where "GENERIC_WRITE \<equiv> 0x40000000"
abbreviation (input) GENERIC_EXECUTE :: access where "GENERIC_EXECUTE \<equiv> 0x20000000"
abbreviation (input) GENERIC_ALL :: access where "GENERIC_ALL \<equiv> 0x10000000"
abbreviation (input) MAXIMUM_ALLOWED :: access where "MAXIMUM_ALLOWED \<equiv> 0x02000000"
abbreviation (input) INT_MAX :: nat where "INT_MAX \<equiv> 2147483647"

definition type_of_ops :: "server \<Rightarrow> nat \<Rightarrow> nat" where
  "type_of_ops s ops = ops_type (ops_tab s ops)"

definition upd_type :: "nat \<Rightarrow> (type_descr \<Rightarrow> type_descr) \<Rightarrow> server \<Rightarrow> server" where
  "upd_type t f s = s\<lparr>type_tab := (type_tab s)(t := f (type_tab s t))\<rparr>"

definition map_access :: "access \<Rightarrow> generic_map \<Rightarrow> access" where
  "map_access acc m =
     (let a1 = (if acc AND GENERIC_READ \<noteq> 0 then acc OR map_read m else acc);
          a2 = (if a1 AND GENERIC_WRITE \<noteq> 0 then a1 OR map_write m else a1);
          a3 = (if a2 AND GENERIC_EXECUTE \<noteq> 0 then a2 OR map_exec m else a2);
          a4 = (if a3 AND GENERIC_ALL \<noteq> 0 then a3 OR map_all m else a3)
      in a4 AND NOT (GENERIC_READ OR GENERIC_WRITE OR GENERIC_EXECUTE OR GENERIC_ALL))"

definition default_map_access :: "server \<Rightarrow> object \<Rightarrow> access \<Rightarrow> access" where
  "default_map_access s ob acc = map_access acc (mapping (type_tab s (type_of_ops s (obj_ops ob))))"

definition map_obj_access :: "server \<Rightarrow> oid \<Rightarrow> access \<Rightarrow> access option" where
  "map_obj_access s obj acc =
     (case objects s obj of
        None \<Rightarrow> None
      | Some ob \<Rightarrow>
          (case ops_map_access (ops_tab s (obj_ops ob)) of
             Some f \<Rightarrow> Some (f obj acc)
           | None \<Rightarrow> Some (default_map_access s ob acc)))"

definition upd_obj :: "oid \<Rightarrow> object \<Rightarrow> server \<Rightarrow> server" where
  "upd_obj obj ob s = s\<lparr>objects := (objects s)(obj \<mapsto> ob)\<rparr>"

text \<open>\<open>alloc_object\<close>; the identity of the new object is the one \<open>malloc\<close> returned, so it is not in use.\<close>

definition alloc_object :: "oid \<Rightarrow> nat \<Rightarrow> server \<Rightarrow> env \<Rightarrow> bool \<times> server \<times> env" where
  "alloc_object obj ops s e =
     (case mem_alloc e of
        (False, e') \<Rightarrow> (False, s, e')
      | (True, e') \<Rightarrow>
          (True, upd_type (type_of_ops s ops)
                   (\<lambda>t. t\<lparr>type_obj_count := type_obj_count t + 1,
                          type_obj_max := max (type_obj_max t) (type_obj_count t + 1)\<rparr>)
                   (upd_obj obj \<lparr>refcount = 1, handle_count = 0, obj_ops = ops, is_permanent = False\<rparr> s), e'))"

definition free_object :: "oid \<Rightarrow> object \<Rightarrow> server \<Rightarrow> server" where
  "free_object obj ob s =
     upd_type (type_of_ops s (obj_ops ob)) (\<lambda>t. t\<lparr>type_obj_count := type_obj_count t - 1\<rparr>)
       (s\<lparr>objects := (objects s)(obj := None)\<rparr>)"

definition make_object_permanent :: "oid \<Rightarrow> server \<Rightarrow> server option" where
  "make_object_permanent obj s =
     (case objects s obj of None \<Rightarrow> None | Some ob \<Rightarrow> Some (upd_obj obj (ob\<lparr>is_permanent := True\<rparr>) s))"

definition make_object_temporary :: "oid \<Rightarrow> server \<Rightarrow> server option" where
  "make_object_temporary obj s =
     (case objects s obj of None \<Rightarrow> None | Some ob \<Rightarrow> Some (upd_obj obj (ob\<lparr>is_permanent := False\<rparr>) s))"

definition grab_object :: "oid \<Rightarrow> server \<Rightarrow> server option" where
  "grab_object obj s =
     (case objects s obj of
        None \<Rightarrow> None
      | Some ob \<Rightarrow> if refcount ob < INT_MAX then Some (upd_obj obj (ob\<lparr>refcount := refcount ob + 1\<rparr>) s)
                    else None)"

definition release_object :: "oid \<Rightarrow> server \<Rightarrow> server option" where
  "release_object obj s =
     (case objects s obj of
        None \<Rightarrow> None
      | Some ob \<Rightarrow>
          if refcount ob = 0 then None
          else if refcount ob = 1 then
            (if handle_count ob \<noteq> 0 then None
             else Some (free_object obj ob (s\<lparr>destroyed := destroyed s @ [obj]\<rparr>)))
          else Some (upd_obj obj (ob\<lparr>refcount := refcount ob - 1\<rparr>) s))"

definition grab_object_for_handle :: "oid \<Rightarrow> server \<Rightarrow> server option" where
  "grab_object_for_handle obj s =
     (case objects s obj of
        None \<Rightarrow> None
      | Some ob \<Rightarrow>
          grab_object obj
            (upd_type (type_of_ops s (obj_ops ob))
               (\<lambda>t. t\<lparr>type_handle_count := type_handle_count t + 1,
                      type_handle_max := max (type_handle_max t) (type_handle_count t + 1)\<rparr>)
               (upd_obj obj (ob\<lparr>handle_count := handle_count ob + 1\<rparr>) s)))"

definition release_object_from_handle :: "oid \<Rightarrow> server \<Rightarrow> server option" where
  "release_object_from_handle obj s =
     (case objects s obj of
        None \<Rightarrow> None
      | Some ob \<Rightarrow>
          if handle_count ob = 0 then None
          else release_object obj
                 (upd_obj obj (ob\<lparr>handle_count := handle_count ob - 1\<rparr>)
                    (upd_type (type_of_ops s (obj_ops ob))
                       (\<lambda>t. t\<lparr>type_handle_count := type_handle_count t - 1\<rparr>) s)))"

end
