(* ===== verification/Handle.thy ===== *)
theory Handle
  imports Objects
begin

text \<open>
  The handle tables of server/handle.c. A pointer to a handle entry is a pair of the table it is
  in and its index; a \<open>struct process *\<close> that may be null is a \<open>pid option\<close>. As in \<open>Objects\<close>, a
  result \<open>None\<close> means that the C code would use memory it must not touch or fail an \<open>assert\<close>.
  The table object's own header (its reference count never exceeds one) is left out.
\<close>

abbreviation (input) RESERVED_SHIFT :: nat where "RESERVED_SHIFT \<equiv> 26"
abbreviation (input) RESERVED_INHERIT :: access where "RESERVED_INHERIT \<equiv> 0x04000000"
abbreviation (input) RESERVED_CLOSE_PROTECT :: access where "RESERVED_CLOSE_PROTECT \<equiv> 0x08000000"
abbreviation (input) RESERVED_ALL :: access where "RESERVED_ALL \<equiv> 0x0C000000"
abbreviation (input) MIN_HANDLE_ENTRIES :: int where "MIN_HANDLE_ENTRIES \<equiv> 32"
abbreviation (input) MAX_HANDLE_ENTRIES :: int where "MAX_HANDLE_ENTRIES \<equiv> 0xffffff"
abbreviation (input) HANDLE_OBFUSCATOR :: obj_handle where "HANDLE_OBFUSCATOR \<equiv> 0x544a4def"
abbreviation (input) OBJ_PROTECT_CLOSE :: access where "OBJ_PROTECT_CLOSE \<equiv> 1"
abbreviation (input) OBJ_INHERIT :: access where "OBJ_INHERIT \<equiv> 2"
abbreviation (input) DUPLICATE_CLOSE_SOURCE :: "32 word" where "DUPLICATE_CLOSE_SOURCE \<equiv> 1"
abbreviation (input) DUPLICATE_SAME_ACCESS :: "32 word" where "DUPLICATE_SAME_ACCESS \<equiv> 2"
abbreviation (input) DUPLICATE_SAME_ATTRIBUTES :: "32 word" where "DUPLICATE_SAME_ATTRIBUTES \<equiv> 4"
abbreviation (input) DUPLICATE_MAKE_GLOBAL :: "32 word" where "DUPLICATE_MAKE_GLOBAL \<equiv> 0x80000000"

subsection \<open>Handles and indices\<close>

definition index_to_handle :: "int \<Rightarrow> obj_handle" where
  "index_to_handle index = push_bit 2 (word_of_int (index + 1))"

text \<open>The subtraction is unsigned; its result is converted to \<open>int\<close>.\<close>

definition handle_to_index :: "obj_handle \<Rightarrow> int" where
  "handle_to_index handle = sint (drop_bit 2 handle - 1 :: 32 word)"

definition handle_is_global :: "obj_handle \<Rightarrow> bool" where
  "handle_is_global handle \<longleftrightarrow> handle XOR HANDLE_OBFUSCATOR \<le> push_bit 2 0xffffff"

definition handle_local_to_global :: "obj_handle \<Rightarrow> obj_handle" where
  "handle_local_to_global handle = (if handle = 0 then 0 else handle XOR HANDLE_OBFUSCATOR)"

definition handle_global_to_local :: "obj_handle \<Rightarrow> obj_handle" where
  "handle_global_to_local handle = handle XOR HANDLE_OBFUSCATOR"

subsection \<open>Reading and writing a table\<close>

text \<open>A slot that can be read: inside the array and written before.\<close>

definition slot :: "handle_table \<Rightarrow> int \<Rightarrow> handle_entry option" where
  "slot t i = (if 0 \<le> i \<and> i < int (length (entries t)) then entries t ! nat i else None)"

definition set_slot :: "handle_table \<Rightarrow> int \<Rightarrow> handle_entry \<Rightarrow> handle_table option" where
  "set_slot t i en =
     (if 0 \<le> i \<and> i < int (length (entries t))
      then Some (t\<lparr>entries := (entries t)[nat i := Some en]\<rparr>) else None)"

subsection \<open>Tables\<close>

definition alloc_handle_table :: "pid option \<Rightarrow> int \<Rightarrow> env \<Rightarrow> handle_table option \<times> env" where
  "alloc_handle_table process count e =
     (let count = (if count < MIN_HANDLE_ENTRIES then MIN_HANDLE_ENTRIES else count)
      in case mem_alloc e of
           (False, e1) \<Rightarrow> (None, e1)
         | (True, e1) \<Rightarrow>
             (case mem_alloc e1 of
                (False, e2) \<Rightarrow> (None, e2)
              | (True, e2) \<Rightarrow>
                  (Some \<lparr>t_process = process, t_count = count, t_last = -1, t_free = 0,
                         entries = replicate (nat count) None\<rparr>, e2)))"

definition grow_handle_table :: "handle_table \<Rightarrow> env \<Rightarrow> bool \<times> handle_table \<times> env" where
  "grow_handle_table t e =
     (let count = min (t_count t * 2) MAX_HANDLE_ENTRIES
      in if count = t_count t then (False, t, set_error STATUS_INSUFFICIENT_RESOURCES e)
         else (case c_alloc e of
                 (False, e') \<Rightarrow> (False, t, set_error STATUS_INSUFFICIENT_RESOURCES e')
               | (True, e') \<Rightarrow>
                   (True, t\<lparr>t_count := count,
                            entries := entries t @ replicate (nat (count - t_count t)) None\<rparr>, e')))"

text \<open>The search of \<open>alloc_entry\<close> from \<open>free\<close> to \<open>last\<close>.\<close>

function find_free :: "handle_table \<Rightarrow> int \<Rightarrow> int option" where
  "find_free t i =
     (if i \<le> t_last t then
        (case slot t i of
           None \<Rightarrow> None
         | Some en \<Rightarrow> if e_ptr en = None then Some i else find_free t (i + 1))
      else Some i)"
  by pat_completeness auto
termination by (relation "measure (\<lambda>(t, i). nat (t_last t + 1 - i))") auto

declare find_free.simps [simp del]

definition alloc_entry ::
  "handle_table \<Rightarrow> oid \<Rightarrow> access \<Rightarrow> server \<Rightarrow> env \<Rightarrow> (obj_handle \<times> handle_table \<times> server \<times> env) option" where
  "alloc_entry t obj acc s e =
     do {
       i \<leftarrow> find_free t (t_free t);
       let (ok, t1, e1) =
         (if i \<le> t_last t then (True, t, e)
          else if i \<ge> t_count t then
            (case grow_handle_table t e of (ok, t', e') \<Rightarrow> (ok, if ok then t'\<lparr>t_last := i\<rparr> else t', e'))
          else (True, t\<lparr>t_last := i\<rparr>, e));
       if \<not> ok then Some (0, t1, s, e1)
       else do {
         s1 \<leftarrow> grab_object_for_handle obj s;
         t2 \<leftarrow> set_slot (t1\<lparr>t_free := i + 1\<rparr>) i \<lparr>e_ptr = Some obj, e_access = acc\<rparr>;
         Some (index_to_handle i, t2, s1, e1)
       }
     }"

definition alloc_handle_entry ::
  "pid option \<Rightarrow> oid \<Rightarrow> access \<Rightarrow> access \<Rightarrow> server \<Rightarrow> env \<Rightarrow> (obj_handle \<times> server \<times> env) option" where
  "alloc_handle_entry process obj acc attr s e =
     (if acc AND RESERVED_ALL \<noteq> 0 then None
      else
        let acc = (if attr AND OBJ_INHERIT \<noteq> 0 then acc OR RESERVED_INHERIT else acc)
        in case process of
             None \<Rightarrow> None
           | Some p \<Rightarrow>
               (case handles s p of
                  None \<Rightarrow> Some (0, s, set_error STATUS_PROCESS_IS_TERMINATING e)
                | Some t \<Rightarrow>
                    do { (h, t', s', e') \<leftarrow> alloc_entry t obj acc s e;
                         Some (h, s'\<lparr>handles := (handles s')(p \<mapsto> t')\<rparr>, e') }))"

definition alloc_handle_no_access_check ::
  "pid option \<Rightarrow> oid \<Rightarrow> access \<Rightarrow> access \<Rightarrow> server \<Rightarrow> env \<Rightarrow> (obj_handle \<times> server \<times> env) option" where
  "alloc_handle_no_access_check process obj acc attr s e =
     do { m \<leftarrow> map_obj_access s obj (if acc AND MAXIMUM_ALLOWED \<noteq> 0 then GENERIC_ALL else acc);
          alloc_handle_entry process obj (m AND NOT RESERVED_ALL) attr s e }"

text \<open>
  \<open>check_object_access\<close> of server/token.c is an argument of the operations that call it: from the
  token (a null pointer stands for the current one), the object and the wanted access it gives
  whether access is granted and the access that is; it sets the error when it refuses.
\<close>

type_synonym access_check = "oid option \<Rightarrow> oid \<Rightarrow> access \<Rightarrow> server \<Rightarrow> env \<Rightarrow> bool \<times> access \<times> env"

definition alloc_handle ::
  "access_check \<Rightarrow> pid option \<Rightarrow> oid \<Rightarrow> access \<Rightarrow> access \<Rightarrow> server \<Rightarrow> env \<Rightarrow> (obj_handle \<times> server \<times> env) option" where
  "alloc_handle check_object_access process obj acc attr s e =
     do {
       m \<leftarrow> map_obj_access s obj acc;
       if m AND NOT RESERVED_ALL = 0 then Some (0, s, set_error STATUS_ACCESS_DENIED e)
       else
         case check_object_access None obj (m AND NOT RESERVED_ALL) s e of
           (False, _, e') \<Rightarrow> Some (0, s, e')
         | (True, acc', e') \<Rightarrow> alloc_handle_entry process obj acc' attr s e'
     }"

definition alloc_global_handle_no_access_check ::
  "oid \<Rightarrow> access \<Rightarrow> server \<Rightarrow> env \<Rightarrow> (obj_handle \<times> server \<times> env) option" where
  "alloc_global_handle_no_access_check obj acc s e =
     (case (case global_table s of
              Some t \<Rightarrow> (Some t, e)
            | None \<Rightarrow> alloc_handle_table None 0 e) of
        (None, e1) \<Rightarrow> Some (0, s, e1)
      | (Some t, e1) \<Rightarrow>
          do { (h, t', s', e') \<leftarrow> alloc_entry t obj acc s e1;
               Some (handle_local_to_global h, s'\<lparr>global_table := Some t'\<rparr>, e') })"

definition alloc_global_handle ::
  "access_check \<Rightarrow> oid \<Rightarrow> access \<Rightarrow> server \<Rightarrow> env \<Rightarrow> (obj_handle \<times> server \<times> env) option" where
  "alloc_global_handle check_object_access obj acc s e =
     (if acc \<noteq> 0 then
        (case check_object_access None obj acc s e of
           (False, _, e') \<Rightarrow> Some (0, s, e')
         | (True, acc', e') \<Rightarrow> alloc_global_handle_no_access_check obj acc' s e')
      else alloc_global_handle_no_access_check obj acc s e)"

subsection \<open>Looking up and closing\<close>

datatype table_ref = Local pid | Global

definition table_at :: "server \<Rightarrow> table_ref \<Rightarrow> handle_table option" where
  "table_at s r = (case r of Local p \<Rightarrow> handles s p | Global \<Rightarrow> global_table s)"

definition put_table :: "table_ref \<Rightarrow> handle_table \<Rightarrow> server \<Rightarrow> server" where
  "put_table r t s =
     (case r of Local p \<Rightarrow> s\<lparr>handles := (handles s)(p \<mapsto> t)\<rparr> | Global \<Rightarrow> s\<lparr>global_table := Some t\<rparr>)"

text \<open>
  The first option is the outcome of the memory accesses, the second the null pointer that
  \<open>get_handle\<close> returns for an invalid handle. Reading \<open>process->handles\<close> comes first, so a null
  process has no result even for a global handle.
\<close>

definition get_handle :: "pid option \<Rightarrow> obj_handle \<Rightarrow> server \<Rightarrow> (table_ref \<times> int \<times> handle_entry) option option" where
  "get_handle process handle s =
     (case process of
        None \<Rightarrow> None
      | Some p \<Rightarrow>
          let r = (if handle_is_global handle then Global else Local p);
              h = (if handle_is_global handle then handle_global_to_local handle else handle);
              index = handle_to_index h
          in case table_at s r of
               None \<Rightarrow> Some None
             | Some t \<Rightarrow>
                 if index < 0 then Some None
                 else if index > t_last t then Some None
                 else (case slot t index of
                         None \<Rightarrow> None
                       | Some en \<Rightarrow> if e_ptr en = None then Some None else Some (Some (r, index, en))))"

text \<open>The loop that lowers \<open>last\<close> below the trailing null entries.\<close>

function trim_last :: "handle_table \<Rightarrow> int \<Rightarrow> int option" where
  "trim_last t l =
     (if l \<ge> 0 then
        (case slot t l of
           None \<Rightarrow> None
         | Some en \<Rightarrow> if e_ptr en \<noteq> None then Some l else trim_last t (l - 1))
      else Some l)"
  by pat_completeness auto
termination by (relation "measure (\<lambda>(t, l). nat (l + 1))") auto

declare trim_last.simps [simp del]

definition shrink_handle_table :: "handle_table \<Rightarrow> env \<Rightarrow> (handle_table \<times> env) option" where
  "shrink_handle_table t e =
     do {
       l \<leftarrow> trim_last t (t_last t);
       let t1 = t\<lparr>t_last := l\<rparr>;
       let count = t_count t;
       if l \<ge> count div 4 then Some (t1, e)
       else if count < MIN_HANDLE_ENTRIES * 2 then Some (t1, e)
       else
         (case c_alloc e of
            (False, e') \<Rightarrow> Some (t1, e')
          | (True, e') \<Rightarrow>
              Some (t1\<lparr>t_count := count div 2, entries := take (nat (count div 2)) (entries t1)\<rparr>, e'))
     }"

definition inherit_handle ::
  "pid \<Rightarrow> obj_handle \<Rightarrow> handle_table \<Rightarrow> server \<Rightarrow> (handle_table \<times> server) option" where
  "inherit_handle parent handle t s =
     do {
       src \<leftarrow> get_handle (Some parent) handle s;
       case src of
         None \<Rightarrow> Some (t, s)
       | Some (_, _, en) \<Rightarrow>
           if e_access en AND RESERVED_INHERIT = 0 then Some (t, s)
           else do {
             let index = handle_to_index handle;
             d \<leftarrow> slot t index;
             if e_ptr d \<noteq> None then Some (t, s)
             else do {
               s1 \<leftarrow> (case e_ptr en of None \<Rightarrow> None | Some obj \<Rightarrow> grab_object_for_handle obj s);
               t1 \<leftarrow> set_slot t index en;
               Some (t1\<lparr>t_last := max (t_last t) index\<rparr>, s1)
             }
           }
     }"

fun inherit_handles ::
  "pid \<Rightarrow> obj_handle list \<Rightarrow> handle_table \<Rightarrow> server \<Rightarrow> (handle_table \<times> server) option" where
  "inherit_handles parent [] t s = Some (t, s)"
| "inherit_handles parent (h # hs) t s =
     do { (t', s') \<leftarrow> inherit_handle parent h t s; inherit_handles parent hs t' s' }"

text \<open>The pass over the copied entries: keep the inheritable ones, clear the others.\<close>

fun inherit_all :: "handle_entry option list \<Rightarrow> server \<Rightarrow> (handle_entry option list \<times> server) option" where
  "inherit_all [] s = Some ([], s)"
| "inherit_all (None # es) s = None"
| "inherit_all (Some en # es) s =
     do {
       (en', s') \<leftarrow>
         (case e_ptr en of
            None \<Rightarrow> Some (en, s)
          | Some obj \<Rightarrow>
              if e_access en AND RESERVED_INHERIT \<noteq> 0
              then do { s' \<leftarrow> grab_object_for_handle obj s; Some (en, s') }
              else Some (en\<lparr>e_ptr := None\<rparr>, s));
       (es', s'') \<leftarrow> inherit_all es s';
       Some (Some en' # es', s'')
     }"

definition copy_handle_table ::
  "pid option \<Rightarrow> pid \<Rightarrow> obj_handle list option \<Rightarrow> obj_handle list \<Rightarrow> server \<Rightarrow> env \<Rightarrow>
   (handle_table option \<times> server \<times> env) option" where
  "copy_handle_table process parent hs std_handles s e =
     (case handles s parent of
        None \<Rightarrow> None
      | Some pt \<Rightarrow>
          (case alloc_handle_table process (t_count pt) e of
             (None, e1) \<Rightarrow> Some (None, s, e1)
           | (Some t, e1) \<Rightarrow>
               do {
                 (t2, s2) \<leftarrow>
                   (case hs of
                      Some l \<Rightarrow>
                        let t1 = t\<lparr>entries := replicate (nat (t_count pt)) (Some \<lparr>e_ptr = None, e_access = 0\<rparr>) @
                                             drop (nat (t_count pt)) (entries t)\<rparr>
                        in inherit_handles parent (l @ std_handles) t1 s
                    | None \<Rightarrow>
                        if t_last pt \<ge> 0 then
                          (let n = nat (t_last pt + 1)
                           in do { (es, s') \<leftarrow> inherit_all (take n (entries pt)) s;
                                   Some (t\<lparr>t_last := t_last pt, entries := es @ drop n (entries t)\<rparr>, s') })
                        else Some (t\<lparr>t_last := t_last pt\<rparr>, s));
                 (t3, e3) \<leftarrow> shrink_handle_table t2 e1;
                 Some (Some t3, s2, e3)
               }))"

definition close_allowed :: "oid \<Rightarrow> pid \<Rightarrow> obj_handle \<Rightarrow> server \<Rightarrow> bool option" where
  "close_allowed obj p handle s =
     (case objects s obj of
        None \<Rightarrow> None
      | Some ob \<Rightarrow>
          (case ops_close_handle (ops_tab s (obj_ops ob)) of
             None \<Rightarrow> Some True
           | Some f \<Rightarrow> Some (f obj p handle)))"

text \<open>
  \<open>index\<close> is computed from the handle as it came in; \<open>get_handle\<close> looks a global handle up under
  its local value.
\<close>

definition close_handle :: "pid \<Rightarrow> obj_handle \<Rightarrow> server \<Rightarrow> env \<Rightarrow> (ntstatus \<times> server \<times> env) option" where
  "close_handle p handle s e =
     do {
       let index = handle_to_index handle;
       ent \<leftarrow> get_handle (Some p) handle s;
       case ent of
         None \<Rightarrow> Some (STATUS_INVALID_HANDLE, s, e)
       | Some (_, _, en) \<Rightarrow>
           if e_access en AND RESERVED_CLOSE_PROTECT \<noteq> 0 then Some (STATUS_HANDLE_NOT_CLOSABLE, s, e)
           else do {
             obj \<leftarrow> e_ptr en;
             allowed \<leftarrow> close_allowed obj p handle s;
             if \<not> allowed then Some (STATUS_HANDLE_NOT_CLOSABLE, s, e)
             else do {
               let r = (if handle_is_global handle then Global else Local p);
               t \<leftarrow> table_at s r;
               d \<leftarrow> slot t index;
               t1 \<leftarrow> set_slot t index (d\<lparr>e_ptr := None\<rparr>);
               let t2 = (if index < t_free t1 then t1\<lparr>t_free := index\<rparr> else t1);
               (t3, e') \<leftarrow> (if index = t_last t2 then shrink_handle_table t2 e else Some (t2, e));
               s' \<leftarrow> release_object_from_handle obj (put_table r t3 s);
               Some (STATUS_SUCCESS, s', e')
             }
           }
     }"

text \<open>The loop of \<open>handle_table_destroy\<close>; the close callbacks are called, their answers ignored.\<close>

fun destroy_entries :: "handle_entry option list \<Rightarrow> server \<Rightarrow> server option" where
  "destroy_entries [] s = Some s"
| "destroy_entries (None # es) s = None"
| "destroy_entries (Some en # es) s =
     do {
       s' \<leftarrow> (case e_ptr en of None \<Rightarrow> Some s | Some obj \<Rightarrow> release_object_from_handle obj s);
       destroy_entries es s'
     }"

definition handle_table_destroy :: "handle_table \<Rightarrow> server \<Rightarrow> server option" where
  "handle_table_destroy t s = destroy_entries (take (nat (t_last t + 1)) (entries t)) s"

definition close_process_handles :: "pid \<Rightarrow> server \<Rightarrow> server option" where
  "close_process_handles p s =
     (case handles s p of
        None \<Rightarrow> Some s
      | Some t \<Rightarrow> handle_table_destroy t (s\<lparr>handles := (handles s)(p := None)\<rparr>))"

subsection \<open>Objects behind handles\<close>

text \<open>What the pseudo-handles stand for in the thread that runs the request.\<close>

record current =
  cur_process :: pid
  cur_process_obj :: oid
  cur_thread_obj :: oid
  cur_thread_token :: "oid option"

definition thread_get_impersonation_token :: "current \<Rightarrow> server \<Rightarrow> oid option" where
  "thread_get_impersonation_token cur s =
     (case cur_thread_token cur of Some t \<Rightarrow> Some t | None \<Rightarrow> process_token s (cur_process cur))"

definition get_magic_handle :: "current \<Rightarrow> obj_handle \<Rightarrow> server \<Rightarrow> oid option" where
  "get_magic_handle cur handle s =
     (if handle = 0xfffffffa then thread_get_impersonation_token cur s
      else if handle = 0xfffffffb then cur_thread_token cur
      else if handle = 0xfffffffc then process_token s (cur_process cur)
      else if handle = 0xfffffffe then Some (cur_thread_obj cur)
      else if handle = 0x7fffffff \<or> handle = 0xffffffff then Some (cur_process_obj cur)
      else None)"

definition has_ops :: "server \<Rightarrow> oid \<Rightarrow> nat option \<Rightarrow> bool option" where
  "has_ops s obj ops =
     (case ops of
        None \<Rightarrow> Some True
      | Some o' \<Rightarrow> (case objects s obj of None \<Rightarrow> None | Some ob \<Rightarrow> Some (obj_ops ob = o')))"

definition get_handle_obj ::
  "current \<Rightarrow> pid option \<Rightarrow> obj_handle \<Rightarrow> access \<Rightarrow> nat option \<Rightarrow> server \<Rightarrow> env \<Rightarrow> (oid option \<times> server \<times> env) option" where
  "get_handle_obj cur process handle acc ops s e =
     (case get_magic_handle cur handle s of
        None \<Rightarrow>
          do {
            ent \<leftarrow> get_handle process handle s;
            case ent of
              None \<Rightarrow> Some (None, s, set_error STATUS_INVALID_HANDLE e)
            | Some (_, _, en) \<Rightarrow>
                do {
                  obj \<leftarrow> e_ptr en;
                  same \<leftarrow> has_ops s obj ops;
                  if \<not> same then Some (None, s, set_error STATUS_OBJECT_TYPE_MISMATCH e)
                  else if e_access en AND acc \<noteq> acc then Some (None, s, set_error STATUS_ACCESS_DENIED e)
                  else do { s' \<leftarrow> grab_object obj s; Some (Some obj, s', e) }
                }
          }
      | Some obj \<Rightarrow>
          do {
            same \<leftarrow> has_ops s obj ops;
            if \<not> same then Some (None, s, set_error STATUS_OBJECT_TYPE_MISMATCH e)
            else do { s' \<leftarrow> grab_object obj s; Some (Some obj, s', e) }
          })"

definition get_handle_access :: "current \<Rightarrow> pid option \<Rightarrow> obj_handle \<Rightarrow> server \<Rightarrow> access option" where
  "get_handle_access cur process handle s =
     (if get_magic_handle cur handle s \<noteq> None then Some (NOT RESERVED_ALL)
      else do {
        ent \<leftarrow> get_handle process handle s;
        case ent of
          None \<Rightarrow> Some 0
        | Some (_, _, en) \<Rightarrow> Some (e_access en AND NOT RESERVED_ALL)
      })"

text \<open>The scan of \<open>find_inherited_handle\<close> over the entries from index \<open>i\<close> on.\<close>

fun scan_inherited :: "server \<Rightarrow> nat \<Rightarrow> int \<Rightarrow> handle_entry option list \<Rightarrow> obj_handle option" where
  "scan_inherited s ops i [] = Some 0"
| "scan_inherited s ops i (None # es) = None"
| "scan_inherited s ops i (Some en # es) =
     (case e_ptr en of
        None \<Rightarrow> scan_inherited s ops (i + 1) es
      | Some obj \<Rightarrow>
          do {
            same \<leftarrow> has_ops s obj (Some ops);
            if \<not> same then scan_inherited s ops (i + 1) es
            else if e_access en AND RESERVED_INHERIT \<noteq> 0 then Some (index_to_handle i)
            else scan_inherited s ops (i + 1) es
          })"

definition find_inherited_handle :: "pid \<Rightarrow> nat \<Rightarrow> server \<Rightarrow> obj_handle option" where
  "find_inherited_handle p ops s =
     (case handles s p of
        None \<Rightarrow> Some 0
      | Some t \<Rightarrow> scan_inherited s ops 0 (take (nat (t_last t + 1)) (entries t)))"

fun count_entries :: "oid \<Rightarrow> handle_entry option list \<Rightarrow> nat option" where
  "count_entries obj [] = Some 0"
| "count_entries obj (None # es) = None"
| "count_entries obj (Some en # es) =
     do { n \<leftarrow> count_entries obj es; Some (if e_ptr en = Some obj then n + 1 else n) }"

definition get_obj_handle_count :: "pid \<Rightarrow> oid \<Rightarrow> server \<Rightarrow> nat option" where
  "get_obj_handle_count p obj s =
     (case handles s p of
        None \<Rightarrow> Some 0
      | Some t \<Rightarrow> count_entries obj (take (nat (t_last t + 1)) (entries t)))"

definition set_handle_flags ::
  "current \<Rightarrow> pid option \<Rightarrow> obj_handle \<Rightarrow> 32 word \<Rightarrow> 32 word \<Rightarrow> server \<Rightarrow> env \<Rightarrow> (int \<times> server \<times> env) option" where
  "set_handle_flags cur process handle msk flags s e =
     (if get_magic_handle cur handle s \<noteq> None then
        Some (0, s, if msk \<noteq> 0 then set_error STATUS_ACCESS_DENIED e else e)
      else do {
        ent \<leftarrow> get_handle process handle s;
        case ent of
          None \<Rightarrow> Some (-1, s, set_error STATUS_INVALID_HANDLE e)
        | Some (r, i, en) \<Rightarrow>
            do {
              let m' = push_bit RESERVED_SHIFT msk AND RESERVED_ALL;
              let flags' = push_bit RESERVED_SHIFT flags AND m';
              t \<leftarrow> table_at s r;
              t' \<leftarrow> set_slot t i (en\<lparr>e_access := (e_access en AND NOT m') OR flags'\<rparr>);
              Some (uint (drop_bit RESERVED_SHIFT (e_access en AND RESERVED_ALL)), put_table r t' s, e)
            }
      })"

subsection \<open>Duplication\<close>

text \<open>\<open>check_object_access( dst->token, ... )\<close> reads the token of a process that may be null.\<close>

definition check_for_process ::
  "access_check \<Rightarrow> pid option \<Rightarrow> oid \<Rightarrow> access \<Rightarrow> server \<Rightarrow> env \<Rightarrow> (bool \<times> access \<times> env) option" where
  "check_for_process check dst obj acc s e =
     (case dst of None \<Rightarrow> None | Some p \<Rightarrow> Some (check (process_token s p) obj acc s e))"

text \<open>The part of \<open>duplicate_handle\<close> that allocates the new handle or reuses the source entry.\<close>

definition dup_alloc ::
  "access_check \<Rightarrow> current \<Rightarrow> pid \<Rightarrow> obj_handle \<Rightarrow> (table_ref \<times> int \<times> handle_entry) option \<Rightarrow> oid \<Rightarrow>
   pid option \<Rightarrow> access \<Rightarrow> access \<Rightarrow> access \<Rightarrow> 32 word \<Rightarrow> server \<Rightarrow> env \<Rightarrow> (obj_handle \<times> server \<times> env) option" where
  "dup_alloc check cur src src_handle ent obj dst src_access acc attr options s e =
     (if acc AND NOT src_access \<noteq> 0 then
        do {
          let (ok1, acc1, e1) =
            (case cur_thread_token cur of None \<Rightarrow> (True, acc, e) | Some tok \<Rightarrow> check (Some tok) obj acc s e);
          if \<not> ok1 then Some (0, s, e1)
          else do {
            (ok2, acc2, e2) \<leftarrow> check_for_process check dst obj acc1 s e1;
            if \<not> ok2 then Some (0, s, e2)
            else if options AND DUPLICATE_MAKE_GLOBAL \<noteq> 0 then alloc_global_handle check obj acc2 s e2
            else alloc_handle_no_access_check dst obj acc2 attr s e2
          }
        }
      else if options AND DUPLICATE_MAKE_GLOBAL \<noteq> 0 then alloc_global_handle_no_access_check obj acc s e
      else
        case ent of
          Some (r, i, en) \<Rightarrow>
            if options AND DUPLICATE_CLOSE_SOURCE \<noteq> 0 \<and> Some src = dst \<and> e_access en AND RESERVED_CLOSE_PROTECT = 0
            then do {
              t \<leftarrow> table_at s r;
              t' \<leftarrow> set_slot t i (en\<lparr>e_access := (if attr AND OBJ_INHERIT \<noteq> 0 then acc OR RESERVED_INHERIT else acc)\<rparr>);
              Some (src_handle, put_table r t' s, e)
            }
            else alloc_handle_entry dst obj acc attr s e
        | None \<Rightarrow> alloc_handle_entry dst obj acc attr s e)"

definition duplicate_handle ::
  "access_check \<Rightarrow> current \<Rightarrow> pid \<Rightarrow> obj_handle \<Rightarrow> pid option \<Rightarrow> access \<Rightarrow> access \<Rightarrow> 32 word \<Rightarrow> server \<Rightarrow> env \<Rightarrow>
   (obj_handle \<times> server \<times> env) option" where
  "duplicate_handle check cur src src_handle dst acc attr options s e =
     do {
       (res_obj, s1, e1) \<leftarrow> get_handle_obj cur (Some src) src_handle 0 None s e;
       case res_obj of
         None \<Rightarrow> Some (0, s1, e1)
       | Some obj \<Rightarrow>
           do {
             ent \<leftarrow> get_handle (Some src) src_handle s1;
             full \<leftarrow> (case ent of
                        Some (_, _, en) \<Rightarrow> Some (e_access en)
                      | None \<Rightarrow> map_obj_access s1 obj GENERIC_ALL);
             let src_flags = drop_bit RESERVED_SHIFT (full AND RESERVED_ALL);
             let src_access = full AND NOT RESERVED_ALL;
             m \<leftarrow> map_obj_access s1 obj acc;
             let want = (if options AND DUPLICATE_SAME_ACCESS \<noteq> 0 then src_access else m AND NOT RESERVED_ALL);
             (res, s2, e2) \<leftarrow> dup_alloc check cur src src_handle ent obj dst src_access want attr options s1 e1;
             (s3, e3) \<leftarrow>
               (if res \<noteq> 0 \<and> options AND DUPLICATE_SAME_ATTRIBUTES \<noteq> 0 then
                  do { (_, s', e') \<leftarrow> set_handle_flags cur dst res (NOT 0) src_flags s2 e2; Some (s', e') }
                else Some (s2, e2));
             s4 \<leftarrow> release_object obj s3;
             Some (res, s4, e3)
           }
     }"

definition get_handle_table_count :: "pid \<Rightarrow> server \<Rightarrow> int" where
  "get_handle_table_count p s = (case handles s p of None \<Rightarrow> 0 | Some t \<Rightarrow> t_count t)"

subsection \<open>Requests\<close>

definition req_close_handle :: "current \<Rightarrow> obj_handle \<Rightarrow> server \<Rightarrow> env \<Rightarrow> (server \<times> env) option" where
  "req_close_handle cur handle s e =
     do { (err, s', e') \<leftarrow> close_handle (cur_process cur) handle s e; Some (s', set_error err e') }"

definition req_set_handle_info ::
  "current \<Rightarrow> obj_handle \<Rightarrow> 32 word \<Rightarrow> 32 word \<Rightarrow> server \<Rightarrow> env \<Rightarrow> (int \<times> server \<times> env) option" where
  "req_set_handle_info cur handle msk flags s e =
     set_handle_flags cur (Some (cur_process cur)) handle msk flags s e"

text \<open>\<open>get_process_from_handle\<close> of server/process.c; \<open>process_ops\<close> is the index of its operations.\<close>

abbreviation (input) process_ops :: nat where "process_ops \<equiv> 0"
abbreviation (input) PROCESS_DUP_HANDLE :: access where "PROCESS_DUP_HANDLE \<equiv> 0x40"

definition get_process_from_handle ::
  "current \<Rightarrow> obj_handle \<Rightarrow> access \<Rightarrow> server \<Rightarrow> env \<Rightarrow> (oid option \<times> server \<times> env) option" where
  "get_process_from_handle cur handle acc s e =
     get_handle_obj cur (Some (cur_process cur)) handle acc (Some process_ops) s e"

definition req_dup_handle ::
  "access_check \<Rightarrow> current \<Rightarrow> obj_handle \<Rightarrow> obj_handle \<Rightarrow> obj_handle \<Rightarrow> access \<Rightarrow> access \<Rightarrow> 32 word \<Rightarrow>
   server \<Rightarrow> env \<Rightarrow> (obj_handle \<times> server \<times> env) option" where
  "req_dup_handle check cur src_process src_handle dst_process acc attr options s e =
     do {
       (src, s1, e1) \<leftarrow> get_process_from_handle cur src_process PROCESS_DUP_HANDLE s e;
       case src of
         None \<Rightarrow> Some (0, s1, e1)
       | Some src_obj \<Rightarrow>
           do {
             let src_pid = process_of_obj s1 src_obj;
             (res, dst_pid, s2, e2) \<leftarrow>
               (if options AND DUPLICATE_MAKE_GLOBAL \<noteq> 0 then
                  do { (h, s', e') \<leftarrow> duplicate_handle check cur src_pid src_handle None acc attr options s1 e1;
                       Some (h, None, s', e') }
                else do {
                  (dst, sa, ea) \<leftarrow> get_process_from_handle cur dst_process PROCESS_DUP_HANDLE s1 e1;
                  case dst of
                    None \<Rightarrow> Some (0, None, sa, ea)
                  | Some dst_obj \<Rightarrow>
                      do {
                        let dp = process_of_obj sa dst_obj;
                        (h, sb, eb) \<leftarrow> duplicate_handle check cur src_pid src_handle (Some dp) acc attr options sa ea;
                        sc \<leftarrow> release_object dst_obj sb;
                        Some (h, Some dp, sc, eb)
                      }
                });
             (s3, e3) \<leftarrow>
               (if options AND DUPLICATE_CLOSE_SOURCE \<noteq> 0 \<and> (Some src_pid \<noteq> dst_pid \<or> src_handle \<noteq> res)
                then do { (_, s', e') \<leftarrow> close_handle src_pid src_handle s2 e2; Some (s', e') }
                else Some (s2, e2));
             s4 \<leftarrow> release_object src_obj s3;
             Some (res, s4, e3)
           }
     }"

definition req_get_object_info ::
  "current \<Rightarrow> obj_handle \<Rightarrow> server \<Rightarrow> env \<Rightarrow> ((access \<times> nat \<times> nat) option \<times> server \<times> env) option" where
  "req_get_object_info cur handle s e =
     do {
       (res, s1, e1) \<leftarrow> get_handle_obj cur (Some (cur_process cur)) handle 0 None s e;
       case res of
         None \<Rightarrow> Some (None, s1, e1)
       | Some obj \<Rightarrow>
           do {
             acc \<leftarrow> get_handle_access cur (Some (cur_process cur)) handle s1;
             ob \<leftarrow> objects s1 obj;
             s2 \<leftarrow> release_object obj s1;
             Some (Some (acc, refcount ob, handle_count ob), s2, e1)
           }
     }"

abbreviation (input) DELETE :: access where "DELETE \<equiv> 0x00010000"

definition req_set_object_permanence :: "current \<Rightarrow> obj_handle \<Rightarrow> bool \<Rightarrow> server \<Rightarrow> env \<Rightarrow> (server \<times> env) option" where
  "req_set_object_permanence cur handle permanent s e =
     do {
       (res, s1, e1) \<leftarrow> get_handle_obj cur (Some (cur_process cur)) handle (if permanent then 0 else DELETE) None s e;
       case res of
         None \<Rightarrow> Some (s1, e1)
       | Some obj \<Rightarrow>
           do {
             ob \<leftarrow> objects s1 obj;
             s2 \<leftarrow> (if permanent \<and> \<not> is_permanent ob then
                      do { s' \<leftarrow> grab_object obj s1; make_object_permanent obj s' }
                    else if \<not> permanent \<and> is_permanent ob then
                      do { s' \<leftarrow> make_object_temporary obj s1; release_object obj s' }
                    else Some s1);
             s3 \<leftarrow> release_object obj s2;
             Some (s3, e1)
           }
     }"

definition req_compare_objects :: "current \<Rightarrow> obj_handle \<Rightarrow> obj_handle \<Rightarrow> server \<Rightarrow> env \<Rightarrow> (server \<times> env) option" where
  "req_compare_objects cur first second s e =
     do {
       (res1, s1, e1) \<leftarrow> get_handle_obj cur (Some (cur_process cur)) first 0 None s e;
       case res1 of
         None \<Rightarrow> Some (s1, e1)
       | Some obj1 \<Rightarrow>
           do {
             (res2, s2, e2) \<leftarrow> get_handle_obj cur (Some (cur_process cur)) second 0 None s1 e1;
             case res2 of
               None \<Rightarrow> do { s3 \<leftarrow> release_object obj1 s2; Some (s3, e2) }
             | Some obj2 \<Rightarrow>
                 do {
                   let e3 = (if obj1 \<noteq> obj2 then set_error STATUS_NOT_SAME_OBJECT e2 else e2);
                   s3 \<leftarrow> release_object obj2 s2;
                   s4 \<leftarrow> release_object obj1 s3;
                   Some (s4, e3)
                 }
           }
     }"

subsection \<open>Enumerating the handles of all processes\<close>

record handle_info =
  hi_owner :: pid
  hi_handle :: obj_handle
  hi_access :: access
  hi_attributes :: "32 word"
  hi_type :: nat

abbreviation sizeof_handle_info :: nat where
  "sizeof_handle_info \<equiv> 20"

text \<open>\<open>eh_handle = None\<close> is the counting pass; \<open>Some\<close> holds the records written so far.\<close>

record enum_handle_info =
  eh_count :: nat
  eh_handle :: "handle_info list option"

definition handle_attributes :: "access \<Rightarrow> 32 word" where
  "handle_attributes acc =
     (if acc AND RESERVED_INHERIT \<noteq> 0 then OBJ_INHERIT else 0) OR
     (if acc AND RESERVED_CLOSE_PROTECT \<noteq> 0 then OBJ_PROTECT_CLOSE else 0)"

fun enum_entries ::
  "pid \<Rightarrow> server \<Rightarrow> int \<Rightarrow> handle_entry option list \<Rightarrow> enum_handle_info \<Rightarrow> enum_handle_info option" where
  "enum_entries p s i [] info = Some info"
| "enum_entries p s i (None # es) info = None"
| "enum_entries p s i (Some en # es) info =
     (case e_ptr en of
        None \<Rightarrow> enum_entries p s (i + 1) es info
      | Some obj \<Rightarrow>
          (case eh_handle info of
             None \<Rightarrow> enum_entries p s (i + 1) es (info\<lparr>eh_count := eh_count info + 1\<rparr>)
           | Some l \<Rightarrow>
               if eh_count info = 0 then None
               else do {
                 ob \<leftarrow> objects s obj;
                 let hi = \<lparr>hi_owner = p, hi_handle = index_to_handle i, hi_access = e_access en AND NOT RESERVED_ALL,
                           hi_attributes = handle_attributes (e_access en),
                           hi_type = type_index (type_tab s (type_of_ops s (obj_ops ob)))\<rparr>;
                 enum_entries p s (i + 1) es \<lparr>eh_count = eh_count info - 1, eh_handle = Some (l @ [hi])\<rparr>
               }))"

definition enum_handles :: "server \<Rightarrow> pid \<Rightarrow> enum_handle_info \<Rightarrow> enum_handle_info option" where
  "enum_handles s p info =
     (case handles s p of
        None \<Rightarrow> Some info
      | Some t \<Rightarrow> enum_entries p s 0 (take (nat (t_last t + 1)) (entries t)) info)"

text \<open>\<open>enum_processes\<close> over the list of processes, for a callback that never stops it.\<close>

fun enum_processes :: "(pid \<Rightarrow> 'a \<Rightarrow> 'a option) \<Rightarrow> pid list \<Rightarrow> 'a \<Rightarrow> 'a option" where
  "enum_processes cb [] x = Some x"
| "enum_processes cb (p # ps) x = do { x' \<leftarrow> cb p x; enum_processes cb ps x' }"

definition req_get_system_handles ::
  "pid list \<Rightarrow> data_size \<Rightarrow> server \<Rightarrow> env \<Rightarrow> (nat \<times> handle_info list option \<times> env) option" where
  "req_get_system_handles process_list max_size s e =
     do {
       info \<leftarrow> enum_processes (enum_handles s) process_list \<lparr>eh_count = 0, eh_handle = None\<rparr>;
       if max_size div sizeof_handle_info < eh_count info
       then Some (eh_count info, None, set_error STATUS_BUFFER_TOO_SMALL e)
       else
         (case mem_alloc e of
            (False, e') \<Rightarrow> Some (eh_count info, None, e')
          | (True, e') \<Rightarrow>
              do {
                info' \<leftarrow> enum_processes (enum_handles s) process_list \<lparr>eh_count = eh_count info, eh_handle = Some []\<rparr>;
                Some (eh_count info, eh_handle info', e')
              })
     }"

end
