(* ===== verification/Handle_Table.thy ===== *)
theory Handle_Table
  imports Handle
begin

text \<open>
  One handle table by itself: the arithmetic of handles and indices, the invariant of a table,
  and what the operations on it do to the map from indices to objects and access rights.
\<close>

subsection \<open>Handle arithmetic\<close>

lemma small_high_bits:
  assumes "w \<le> (0x3ffffff :: 32 word)"
  shows "w AND 0xfc000000 = 0"
proof -
  have "w < 2 ^ 26" using assms by (simp add: word_le_nat_alt word_less_nat_alt)
  then have "w AND mask 26 = w" by (metis less_mask_eq)
  then have "w AND 0xfc000000 = w AND (mask 26 AND 0xfc000000)" by (metis and.assoc)
  moreover have "mask 26 AND 0xfc000000 = (0 :: 32 word)" by (simp add: mask_eq_exp_minus_1)
  ultimately show ?thesis by simp
qed

lemma handle_is_global_high:
  "handle_is_global h \<Longrightarrow> h AND 0xfc000000 = 0x54000000"
proof -
  assume "handle_is_global h"
  then have "(h XOR 0x544a4def) \<le> 0x3fffffc" by (simp add: handle_is_global_def)
  then have "(h XOR 0x544a4def) AND 0xfc000000 = 0" by (intro small_high_bits) (erule order_trans, simp)
  then have "(h AND 0xfc000000) XOR (0x544a4def AND 0xfc000000) = 0"
    by (metis and.commute bit.conj_xor_distrib)
  then have "(h AND 0xfc000000) XOR 0x54000000 = 0" by simp
  then have "((h AND 0xfc000000) XOR 0x54000000) XOR 0x54000000 = 0x54000000" by simp
  then show ?thesis by (simp only: xor.assoc xor_self_eq xor.right_neutral)
qed

lemma index_to_handle_unat:
  assumes "0 \<le> i" and "i < 0xffffff"
  shows "unat (index_to_handle i) = nat (4 * (i + 1))"
proof -
  have "uint (index_to_handle i) = 4 * (i + 1)"
    using assms by (simp add: index_to_handle_def push_bit_eq_mult uint_word_ariths uint_word_of_int)
  then show ?thesis by (simp add: unat_eq_nat_uint)
qed

lemma index_to_handle_nonzero: "0 \<le> i \<Longrightarrow> i < 0xffffff \<Longrightarrow> index_to_handle i \<noteq> 0"
  using index_to_handle_unat [of i] by (auto simp: unat_eq_zero [symmetric] simp del: unat_eq_zero)

lemma handle_to_index_to_handle:
  assumes "0 \<le> i" and "i < 0xffffff"
  shows "handle_to_index (index_to_handle i) = i"
proof -
  have u: "uint (index_to_handle i) = 4 * (i + 1)"
    using assms by (simp add: index_to_handle_def push_bit_eq_mult uint_word_ariths uint_word_of_int)
  have "uint (drop_bit 2 (index_to_handle i)) = i + 1"
    unfolding drop_bit_eq_div uint_div_distrib u by simp
  then have "uint (drop_bit 2 (index_to_handle i) - 1) = i"
    using assms by (simp add: uint_word_ariths)
  then have "sint (drop_bit 2 (index_to_handle i) - 1) = i"
    using assms by (simp add: sint_uint signed_take_bit_int_eq_self)
  then show ?thesis by (simp add: handle_to_index_def)
qed

lemma index_to_handle_not_global:
  assumes "0 \<le> i" and "i < 0xffffff"
  shows "\<not> handle_is_global (index_to_handle i)"
proof
  assume "handle_is_global (index_to_handle i)"
  moreover have "index_to_handle i \<le> 0x3ffffff"
    using index_to_handle_unat [OF assms] assms by (simp add: word_le_nat_alt nat_le_iff)
  ultimately show False using handle_is_global_high small_high_bits by fastforce
qed

lemma handle_to_index_eq: "handle_to_index h = uint h div 4 - 1"
proof (cases "uint h div 4 = 0")
  case True
  then have "drop_bit 2 h = 0" by (simp add: drop_bit_eq_div uint_div_distrib word_uint_eq_iff)
  then show ?thesis using True by (simp add: handle_to_index_def)
next
  case False
  have b: "uint h < 4294967296" "0 \<le> uint h" using uint_lt2p [of h] by simp_all
  have d: "uint (drop_bit 2 h) = uint h div 4" by (simp add: drop_bit_eq_div uint_div_distrib)
  have q: "1 \<le> uint h div 4" "uint h div 4 < 1073741824" using False b by linarith+
  have "uint (drop_bit 2 h - 1) = uint h div 4 - 1"
    using q d by (simp add: uint_word_ariths)
  then have "sint (drop_bit 2 h - 1) = uint h div 4 - 1"
    using q by (simp add: sint_uint signed_take_bit_int_eq_self)
  then show ?thesis by (simp add: handle_to_index_def)
qed

text \<open>The index of a global handle before translation lies far outside every table.\<close>

lemma global_index_outside:
  assumes "handle_is_global h"
  shows "handle_to_index h > 0xffffff"
proof -
  have "0x54000000 \<le> h" unfolding handle_is_global_high [OF assms, symmetric] by (rule word_and_le2)
  then have "0x54000000 \<le> uint h" by (simp add: word_le_def)
  then show ?thesis unfolding handle_to_index_eq by linarith
qed

subsection \<open>The invariant of a table\<close>

definition slot_ptr :: "handle_entry option \<Rightarrow> oid option" where
  "slot_ptr sl = (case sl of None \<Rightarrow> None | Some en \<Rightarrow> e_ptr en)"

abbreviation ptr_at :: "handle_table \<Rightarrow> int \<Rightarrow> oid option" where
  "ptr_at t i \<equiv> slot_ptr (slot t i)"

definition wf_table :: "handle_table \<Rightarrow> bool" where
  "wf_table t \<longleftrightarrow>
     int (length (entries t)) = t_count t \<and> MIN_HANDLE_ENTRIES \<le> t_count t \<and> t_count t \<le> MAX_HANDLE_ENTRIES \<and>
     - 1 \<le> t_last t \<and> t_last t < t_count t \<and> 0 \<le> t_free t \<and> t_free t \<le> t_last t + 1 \<and>
     (\<forall>i. 0 \<le> i \<longrightarrow> i \<le> t_last t \<longrightarrow> slot t i \<noteq> None) \<and>
     (\<forall>i. 0 \<le> i \<longrightarrow> i < t_free t \<longrightarrow> ptr_at t i \<noteq> None) \<and>
     (\<forall>i. t_last t < i \<longrightarrow> ptr_at t i = None) \<and>
     (0 \<le> t_last t \<longrightarrow> ptr_at t (t_last t) \<noteq> None)"

text \<open>The abstract table: which object an index stands for, with which access rights.\<close>

definition tmap :: "handle_table \<Rightarrow> int \<Rightarrow> (oid \<times> access) option" where
  "tmap t i = (case slot t i of
     None \<Rightarrow> None
   | Some en \<Rightarrow> (case e_ptr en of None \<Rightarrow> None | Some obj \<Rightarrow> Some (obj, e_access en)))"

text \<open>How many entries of the table refer to an object.\<close>

definition uses :: "handle_table \<Rightarrow> oid \<Rightarrow> nat" where
  "uses t obj = count_list (map slot_ptr (entries t)) (Some obj)"

lemma count_list_update:
  "i < length xs \<Longrightarrow>
   count_list (xs[i := v]) x + (if xs ! i = x then 1 else 0) = count_list xs x + (if v = x then 1 else 0)"
proof (induction xs arbitrary: i)
  case (Cons a xs)
  show ?case
  proof (cases i)
    case (Suc j)
    then show ?thesis using Cons.IH [of j] Cons.prems by (auto split: if_splits)
  qed auto
qed simp

lemma slot_ptr_simps [simp]: "slot_ptr None = None" "slot_ptr (Some en) = e_ptr en"
  by (simp_all add: slot_ptr_def)

lemma tmap_None: "tmap t i = None \<longleftrightarrow> ptr_at t i = None"
  by (auto simp: tmap_def slot_ptr_def split: option.splits)

lemma slot_outside: "\<not> (0 \<le> i \<and> i < int (length (entries t))) \<Longrightarrow> slot t i = None"
  by (auto simp: slot_def)

lemma slot_upd [simp]:
  "slot (t\<lparr>t_last := l\<rparr>) = slot t" "slot (t\<lparr>t_free := f\<rparr>) = slot t"
  "tmap (t\<lparr>t_last := l\<rparr>) = tmap t" "tmap (t\<lparr>t_free := f\<rparr>) = tmap t"
  "uses (t\<lparr>t_last := l\<rparr>) = uses t" "uses (t\<lparr>t_free := f\<rparr>) = uses t"
  by (auto simp: slot_def tmap_def uses_def fun_eq_iff)

lemma set_slot_ok:
  assumes "0 \<le> i" and "i < int (length (entries t))"
  obtains t' where "set_slot t i en = Some t'"
    and "slot t' = (slot t)(i := Some en)" and "length (entries t') = length (entries t)"
    and "t_count t' = t_count t" "t_last t' = t_last t" "t_free t' = t_free t" "t_process t' = t_process t"
    and "\<And>obj. uses t' obj + (if ptr_at t i = Some obj then 1 else 0) =
           uses t obj + (if e_ptr en = Some obj then 1 else 0)"
proof
  let ?t = "t\<lparr>entries := (entries t)[nat i := Some en]\<rparr>"
  show "set_slot t i en = Some ?t" using assms by (simp add: set_slot_def)
  show "slot ?t = (slot t)(i := Some en)"
    using assms by (auto simp: slot_def fun_eq_iff nth_list_update nat_eq_iff)
  show "uses ?t obj + (if ptr_at t i = Some obj then 1 else 0) =
      uses t obj + (if e_ptr en = Some obj then 1 else 0)" for obj
  proof -
    have "nat i < length (map slot_ptr (entries t))" using assms by simp
    from count_list_update [OF this, of "e_ptr en" "Some obj"] show ?thesis
      using assms by (simp add: uses_def map_update slot_def nat_less_iff)
  qed
qed simp_all

lemma tmap_set_slot:
  "slot t' = (slot t)(i := Some en) \<Longrightarrow>
   tmap t' = (tmap t)(i := (case e_ptr en of None \<Rightarrow> None | Some obj \<Rightarrow> Some (obj, e_access en)))"
  by (auto simp: tmap_def fun_eq_iff)

subsection \<open>Allocating an entry\<close>

lemma find_free_ok:
  assumes "wf_table t"
  shows "t_free t \<le> i \<Longrightarrow> i \<le> t_last t + 1 \<Longrightarrow>
     \<exists>j. find_free t i = Some j \<and> i \<le> j \<and> j \<le> t_last t + 1 \<and> ptr_at t j = None \<and>
       (\<forall>k. i \<le> k \<longrightarrow> k < j \<longrightarrow> ptr_at t k \<noteq> None)"
proof (induction "nat (t_last t + 1 - i)" arbitrary: i rule: less_induct)
  case less
  have i0: "0 \<le> i" using less.prems assms by (simp add: wf_table_def)
  show ?case
  proof (cases "i \<le> t_last t")
    case False
    then have "find_free t i = Some i" by (simp add: find_free.simps)
    moreover have "ptr_at t i = None" using False assms by (simp add: wf_table_def)
    ultimately show ?thesis using less.prems by auto
  next
    case True
    then obtain en where en: "slot t i = Some en" using assms i0 by (fastforce simp: wf_table_def)
    show ?thesis
    proof (cases "e_ptr en = None")
      case True
      then show ?thesis using en less.prems \<open>i \<le> t_last t\<close> by (auto simp: find_free.simps [of t i])
    next
      case False
      then have eq: "find_free t i = find_free t (i + 1)" using en True by (auto simp: find_free.simps [of t i])
      obtain j where j: "find_free t (i + 1) = Some j" "i + 1 \<le> j" "j \<le> t_last t + 1" "ptr_at t j = None"
          "\<forall>k. i + 1 \<le> k \<longrightarrow> k < j \<longrightarrow> ptr_at t k \<noteq> None"
        using less.hyps [of "i + 1"] less.prems True by auto
      have "ptr_at t k \<noteq> None" if "i \<le> k" "k < j" for k
        using that j(5) en False by (cases "k = i") auto
      then show ?thesis using eq j by auto
    qed
  qed
qed

text \<open>The entry \<open>alloc_entry\<close> picks: the first one without an object.\<close>

definition first_free :: "handle_table \<Rightarrow> int \<Rightarrow> bool" where
  "first_free t i \<longleftrightarrow> 0 \<le> i \<and> i \<le> t_last t + 1 \<and> tmap t i = None \<and> (\<forall>k. 0 \<le> k \<longrightarrow> k < i \<longrightarrow> tmap t k \<noteq> None)"

lemma find_free_first:
  assumes "wf_table t"
  obtains i where "find_free t (t_free t) = Some i" and "first_free t i"
proof -
  have "t_free t \<le> t_last t + 1" using assms by (simp add: wf_table_def)
  then obtain j where j: "find_free t (t_free t) = Some j" "t_free t \<le> j" "j \<le> t_last t + 1" "ptr_at t j = None"
      "\<forall>k. t_free t \<le> k \<longrightarrow> k < j \<longrightarrow> ptr_at t k \<noteq> None"
    using find_free_ok [OF assms order_refl] by auto
  have "ptr_at t k \<noteq> None" if "0 \<le> k" "k < j" for k
    using that j(5) assms by (cases "k < t_free t") (auto simp: wf_table_def)
  then have "first_free t j" using j assms by (auto simp: first_free_def tmap_None wf_table_def)
  with j(1) show ?thesis by (rule that)
qed

lemma wf_table_insert:
  assumes wf: "wf_table t" and i: "first_free t i" "i < int (length (entries t'))"
    and cnt: "int (length (entries t')) = t_count t'" "t_count t \<le> t_count t'" "t_count t' \<le> MAX_HANDLE_ENTRIES"
    and sl: "slot t' = (slot t)(i := Some en)" and en: "e_ptr en \<noteq> None"
    and l: "t_last t' = max (t_last t) i" and fr: "t_free t' = i + 1"
  shows "wf_table t'"
  using assms unfolding wf_table_def first_free_def tmap_None by (auto simp: max_def)

lemma grow_handle_table_ok:
  assumes wf: "wf_table t" and g: "grow_handle_table t e = (ok, t', e')"
  shows "env_step e e'" and "\<not> ok \<Longrightarrow> t' = t \<and> cur_error e' = STATUS_INSUFFICIENT_RESOURCES"
    and "ok \<Longrightarrow> t_count t < t_count t' \<and> t_count t' \<le> MAX_HANDLE_ENTRIES \<and> int (length (entries t')) = t_count t' \<and>
      slot t' = slot t \<and> uses t' = uses t \<and> t_last t' = t_last t \<and> t_process t' = t_process t"
    and "\<not> ok \<Longrightarrow> mem_ok e \<Longrightarrow> t_count t = MAX_HANDLE_ENTRIES"
proof -
  let ?c = "min (t_count t * 2) MAX_HANDLE_ENTRIES"
  obtain okc ec where c: "c_alloc e = (okc, ec)" by (rule prod.exhaust)
  have len: "int (length (entries t)) = t_count t" "32 \<le> t_count t" "t_count t \<le> MAX_HANDLE_ENTRIES"
    using wf by (auto simp: wf_table_def)
  have res: "(ok, t', e') = (if ?c = t_count t \<or> \<not> okc
      then (False, t, set_error STATUS_INSUFFICIENT_RESOURCES (if ?c = t_count t then e else ec))
      else (True, t\<lparr>t_count := ?c, entries := entries t @ replicate (nat (?c - t_count t)) None\<rparr>, ec))"
    using g c unfolding grow_handle_table_def Let_def by (cases okc) (simp_all split: if_splits)
  have ext: "slot (t\<lparr>t_count := n, entries := entries t @ replicate k None\<rparr>) = slot t" for n k
    by (auto simp: slot_def fun_eq_iff nth_append nat_less_iff)
  have us: "uses (t\<lparr>t_count := n, entries := entries t @ replicate k None\<rparr>) = uses t" for n k
  proof -
    have "count_list (map slot_ptr (replicate k None)) (Some obj) = 0" for obj by (induction k) auto
    then show ?thesis by (simp add: uses_def fun_eq_iff)
  qed
  show "env_step e e'" using res c_alloc_step [OF c] by (auto split: if_splits)
  show "\<not> ok \<Longrightarrow> t' = t \<and> cur_error e' = STATUS_INSUFFICIENT_RESOURCES" using res by (auto split: if_splits)
  show "ok \<Longrightarrow> t_count t < t_count t' \<and> t_count t' \<le> MAX_HANDLE_ENTRIES \<and> int (length (entries t')) = t_count t' \<and>
      slot t' = slot t \<and> uses t' = uses t \<and> t_last t' = t_last t \<and> t_process t' = t_process t"
    using res len ext us by (auto split: if_splits)
  show "\<not> ok \<Longrightarrow> mem_ok e \<Longrightarrow> t_count t = MAX_HANDLE_ENTRIES"
    using res len c_alloc_ok [OF _ c] by (auto split: if_splits)
qed

lemma alloc_entry_ok:
  assumes wf: "wf_table t" and gr: "grab_object_for_handle obj s = Some s1"
  obtains (full) e' where "alloc_entry t obj acc s e = Some (0, t, s, e')" and "env_step e e'"
      and "cur_error e' = STATUS_INSUFFICIENT_RESOURCES"
      and "mem_ok e \<Longrightarrow> \<forall>i. 0 \<le> i \<longrightarrow> i < MAX_HANDLE_ENTRIES \<longrightarrow> tmap t i \<noteq> None"
    | (new) i t' e' where "alloc_entry t obj acc s e = Some (index_to_handle i, t', s1, e')" and "env_step e e'"
      and "first_free t i" and "i < MAX_HANDLE_ENTRIES" and "wf_table t'" and "tmap t' = (tmap t)(i \<mapsto> (obj, acc))"
      and "\<And>o'. uses t' o' = uses t o' + (if o' = obj then 1 else 0)" and "t_process t' = t_process t"
proof -
  obtain i where fi: "find_free t (t_free t) = Some i" and i: "first_free t i" by (rule find_free_first [OF wf])
  have i0: "0 \<le> i" "i \<le> t_last t + 1" using i by (auto simp: first_free_def)
  have cnt: "int (length (entries t)) = t_count t" "t_count t \<le> MAX_HANDLE_ENTRIES" "t_last t < t_count t"
    using wf by (auto simp: wf_table_def)
  obtain gok gt ge where g: "grow_handle_table t e = (gok, gt, ge)" by (rule prod_cases3)
  note G = grow_handle_table_ok [OF wf g]
  define ok where "ok \<longleftrightarrow> i < t_count t \<or> gok"
  define t1 where "t1 = (if i < t_count t then t else gt)"
  define e1 where "e1 = (if i < t_count t then e else ge)"
  have unf: "alloc_entry t obj acc s e =
      (if \<not> ok then Some (0, t1, s, e1)
       else do { t2 \<leftarrow> set_slot (t1\<lparr>t_last := max (t_last t) i, t_free := i + 1\<rparr>) i \<lparr>e_ptr = Some obj, e_access = acc\<rparr>;
                 Some (index_to_handle i, t2, s1, e1) })"
  proof -
    have "t\<lparr>t_last := t_last t, t_free := x\<rparr> = t\<lparr>t_free := x\<rparr>" for x by simp
    then show ?thesis using fi g gr i0 cnt
      by (auto simp: alloc_entry_def ok_def t1_def e1_def Let_def max_def)
  qed
  show ?thesis
  proof (cases ok)
    case False
    then have f: "\<not> gok" "i \<ge> t_count t" by (auto simp: ok_def)
    have "\<forall>k. 0 \<le> k \<longrightarrow> k < MAX_HANDLE_ENTRIES \<longrightarrow> tmap t k \<noteq> None" if "mem_ok e"
      using G(4) [OF f(1) that] f(2) i by (auto simp: first_free_def)
    then show ?thesis using full [of e1] unf False G(1,2) f by (simp add: t1_def e1_def)
  next
    case True
    let ?t = "t1\<lparr>t_last := max (t_last t) i, t_free := i + 1\<rparr>"
    have len: "i < int (length (entries t1))" "int (length (entries t1)) = t_count t1" "t_count t \<le> t_count t1"
        "t_count t1 \<le> MAX_HANDLE_ENTRIES" "slot t1 = slot t" "uses t1 = uses t" "t_process t1 = t_process t"
      using True cnt G(3) i0 by (auto simp: ok_def t1_def)
    have i': "0 \<le> i" "i < int (length (entries ?t))" using i0 len by auto
    obtain t2 where t2: "set_slot ?t i \<lparr>e_ptr = Some obj, e_access = acc\<rparr> = Some t2"
        "slot t2 = (slot ?t)(i := Some \<lparr>e_ptr = Some obj, e_access = acc\<rparr>)" "length (entries t2) = length (entries ?t)"
        "t_count t2 = t_count ?t" "t_last t2 = t_last ?t" "t_free t2 = t_free ?t" "t_process t2 = t_process ?t"
        "\<And>o'. uses t2 o' + (if ptr_at ?t i = Some o' then 1 else 0) = uses ?t o' + (if Some obj = Some o' then 1 else 0)"
      using set_slot_ok [OF i', of "\<lparr>e_ptr = Some obj, e_access = acc\<rparr>"] by auto
    have ptr: "ptr_at t i = None" using i by (simp add: first_free_def tmap_None)
    show ?thesis
    proof (rule new)
      show "alloc_entry t obj acc s e = Some (index_to_handle i, t2, s1, e1)" using unf True t2(1) by simp
      show "env_step e e1" using G(1) by (simp add: e1_def)
      show "wf_table t2" by (rule wf_table_insert [OF wf i]) (use t2 len in auto)
      show "tmap t2 = (tmap t)(i \<mapsto> (obj, acc))" using tmap_set_slot [OF t2(2)] len(5) by (auto simp: tmap_def fun_eq_iff)
      show "uses t2 o' = uses t o' + (if o' = obj then 1 else 0)" for o' using t2(8) [of o'] ptr len by simp
    qed (use i len t2 in auto)
  qed
qed

subsection \<open>Removing entries and shrinking\<close>

lemma trim_last_ok:
  "(\<forall>i. 0 \<le> i \<longrightarrow> i \<le> l \<longrightarrow> slot t i \<noteq> None) \<Longrightarrow> - 1 \<le> l \<Longrightarrow>
   \<exists>l'. trim_last t l = Some l' \<and> - 1 \<le> l' \<and> l' \<le> l \<and> (0 \<le> l' \<longrightarrow> ptr_at t l' \<noteq> None) \<and>
     (\<forall>i. l' < i \<longrightarrow> i \<le> l \<longrightarrow> ptr_at t i = None)"
proof (induction "nat (l + 1)" arbitrary: l rule: less_induct)
  case less
  show ?case
  proof (cases "0 \<le> l")
    case False
    then show ?thesis using less.prems by (auto simp: trim_last.simps)
  next
    case True
    then obtain en where en: "slot t l = Some en" using less.prems(1) by fastforce
    show ?thesis
    proof (cases "e_ptr en = None")
      case False
      then show ?thesis using en True by (auto simp: trim_last.simps [of t l])
    next
      case e: True
      then have eq: "trim_last t l = trim_last t (l - 1)" using en True by (simp add: trim_last.simps [of t l])
      obtain l' where l': "trim_last t (l - 1) = Some l'" "- 1 \<le> l'" "l' \<le> l - 1" "0 \<le> l' \<longrightarrow> ptr_at t l' \<noteq> None"
          "\<forall>i. l' < i \<longrightarrow> i \<le> l - 1 \<longrightarrow> ptr_at t i = None"
        using less.hyps [of "l - 1"] less.prems True by auto
      have "ptr_at t i = None" if "l' < i" "i \<le> l" for i
        using that l'(5) en e by (cases "i = l") auto
      then show ?thesis using eq l' by auto
    qed
  qed
qed

text \<open>The invariant of a table whose last entry may just have been cleared.\<close>

definition wf_open :: "handle_table \<Rightarrow> bool" where
  "wf_open t \<longleftrightarrow>
     int (length (entries t)) = t_count t \<and> MIN_HANDLE_ENTRIES \<le> t_count t \<and> t_count t \<le> MAX_HANDLE_ENTRIES \<and>
     - 1 \<le> t_last t \<and> t_last t < t_count t \<and> 0 \<le> t_free t \<and>
     (\<forall>i. 0 \<le> i \<longrightarrow> i \<le> t_last t \<longrightarrow> slot t i \<noteq> None) \<and>
     (\<forall>i. 0 \<le> i \<longrightarrow> i < t_free t \<longrightarrow> ptr_at t i \<noteq> None) \<and>
     (\<forall>i. t_last t < i \<longrightarrow> ptr_at t i = None)"

lemma wf_table_open:
  "wf_table t \<longleftrightarrow> wf_open t \<and> (0 \<le> t_last t \<longrightarrow> ptr_at t (t_last t) \<noteq> None)"
proof -
  have "t_free t \<le> t_last t + 1" if "wf_open t"
  proof (rule ccontr)
    assume n: "\<not> t_free t \<le> t_last t + 1"
    have w: "- 1 \<le> t_last t" "\<forall>i. 0 \<le> i \<longrightarrow> i < t_free t \<longrightarrow> ptr_at t i \<noteq> None" "\<forall>i. t_last t < i \<longrightarrow> ptr_at t i = None"
      using that unfolding wf_open_def by blast+
    then show False using n w(2) [rule_format, of "t_last t + 1"] w(3) [rule_format, of "t_last t + 1"] by simp
  qed
  then show ?thesis unfolding wf_table_def wf_open_def by blast
qed

lemma count_none: "\<forall>x \<in> set xs. slot_ptr x = None \<Longrightarrow> count_list (map slot_ptr xs) (Some obj) = 0"
  by (induction xs) auto

lemma take_entries:
  assumes "\<forall>i. l < i \<longrightarrow> ptr_at t i = None" and "- 1 \<le> l" and "l < int n"
  shows "tmap (t\<lparr>t_last := l', t_count := c, entries := take n (entries t)\<rparr>) = tmap t"
    and "uses (t\<lparr>t_last := l', t_count := c, entries := take n (entries t)\<rparr>) = uses t"
    and "i \<le> l \<Longrightarrow> slot (t\<lparr>t_last := l', t_count := c, entries := take n (entries t)\<rparr>) i = slot t i"
    and "l < i \<Longrightarrow> ptr_at (t\<lparr>t_last := l', t_count := c, entries := take n (entries t)\<rparr>) i = None"
proof -
  let ?t = "t\<lparr>t_last := l', t_count := c, entries := take n (entries t)\<rparr>"
  have sl: "slot ?t j = (if j < int n then slot t j else None)" for j
    by (auto simp: slot_def nat_less_iff)
  show "i \<le> l \<Longrightarrow> slot ?t i = slot t i" using sl assms by simp
  have none: "ptr_at t j = None" if "int n \<le> j" for j using that assms by simp
  have "tmap ?t j = tmap t j" for j
    using sl [of j] none [of j] tmap_None [of t j] by (cases "j < int n") (simp_all add: tmap_def)
  then show "tmap ?t = tmap t" by blast
  show "l < i \<Longrightarrow> ptr_at ?t i = None" using sl assms(1) by simp
  have "slot_ptr x = None" if x: "x \<in> set (drop n (entries t))" for x
  proof -
    obtain k where "k < length (entries t) - n" "x = entries t ! (n + k)"
      using x by (auto simp: in_set_conv_nth add.commute)
    then show ?thesis using none [of "int (n + k)"] by (auto simp: slot_def nat_add_distrib split: if_splits)
  qed
  then have "count_list (map slot_ptr (drop n (entries t))) (Some obj) = 0" for obj by (intro count_none) simp
  then have "count_list (map slot_ptr (take n (entries t) @ drop n (entries t))) (Some obj) =
      count_list (map slot_ptr (take n (entries t))) (Some obj)" for obj
    by (simp only: map_append count_list_append add_0_right)
  then show "uses ?t = uses t" by (simp add: uses_def fun_eq_iff)
qed

lemma shrink_handle_table_ok:
  assumes wf: "wf_open t"
  obtains t' e' where "shrink_handle_table t e = Some (t', e')" and "wf_table t'" and "tmap t' = tmap t"
    and "uses t' = uses t" and "env_step e e'" and "cur_error e' = cur_error e" and "t_process t' = t_process t"
proof -
  obtain l where l: "trim_last t (t_last t) = Some l" "- 1 \<le> l" "l \<le> t_last t" "0 \<le> l \<longrightarrow> ptr_at t l \<noteq> None"
      "\<forall>i. l < i \<longrightarrow> i \<le> t_last t \<longrightarrow> ptr_at t i = None"
    using trim_last_ok [of "t_last t" t] wf by (auto simp: wf_open_def)
  have none: "\<forall>i. l < i \<longrightarrow> ptr_at t i = None"
  proof (intro allI impI)
    fix i assume "l < i"
    then show "ptr_at t i = None" using l(5) wf by (cases "i \<le> t_last t") (auto simp: wf_open_def)
  qed
  let ?t = "t\<lparr>t_last := l\<rparr>"
  let ?s = "?t\<lparr>t_count := t_count t div 2, entries := take (nat (t_count t div 2)) (entries t)\<rparr>"
  have wt: "wf_table ?t" using wf l none by (auto simp: wf_table_open wf_open_def)
  obtain ok ec where c: "c_alloc e = (ok, ec)" by (rule prod.exhaust)
  have ec: "env_step e ec" "cur_error ec = cur_error e"
    using c by (auto simp: c_alloc_step) (auto simp: c_alloc_def)
  show ?thesis
  proof (cases "l \<ge> t_count t div 4 \<or> t_count t < 64 \<or> \<not> ok")
    case True
    have "shrink_handle_table t e = Some (?t, e) \<or> shrink_handle_table t e = Some (?t, ec)"
      using True l(1) c by (cases ok) (auto simp: shrink_handle_table_def Let_def)
    then show ?thesis using that [of ?t e] that [of ?t ec] wt ec by auto
  next
    case False
    have res: "shrink_handle_table t e = Some (?s, ec)"
      using False l(1) c by (auto simp: shrink_handle_table_def Let_def)
    have n: "l < int (nat (t_count t div 2))" using False l(2) by auto
    note T = take_entries [OF none l(2) n, where l' = l and c = "t_count t div 2"]
    have len: "int (length (entries t)) = t_count t" "32 \<le> t_count t" "t_count t \<le> MAX_HANDLE_ENTRIES" "0 \<le> t_free t"
      using wf by (auto simp: wf_open_def)
    have fr: "t_free t \<le> l + 1" using wt by (simp add: wf_table_def)
    have at: "slot ?s i = slot ?t i" if "i \<le> l" for i using T(3) [OF that] by simp
    have "int (length (entries ?s)) = t_count t div 2" using len by (simp add: min_def nat_le_iff)
    moreover have "slot ?s i \<noteq> None" if "0 \<le> i" "i \<le> l" for i
      using wt that at [OF that(2)] unfolding wf_table_def by simp
    moreover have "ptr_at ?s i \<noteq> None" if "0 \<le> i" "i < t_free t" for i
      using wt that at [of i] fr unfolding wf_table_def by simp
    moreover have "0 \<le> l \<longrightarrow> ptr_at ?s l \<noteq> None" using l(4) at [of l] by simp
    moreover have "MIN_HANDLE_ENTRIES \<le> t_count t div 2 \<and> t_count t div 2 \<le> MAX_HANDLE_ENTRIES"
      using False len by linarith
    ultimately have "wf_table ?s"
      unfolding wf_table_def using False len n l(2) T(4) fr by simp
    then show ?thesis using that [OF res] T(1,2) ec by simp
  qed
qed

lemma clear_entry_ok:
  assumes wf: "wf_table t" and sl: "slot t i = Some d" and p: "e_ptr d = Some obj"
  obtains t1 where "set_slot t i (d\<lparr>e_ptr := None\<rparr>) = Some t1" and "t_last t1 = t_last t"
    and "t_process t1 = t_process t"
    and "tmap t1 = (tmap t)(i := None)" and "\<And>o'. uses t1 o' + (if o' = obj then 1 else 0) = uses t o'"
    and "wf_open (if i < t_free t1 then t1\<lparr>t_free := i\<rparr> else t1)"
    and "i \<noteq> t_last t \<Longrightarrow> wf_table (if i < t_free t1 then t1\<lparr>t_free := i\<rparr> else t1)"
proof -
  have i: "0 \<le> i" "i < int (length (entries t))" using sl by (auto simp: slot_def split: if_splits)
  obtain t1 where t1: "set_slot t i (d\<lparr>e_ptr := None\<rparr>) = Some t1" "slot t1 = (slot t)(i := Some (d\<lparr>e_ptr := None\<rparr>))"
      "length (entries t1) = length (entries t)" "t_count t1 = t_count t" "t_last t1 = t_last t" "t_free t1 = t_free t"
      "t_process t1 = t_process t"
      "\<And>o'. uses t1 o' + (if ptr_at t i = Some o' then 1 else 0) = uses t o' + (if e_ptr (d\<lparr>e_ptr := None\<rparr>) = Some o' then 1 else 0)"
    using set_slot_ok [OF i, where en = "d\<lparr>e_ptr := None\<rparr>"] by blast
  have w: "wf_open t" using wf by (simp add: wf_table_open)
  have at: "slot t1 j \<noteq> None \<longleftrightarrow> slot t j \<noteq> None" "ptr_at t1 j = (if j = i then None else ptr_at t j)" for j
    using t1(2) sl by auto
  have op: "wf_open (if i < t_free t1 then t1\<lparr>t_free := i\<rparr> else t1)"
    using w t1(3-6) at i unfolding wf_open_def by simp
  show ?thesis
  proof (rule that [OF t1(1,5,7)])
    show "tmap t1 = (tmap t)(i := None)" using tmap_set_slot [OF t1(2)] by simp
    show "uses t1 o' + (if o' = obj then 1 else 0) = uses t o'" for o' using t1(8) [of o'] sl p by (auto split: if_splits)
    show "wf_table (if i < t_free t1 then t1\<lparr>t_free := i\<rparr> else t1)" if "i \<noteq> t_last t"
      using op that wf t1 unfolding wf_table_open by auto
  qed (rule op)
qed

end
