(* ===== verification/Handle_Inv.thy ===== *)
theory Handle_Inv
  imports Handle_Table
begin

text \<open>
  The invariant of the handle tables and the object store together, and its preservation: the
  handle count of an object is the number of table entries that refer to it, every entry
  refers to a live object, and no operation on local handles touches memory it must not.
\<close>

subsection \<open>Counting handles\<close>

definition handle_total :: "server \<Rightarrow> oid \<Rightarrow> nat" where
  "handle_total s obj =
     (\<Sum>p | handles s p \<noteq> None. uses (the (handles s p)) obj) +
     (case global_table s of None \<Rightarrow> 0 | Some t \<Rightarrow> uses t obj)"

definition uses_at :: "server \<Rightarrow> table_ref \<Rightarrow> oid \<Rightarrow> nat" where
  "uses_at s r obj = (case table_at s r of None \<Rightarrow> 0 | Some t \<Rightarrow> uses t obj)"

definition tables_ok :: "server \<Rightarrow> bool" where
  "tables_ok s \<longleftrightarrow> finite {p. handles s p \<noteq> None} \<and> (\<forall>r t. table_at s r = Some t \<longrightarrow> wf_table t)"

text \<open>
  \<open>x\<close> are the handle references an operation holds outside the tables (a table under
  construction, an entry just removed), \<open>g\<close> the plain references it holds.
\<close>

definition accounts :: "(oid \<Rightarrow> nat) \<Rightarrow> (oid \<Rightarrow> nat) \<Rightarrow> server \<Rightarrow> bool" where
  "accounts x g s \<longleftrightarrow>
     (\<forall>obj. case objects s obj of
        None \<Rightarrow> handle_total s obj = 0 \<and> x obj = 0 \<and> g obj = 0
      | Some ob \<Rightarrow> handle_count ob = handle_total s obj + x obj \<and>
                   handle_count ob + g obj \<le> refcount ob \<and> 0 < refcount ob)"

definition server_ok :: "server \<Rightarrow> bool" where
  "server_ok s \<longleftrightarrow> tables_ok s \<and> accounts (\<lambda>_. 0) (\<lambda>_. 0) s"

text \<open>The part of the state the operations on objects leave alone.\<close>

definition same_tables :: "server \<Rightarrow> server \<Rightarrow> bool" where
  "same_tables s s' \<longleftrightarrow>
     handles s' = handles s \<and> global_table s' = global_table s \<and> ops_tab s' = ops_tab s \<and>
     process_token s' = process_token s \<and> process_of_obj s' = process_of_obj s"

lemma same_tables_refl [simp]: "same_tables s s"
  by (simp add: same_tables_def)

lemma same_tables_trans: "same_tables s s' \<Longrightarrow> same_tables s' s'' \<Longrightarrow> same_tables s s''"
  by (simp add: same_tables_def)

lemma same_tables_facts:
  assumes "same_tables s s'"
  shows "handle_total s' = handle_total s" and "tables_ok s' = tables_ok s" and "table_at s' = table_at s"
    and "uses_at s' = uses_at s" and "get_handle process h s' = get_handle process h s"
    and "get_magic_handle cur h s' = get_magic_handle cur h s"
proof -
  have h: "handles s' = handles s" "global_table s' = global_table s" "process_token s' = process_token s"
    using assms by (simp_all add: same_tables_def)
  then show t: "table_at s' = table_at s" by (intro ext) (simp add: table_at_def split: table_ref.splits)
  show "handle_total s' = handle_total s" using h by (intro ext) (simp add: handle_total_def)
  show "tables_ok s' = tables_ok s" using h t by (simp add: tables_ok_def)
  show "uses_at s' = uses_at s" using t by (intro ext) (simp add: uses_at_def)
  show "get_handle process h s' = get_handle process h s" unfolding get_handle_def t ..
  show "get_magic_handle cur h s' = get_magic_handle cur h s"
    unfolding get_magic_handle_def thread_get_impersonation_token_def h(3) ..
qed

lemma upd_type_simps [simp]:
  "objects (upd_type t f s) = objects s" "same_tables s (upd_type t f s)"
  "ops_tab (upd_type t f s) = ops_tab s"
  "handle_total (upd_type t f s) = handle_total s" "table_at (upd_type t f s) = table_at s"
  by (auto simp: upd_type_def same_tables_def handle_total_def table_at_def fun_eq_iff split: table_ref.splits)

lemma upd_obj_simps [simp]:
  "objects (upd_obj obj ob s) = (objects s)(obj \<mapsto> ob)" "same_tables s (upd_obj obj ob s)"
  "ops_tab (upd_obj obj ob s) = ops_tab s"
  "handle_total (upd_obj obj ob s) = handle_total s" "table_at (upd_obj obj ob s) = table_at s"
  by (auto simp: upd_obj_def same_tables_def handle_total_def table_at_def fun_eq_iff split: table_ref.splits)

lemma handle_total_put:
  assumes "tables_ok s"
  shows "handle_total (put_table r t s) obj + uses_at s r obj = handle_total s obj + uses t obj"
proof (cases r)
  case (Local p)
  have fin: "finite {q. handles s q \<noteq> None}" using assms by (simp add: tables_ok_def)
  let ?s = "put_table r t s"
  have set: "{q. handles ?s q \<noteq> None} = insert p {q. handles s q \<noteq> None}" by (auto simp: Local put_table_def)
  have rest: "(\<Sum>q \<in> {q. handles s q \<noteq> None} - {p}. uses (the (handles ?s q)) obj) =
      (\<Sum>q \<in> {q. handles s q \<noteq> None} - {p}. uses (the (handles s q)) obj)"
    by (rule sum.cong) (auto simp: Local put_table_def)
  have new: "(\<Sum>q | handles ?s q \<noteq> None. uses (the (handles ?s q)) obj) =
      uses t obj + (\<Sum>q \<in> {q. handles s q \<noteq> None} - {p}. uses (the (handles s q)) obj)"
    unfolding set using fin rest by (subst sum.insert_remove) (auto simp: Local put_table_def)
  have old: "(\<Sum>q | handles s q \<noteq> None. uses (the (handles s q)) obj) =
      uses_at s r obj + (\<Sum>q \<in> {q. handles s q \<noteq> None} - {p}. uses (the (handles s q)) obj)"
  proof (cases "handles s p")
    case None
    then have "{q. handles s q \<noteq> None} - {p} = {q. handles s q \<noteq> None}" by auto
    then show ?thesis using None by (simp add: Local uses_at_def table_at_def)
  next
    case (Some t')
    then show ?thesis using sum.remove [OF fin, of p "\<lambda>q. uses (the (handles s q)) obj"]
      by (simp add: Local uses_at_def table_at_def)
  qed
  have "global_table ?s = global_table s" by (simp add: Local put_table_def)
  then show ?thesis using new old by (simp add: handle_total_def)
next
  case Global
  then show ?thesis
    by (auto simp: handle_total_def put_table_def uses_at_def table_at_def split: option.splits)
qed

lemma tables_ok_put: "tables_ok s \<Longrightarrow> wf_table t \<Longrightarrow> tables_ok (put_table r t s)"
proof -
  assume a: "tables_ok s" "wf_table t"
  have "{p. handles (put_table r t s) p \<noteq> None} \<subseteq> {p. handles s p \<noteq> None} \<union> (case r of Local p \<Rightarrow> {p} | Global \<Rightarrow> {})"
    by (auto simp: put_table_def split: table_ref.splits if_splits)
  moreover have "finite ({p. handles s p \<noteq> None} \<union> (case r of Local p \<Rightarrow> {p} | Global \<Rightarrow> {}))"
    using a(1) by (auto simp: tables_ok_def split: table_ref.splits)
  ultimately have "finite {p. handles (put_table r t s) p \<noteq> None}" by (rule finite_subset)
  moreover have "table_at (put_table r t s) r' = (if r' = r then Some t else table_at s r')" for r'
    by (auto simp: put_table_def table_at_def split: table_ref.splits)
  ultimately show ?thesis using a by (auto simp: tables_ok_def)
qed

lemma table_at_put [simp]: "table_at (put_table r t s) = (table_at s)(r \<mapsto> t)"
  by (auto simp: put_table_def table_at_def fun_eq_iff split: table_ref.splits)

lemma put_table_objects [simp]: "objects (put_table r t s) = objects s" "ops_tab (put_table r t s) = ops_tab s"
  by (auto simp: put_table_def split: table_ref.splits)

lemma uses_at_le_total: "tables_ok s \<Longrightarrow> uses_at s r obj \<le> handle_total s obj"
proof (cases "table_at s r")
  case (Some t)
  assume ok: "tables_ok s"
  show ?thesis
  proof (cases r)
    case (Local p)
    then have "p \<in> {q. handles s q \<noteq> None}" "uses_at s r obj = uses (the (handles s p)) obj"
      using Some by (auto simp: table_at_def uses_at_def)
    then show ?thesis
      using ok member_le_sum [of p "{q. handles s q \<noteq> None}" "\<lambda>q. uses (the (handles s q)) obj"]
      by (simp add: handle_total_def tables_ok_def)
  qed (simp add: uses_at_def table_at_def handle_total_def)
qed (simp add: uses_at_def)

lemma tmap_uses: "tmap t i = Some (obj, acc) \<Longrightarrow> 0 < uses t obj"
proof -
  assume "tmap t i = Some (obj, acc)"
  then have "0 \<le> i" "i < int (length (entries t))" "slot_ptr (entries t ! nat i) = Some obj"
    by (auto simp: tmap_def slot_def split: option.splits if_splits)
  then have "entries t ! nat i \<in> set (entries t)" "slot_ptr (entries t ! nat i) = Some obj"
    by (auto simp: nat_less_iff)
  then have "Some obj \<in> set (map slot_ptr (entries t))" by (metis image_eqI set_map)
  then show ?thesis unfolding uses_def by (metis count_list_0_iff neq0_conv)
qed

text \<open>No entry of a table dangles.\<close>

lemma entry_alive:
  assumes ok: "tables_ok s" "accounts x g s" and t: "table_at s r = Some t" and i: "tmap t i = Some (obj, acc)"
  obtains ob where "objects s obj = Some ob"
proof -
  have "0 < handle_total s obj"
    using uses_at_le_total [OF ok(1), of r obj] tmap_uses [OF i] t by (simp add: uses_at_def)
  then show ?thesis using ok(2) that by (auto simp: accounts_def split: option.splits dest: spec [of _ obj])
qed

subsection \<open>References\<close>

lemma accounts_obj:
  "accounts x g s \<Longrightarrow> objects s obj = Some ob \<Longrightarrow>
   handle_count ob = handle_total s obj + x obj \<and> handle_count ob + g obj \<le> refcount ob \<and> 0 < refcount ob"
  unfolding accounts_def by (drule spec [of _ obj]) simp

lemma accounts_upd:
  assumes ac: "accounts x g s" and ob: "objects s obj = Some ob" and st: "same_tables s s'"
    and new: "objects s' = (objects s)(obj \<mapsto> ob')"
    and c: "handle_count ob' + x obj = handle_count ob + x' obj" "handle_count ob' + g' obj \<le> refcount ob'" "0 < refcount ob'"
    and oth: "\<And>o'. o' \<noteq> obj \<Longrightarrow> x' o' = x o' \<and> g' o' = g o'"
  shows "accounts x' g' s'"
proof -
  have tot: "handle_total s' = handle_total s" by (rule same_tables_facts [OF st])
  have h: "handle_count ob = handle_total s obj + x obj" using accounts_obj [OF ac ob] by simp
  show ?thesis unfolding accounts_def
  proof
    fix o'
    show "case objects s' o' of None \<Rightarrow> handle_total s' o' = 0 \<and> x' o' = 0 \<and> g' o' = 0
      | Some ob \<Rightarrow> handle_count ob = handle_total s' o' + x' o' \<and> handle_count ob + g' o' \<le> refcount ob \<and> 0 < refcount ob"
    proof (cases "o' = obj")
      case True
      then show ?thesis using new c h tot by simp
    next
      case False
      then show ?thesis using ac [unfolded accounts_def, rule_format, of o'] oth [OF False] new tot False by (simp split: option.splits)
    qed
  qed
qed

lemma accounts_freed:
  assumes ac: "accounts x g s" and ob: "objects s obj = Some ob" and st: "same_tables s s'"
    and new: "objects s' = (objects s)(obj := None)"
    and c: "handle_count ob + x' obj = x obj" "g' obj = 0"
    and oth: "\<And>o'. o' \<noteq> obj \<Longrightarrow> x' o' = x o' \<and> g' o' = g o'"
  shows "accounts x' g' s'"
proof -
  have tot: "handle_total s' = handle_total s" by (rule same_tables_facts [OF st])
  have h: "handle_count ob = handle_total s obj + x obj" using accounts_obj [OF ac ob] by simp
  show ?thesis unfolding accounts_def
  proof
    fix o'
    show "case objects s' o' of None \<Rightarrow> handle_total s' o' = 0 \<and> x' o' = 0 \<and> g' o' = 0
      | Some ob \<Rightarrow> handle_count ob = handle_total s' o' + x' o' \<and> handle_count ob + g' o' \<le> refcount ob \<and> 0 < refcount ob"
    proof (cases "o' = obj")
      case True
      then show ?thesis using new c h tot by simp
    next
      case False
      then show ?thesis using ac [unfolded accounts_def, rule_format, of o'] oth [OF False] new tot False by (simp split: option.splits)
    qed
  qed
qed

lemma grab_object_ok:
  assumes "accounts x g s" and "objects s obj = Some ob" and "refcount ob < INT_MAX"
  obtains s' where "grab_object obj s = Some s'" and "accounts x (g(obj := g obj + 1)) s'" and "same_tables s s'"
    and "objects s' = (objects s)(obj \<mapsto> ob\<lparr>refcount := refcount ob + 1\<rparr>)" and "type_tab s' = type_tab s"
proof
  let ?s = "upd_obj obj (ob\<lparr>refcount := refcount ob + 1\<rparr>) s"
  show "grab_object obj s = Some ?s" using assms by (simp add: grab_object_def)
  show "accounts x (g(obj := g obj + 1)) ?s"
    by (rule accounts_upd [OF assms(1,2)]) (use accounts_obj [OF assms(1,2)] in auto)
qed (simp_all add: upd_obj_def same_tables_def)

lemma grab_object_for_handle_ok:
  assumes "accounts x g s" and "objects s obj = Some ob" and "refcount ob < INT_MAX"
  obtains s' where "grab_object_for_handle obj s = Some s'" and "accounts (x(obj := x obj + 1)) g s'" and "same_tables s s'"
    and "objects s' = (objects s)(obj \<mapsto> ob\<lparr>handle_count := handle_count ob + 1, refcount := refcount ob + 1\<rparr>)"
proof
  let ?s = "upd_obj obj (ob\<lparr>handle_count := handle_count ob + 1, refcount := refcount ob + 1\<rparr>)
    (upd_type (type_of_ops s (obj_ops ob))
       (\<lambda>t. t\<lparr>type_handle_count := type_handle_count t + 1,
              type_handle_max := max (type_handle_max t) (type_handle_count t + 1)\<rparr>) s)"
  show "grab_object_for_handle obj s = Some ?s"
    using assms by (simp add: grab_object_for_handle_def grab_object_def) (simp add: upd_obj_def upd_type_def)
  show st: "same_tables s ?s" by (simp add: upd_obj_def upd_type_def same_tables_def)
  show "accounts (x(obj := x obj + 1)) g ?s"
    by (rule accounts_upd [OF assms(1,2) st]) (use accounts_obj [OF assms(1,2)] in auto)
qed simp

lemma release_object_ok:
  assumes ac: "accounts x g s" and g: "0 < g obj"
  obtains s' where "release_object obj s = Some s'" and "accounts x (g(obj := g obj - 1)) s'" and "same_tables s s'"
    and "\<And>o'. o' \<noteq> obj \<Longrightarrow> objects s' o' = objects s o'"
proof -
  obtain ob where ob: "objects s obj = Some ob"
    using ac g unfolding accounts_def by (cases "objects s obj") (auto dest: spec [of _ obj])
  note A = accounts_obj [OF ac ob]
  show ?thesis
  proof (cases "refcount ob = 1")
    case True
    let ?s = "free_object obj ob (s\<lparr>destroyed := destroyed s @ [obj]\<rparr>)"
    have st: "same_tables s ?s" by (simp add: free_object_def upd_type_def same_tables_def)
    have os: "objects ?s = (objects s)(obj := None)" by (simp add: free_object_def)
    have "release_object obj s = Some ?s" using True A g ob by (simp add: release_object_def)
    moreover have "accounts x (g(obj := g obj - 1)) ?s"
      by (rule accounts_freed [OF ac ob st os]) (use True A g in auto)
    ultimately show ?thesis using that st os by simp
  next
    case False
    let ?s = "upd_obj obj (ob\<lparr>refcount := refcount ob - 1\<rparr>) s"
    have "release_object obj s = Some ?s" using False A g ob by (simp add: release_object_def)
    moreover have "accounts x (g(obj := g obj - 1)) ?s"
      by (rule accounts_upd [OF ac ob]) (use False A g in auto)
    ultimately show ?thesis using that by simp
  qed
qed

lemma release_object_from_handle_ok:
  assumes ac: "accounts x g s" and x: "0 < x obj"
  obtains s' where "release_object_from_handle obj s = Some s'" and "accounts (x(obj := x obj - 1)) g s'" and "same_tables s s'"
    and "\<And>o'. o' \<noteq> obj \<Longrightarrow> objects s' o' = objects s o'"
proof -
  obtain ob where ob: "objects s obj = Some ob"
    using ac x unfolding accounts_def by (cases "objects s obj") (auto dest: spec [of _ obj])
  note A = accounts_obj [OF ac ob]
  define ob1 where "ob1 = ob\<lparr>handle_count := handle_count ob - 1\<rparr>"
  define s1 where "s1 = upd_obj obj ob1
    (upd_type (type_of_ops s (obj_ops ob)) (\<lambda>t. t\<lparr>type_handle_count := type_handle_count t - 1\<rparr>) s)"
  have st: "same_tables s s1" by (simp add: s1_def upd_obj_def upd_type_def same_tables_def)
  have "accounts (x(obj := x obj - 1)) (g(obj := g obj + 1)) s1"
    by (rule accounts_upd [OF ac ob st]) (use A x in \<open>auto simp: s1_def ob1_def\<close>)
  then obtain s' where s': "release_object obj s1 = Some s'"
      "accounts (x(obj := x obj - 1)) ((g(obj := g obj + 1))(obj := (g(obj := g obj + 1)) obj - 1)) s'"
      "same_tables s1 s'" "\<And>o'. o' \<noteq> obj \<Longrightarrow> objects s' o' = objects s1 o'"
    by (rule release_object_ok [of _ _ _ obj]) auto
  have "release_object_from_handle obj s = Some s'"
    using s'(1) ob A x by (simp add: release_object_from_handle_def s1_def ob1_def)
  moreover have "accounts (x(obj := x obj - 1)) g s'" using s'(2) by simp
  moreover have "objects s' o' = objects s o'" if "o' \<noteq> obj" for o' using s'(4) [OF that] that by (simp add: s1_def)
  ultimately show ?thesis using that same_tables_trans [OF st s'(3)] by blast
qed

text \<open>Moving references between a table and an operation.\<close>

lemma accounts_put:
  assumes ok: "tables_ok s" and ac: "accounts x g s"
    and eq: "\<And>o'. uses_at s r o' + x o' = uses t o' + x' o'"
  shows "accounts x' g (put_table r t s)"
  unfolding accounts_def
proof
  fix o'
  have T: "handle_total (put_table r t s) o' + x' o' = handle_total s o' + x o'"
    using handle_total_put [OF ok, of r t o'] eq [of o'] by linarith
  show "case objects (put_table r t s) o' of None \<Rightarrow> handle_total (put_table r t s) o' = 0 \<and> x' o' = 0 \<and> g o' = 0
      | Some ob \<Rightarrow> handle_count ob = handle_total (put_table r t s) o' + x' o' \<and> handle_count ob + g o' \<le> refcount ob \<and>
          0 < refcount ob"
    using ac [unfolded accounts_def, rule_format, of o'] T by (auto split: option.splits)
qed

end
