(* ===== verification/Handle_Ops.thy ===== *)
theory Handle_Ops
  imports Handle_Inv
begin

text \<open>
  The operations of server/handle.c on a server that satisfies the invariant: each one returns,
  keeps the invariant, and acts on the tables as on partial maps from handles to objects and
  access rights.
\<close>

subsection \<open>Looking up a handle\<close>

text \<open>What a handle of a process stands for.\<close>

definition lookup :: "server \<Rightarrow> pid \<Rightarrow> obj_handle \<Rightarrow> (oid \<times> access) option" where
  "lookup s p h =
     (let r = (if handle_is_global h then Global else Local p);
          h' = (if handle_is_global h then handle_global_to_local h else h)
      in case table_at s r of None \<Rightarrow> None | Some t \<Rightarrow> tmap t (handle_to_index h'))"

lemma tmap_entry:
  "tmap t i = Some (obj, acc) \<longleftrightarrow> slot t i = Some \<lparr>e_ptr = Some obj, e_access = acc\<rparr>"
proof -
  have "slot t i = Some en \<Longrightarrow> e_ptr en = Some obj \<Longrightarrow> en = \<lparr>e_ptr = Some obj, e_access = e_access en\<rparr>" for en
    by (cases en) simp
  then show ?thesis by (auto simp: tmap_def split: option.splits)
qed

lemma get_handle_eq:
  assumes "tables_ok s"
  shows "get_handle (Some p) h s = Some (case lookup s p h of
     None \<Rightarrow> None
   | Some (obj, acc) \<Rightarrow>
       Some (if handle_is_global h then Global else Local p,
             handle_to_index (if handle_is_global h then handle_global_to_local h else h),
             \<lparr>e_ptr = Some obj, e_access = acc\<rparr>))"
proof -
  let ?r = "if handle_is_global h then Global else Local p"
  let ?i = "handle_to_index (if handle_is_global h then handle_global_to_local h else h)"
  show ?thesis
  proof (cases "table_at s ?r")
    case None
    then show ?thesis by (simp add: get_handle_def lookup_def Let_def)
  next
    case (Some t)
    then have wf: "wf_table t" using assms by (simp add: tables_ok_def)
    have L: "lookup s p h = tmap t ?i" using Some by (simp add: lookup_def Let_def)
    have G: "get_handle (Some p) h s = (if ?i < 0 then Some None else if ?i > t_last t then Some None
        else case slot t ?i of None \<Rightarrow> None | Some en \<Rightarrow> if e_ptr en = None then Some None else Some (Some (?r, ?i, en)))"
      using Some by (simp add: get_handle_def Let_def)
    show ?thesis
    proof (cases "0 \<le> ?i \<and> ?i \<le> t_last t")
      case False
      then have "tmap t ?i = None"
        using wf slot_outside [of ?i t] by (auto simp: tmap_None wf_table_def not_le)
      then show ?thesis using False G L by auto
    next
      case True
      then obtain en where en: "slot t ?i = Some en" using wf unfolding wf_table_def by fastforce
      then show ?thesis
      proof (cases "e_ptr en")
        case None
        then show ?thesis using en True G L by (simp add: tmap_def)
      next
        case (Some obj)
        then have "en = \<lparr>e_ptr = Some obj, e_access = e_access en\<rparr>" by simp
        then show ?thesis using en True G L Some by (simp add: tmap_def)
      qed
    qed
  qed
qed

lemma lookup_alive:
  assumes "tables_ok s" and "accounts x g s" and "lookup s p h = Some (obj, acc)"
  obtains ob where "objects s obj = Some ob"
proof -
  obtain r t i where "table_at s r = Some t" "tmap t i = Some (obj, acc)"
    using assms(3) by (auto simp: lookup_def Let_def split: option.splits)
  then show ?thesis using entry_alive [OF assms(1,2)] that by blast
qed

lemma same_tables_lookup: "same_tables s s' \<Longrightarrow> lookup s' = lookup s"
  by (intro ext) (simp add: lookup_def same_tables_facts)

subsection \<open>Allocating\<close>

definition with_inherit :: "access \<Rightarrow> access \<Rightarrow> access" where
  "with_inherit attr acc = (if attr AND OBJ_INHERIT \<noteq> 0 then acc OR RESERVED_INHERIT else acc)"

lemma alloc_handle_entry_ok:
  assumes ok: "tables_ok s" "accounts x g s" and t: "handles s p = Some t"
    and ob: "objects s obj = Some ob" "refcount ob < INT_MAX" and res: "acc AND RESERVED_ALL = 0"
  obtains (full) e' where "alloc_handle_entry (Some p) obj acc attr s e = Some (0, s, e')" and "env_step e e'"
      and "cur_error e' = STATUS_INSUFFICIENT_RESOURCES"
      and "mem_ok e \<Longrightarrow> \<forall>i. 0 \<le> i \<longrightarrow> i < MAX_HANDLE_ENTRIES \<longrightarrow> tmap t i \<noteq> None"
    | (new) i t' s' e' where "alloc_handle_entry (Some p) obj acc attr s e = Some (index_to_handle i, s', e')"
      and "env_step e e'" and "first_free t i" and "i < MAX_HANDLE_ENTRIES" and "tables_ok s'" and "accounts x g s'"
      and "table_at s' = (table_at s)(Local p \<mapsto> t')" and "tmap t' = (tmap t)(i \<mapsto> (obj, with_inherit attr acc))"
      and "objects s' = (objects s)(obj \<mapsto> ob\<lparr>handle_count := handle_count ob + 1, refcount := refcount ob + 1\<rparr>)"
proof -
  have wf: "wf_table t" using ok t by (auto simp: tables_ok_def table_at_def split: table_ref.splits)
  obtain s1 where s1: "grab_object_for_handle obj s = Some s1" "accounts (x(obj := x obj + 1)) g s1" "same_tables s s1"
      "objects s1 = (objects s)(obj \<mapsto> ob\<lparr>handle_count := handle_count ob + 1, refcount := refcount ob + 1\<rparr>)"
    by (rule grab_object_for_handle_ok [OF ok(2) ob])
  have unf: "alloc_handle_entry (Some p) obj acc attr s e =
      do { (h, t', s', e') \<leftarrow> alloc_entry t obj (with_inherit attr acc) s e; Some (h, put_table (Local p) t' s', e') }"
    using t res by (simp add: alloc_handle_entry_def with_inherit_def put_table_def Let_def)
  from wf s1(1) show ?thesis
  proof (cases rule: alloc_entry_ok [of t obj s s1 "with_inherit attr acc" e])
    case (full e')
    have "put_table (Local p) t s = s" using t by (simp add: put_table_def fun_upd_idem)
    then show ?thesis using full unf that(1) by simp
  next
    case (new i t' e')
    let ?s = "put_table (Local p) t' s1"
    have ok1: "tables_ok s1" using ok(1) same_tables_facts [OF s1(3)] by simp
    have at: "table_at s1 = table_at s" by (rule same_tables_facts [OF s1(3)])
    have "accounts x g ?s"
      by (rule accounts_put [OF ok1 s1(2)]) (use new(7) t at in \<open>auto simp: uses_at_def table_at_def\<close>)
    moreover have "table_at ?s = (table_at s)(Local p \<mapsto> t')" using at by simp
    ultimately show ?thesis using that(2) [of i ?s e' t'] new unf tables_ok_put [OF ok1 new(5)] s1(4) by simp
  qed
qed

subsection \<open>Closing\<close>

text \<open>Whether an entry may be closed: it is not protected and the type's callback agrees.\<close>

definition closable :: "server \<Rightarrow> pid \<Rightarrow> obj_handle \<Rightarrow> oid \<Rightarrow> access \<Rightarrow> bool" where
  "closable s p h obj acc \<longleftrightarrow> acc AND RESERVED_CLOSE_PROTECT = 0 \<and> close_allowed obj p h s = Some True"

lemma close_allowed_alive: "objects s obj = Some ob \<Longrightarrow> close_allowed obj p h s \<noteq> None"
  by (auto simp: close_allowed_def split: option.splits)

lemma close_handle_refused:
  assumes ok: "tables_ok s" "accounts x g s" and r: "\<And>obj acc. lookup s p h = Some (obj, acc) \<Longrightarrow> \<not> closable s p h obj acc"
  shows "close_handle p h s e =
     Some (if lookup s p h = None then STATUS_INVALID_HANDLE else STATUS_HANDLE_NOT_CLOSABLE, s, e)"
proof (cases "lookup s p h")
  case None
  then show ?thesis by (simp add: close_handle_def get_handle_eq [OF ok(1)] Let_def)
next
  case (Some oa)
  obtain obj acc where oa: "oa = (obj, acc)" by (rule prod.exhaust)
  obtain ob where "objects s obj = Some ob" using lookup_alive [OF ok] Some oa by blast
  then obtain b where b: "close_allowed obj p h s = Some b" using close_allowed_alive [of s obj ob p h] by blast
  then show ?thesis using Some oa r [of obj acc]
    by (auto simp: close_handle_def get_handle_eq [OF ok(1)] Let_def closable_def)
qed

lemma close_handle_done:
  assumes ok: "tables_ok s" "accounts x g s" and loc: "\<not> handle_is_global h"
    and l: "lookup s p h = Some (obj, acc)" and c: "closable s p h obj acc"
  obtains t t' s' e' where "close_handle p h s e = Some (STATUS_SUCCESS, s', e')" and "env_step e e'"
    and "tables_ok s'" and "accounts x g s'" and "handles s p = Some t" and "table_at s' = (table_at s)(Local p \<mapsto> t')"
    and "tmap t' = (tmap t)(handle_to_index h := None)" and "\<And>o'. o' \<noteq> obj \<Longrightarrow> objects s' o' = objects s o'"
proof -
  let ?i = "handle_to_index h"
  obtain t where t: "handles s p = Some t" and tm: "tmap t ?i = Some (obj, acc)"
    using l loc by (auto simp: lookup_def table_at_def split: option.splits)
  have wf: "wf_table t" using ok t by (auto simp: tables_ok_def table_at_def split: table_ref.splits)
  let ?d = "\<lparr>e_ptr = Some obj, e_access = acc\<rparr>"
  have sl: "slot t ?i = Some ?d" using tm by (simp add: tmap_entry)
  obtain t1 where t1: "set_slot t ?i (?d\<lparr>e_ptr := None\<rparr>) = Some t1" "t_last t1 = t_last t" "t_process t1 = t_process t"
      "tmap t1 = (tmap t)(?i := None)" "\<And>o'. uses t1 o' + (if o' = obj then 1 else 0) = uses t o'"
      "wf_open (if ?i < t_free t1 then t1\<lparr>t_free := ?i\<rparr> else t1)"
      "?i \<noteq> t_last t \<Longrightarrow> wf_table (if ?i < t_free t1 then t1\<lparr>t_free := ?i\<rparr> else t1)"
    by (rule clear_entry_ok [OF wf sl, of obj]) auto
  define t2 where "t2 = (if ?i < t_free t1 then t1\<lparr>t_free := ?i\<rparr> else t1)"
  have t2: "tmap t2 = (tmap t)(?i := None)" "uses t2 = uses t1" "t_last t2 = t_last t"
    using t1 by (auto simp: t2_def)
  obtain t3 e' where t3: "(if ?i = t_last t2 then shrink_handle_table t2 e else Some (t2, e)) = Some (t3, e')"
      "wf_table t3" "tmap t3 = tmap t2" "uses t3 = uses t2" "env_step e e'"
  proof (cases "?i = t_last t2")
    case True
    show ?thesis by (rule shrink_handle_table_ok [OF t1(6), folded t2_def, of e]) (use True that in auto)
  next
    case False
    then show ?thesis using that [of t2 e] t1(7) t2(3) by (simp add: t2_def)
  qed
  let ?s = "put_table (Local p) t3 s"
  have "accounts (x(obj := x obj + 1)) g ?s"
  proof (rule accounts_put [OF ok])
    show "uses_at s (Local p) o' + x o' = uses t3 o' + (x(obj := x obj + 1)) o'" for o'
      using t1(5) [of o'] t2(2) t3(4) t by (auto simp: uses_at_def table_at_def)
  qed
  then obtain s' where s': "release_object_from_handle obj ?s = Some s'"
      "accounts ((x(obj := x obj + 1))(obj := (x(obj := x obj + 1)) obj - 1)) g s'" "same_tables ?s s'"
      "\<And>o'. o' \<noteq> obj \<Longrightarrow> objects s' o' = objects ?s o'"
    by (rule release_object_from_handle_ok [of _ _ _ obj]) auto
  show ?thesis
  proof (rule that [of s' e' t t3])
    have "close_allowed obj p h s = Some True" "acc AND RESERVED_CLOSE_PROTECT = 0" using c by (auto simp: closable_def)
    then have "close_handle p h s e =
        do { (t3, e') \<leftarrow> (if ?i = t_last t2 then shrink_handle_table t2 e else Some (t2, e));
             s' \<leftarrow> release_object_from_handle obj (put_table (Local p) t3 s);
             Some (STATUS_SUCCESS, s', e') }"
      using l loc t sl t1(1) unfolding t2_def
      by (simp add: close_handle_def get_handle_eq [OF ok(1)] Let_def table_at_def)
    then show "close_handle p h s e = Some (STATUS_SUCCESS, s', e')" using t3(1) s'(1) by simp
    show "tables_ok s'" using same_tables_facts(2) [OF s'(3)] tables_ok_put [OF ok(1) t3(2)] by simp
    show "table_at s' = (table_at s)(Local p \<mapsto> t3)" using same_tables_facts(3) [OF s'(3)] by simp
    show "tmap t3 = (tmap t)(?i := None)" using t3(3) t2(1) by simp
  qed (use s' t t3(5) in auto)
qed

lemma destroy_entries_ok:
  assumes "\<forall>sl \<in> set es. sl \<noteq> None"
  shows "accounts (\<lambda>o'. x o' + count_list (map slot_ptr es) (Some o')) g s \<Longrightarrow>
     \<exists>s'. destroy_entries es s = Some s' \<and> accounts x g s' \<and> same_tables s s'"
  using assms
proof (induction es arbitrary: s)
  case (Cons sl es)
  obtain en where en: "sl = Some en" using Cons.prems(2) by auto
  show ?case
  proof (cases "e_ptr en")
    case None
    then show ?thesis using Cons.IH [of s] Cons.prems en by simp
  next
    case (Some obj)
    let ?y = "\<lambda>o'. x o' + count_list (map slot_ptr (sl # es)) (Some o')"
    have "0 < ?y obj" using Some en by simp
    with Cons.prems(1) obtain s1 where s1: "release_object_from_handle obj s = Some s1"
        "accounts (?y(obj := ?y obj - 1)) g s1" "same_tables s s1"
      by (rule release_object_from_handle_ok)
    have "?y(obj := ?y obj - 1) = (\<lambda>o'. x o' + count_list (map slot_ptr es) (Some o'))"
      using Some en by (auto simp: fun_eq_iff)
    then obtain s' where "destroy_entries es s1 = Some s'" "accounts x g s'" "same_tables s1 s'"
      using Cons.IH [of s1] Cons.prems(2) s1(2) by auto
    then show ?thesis using s1 Some en same_tables_trans [OF s1(3)] by auto
  qed
qed auto

lemma uses_take_last:
  assumes wf: "wf_open t"
  shows "uses t obj = count_list (map slot_ptr (take (nat (t_last t + 1)) (entries t))) (Some obj)"
proof -
  have n: "t_last t < int (nat (t_last t + 1))" "- 1 \<le> t_last t" "\<forall>i. t_last t < i \<longrightarrow> ptr_at t i = None"
    using wf unfolding wf_open_def by auto
  have "uses (t\<lparr>t_last := 0, t_count := 0, entries := take (nat (t_last t + 1)) (entries t)\<rparr>) = uses t"
    by (rule take_entries(2) [OF n(3,2,1)])
  then show ?thesis by (simp add: uses_def fun_eq_iff)
qed

lemma take_last_initialised:
  assumes wf: "wf_open t"
  shows "\<forall>sl \<in> set (take (nat (t_last t + 1)) (entries t)). sl \<noteq> None"
proof
  fix sl assume "sl \<in> set (take (nat (t_last t + 1)) (entries t))"
  then obtain k where k: "k < nat (t_last t + 1)" "k < length (entries t)" "sl = entries t ! k"
    by (auto simp: in_set_conv_nth)
  then have "slot t (int k) = sl" by (simp add: slot_def)
  moreover have "slot t (int k) \<noteq> None" using wf k(1) unfolding wf_open_def by auto
  ultimately show "sl \<noteq> None" by simp
qed

lemma close_process_handles_ok:
  assumes ok: "tables_ok s" "accounts (\<lambda>_. 0) g s"
  obtains s' where "close_process_handles p s = Some s'" and "tables_ok s'" and "accounts (\<lambda>_. 0) g s'"
    and "handles s' = (handles s)(p := None)" and "global_table s' = global_table s"
proof (cases "handles s p")
  case None
  then show ?thesis using that [of s] ok by (simp add: close_process_handles_def fun_upd_idem)
next
  case (Some t)
  have wf: "wf_open t"
    using ok Some by (auto simp: tables_ok_def table_at_def wf_table_open split: table_ref.splits)
  let ?s = "s\<lparr>handles := (handles s)(p := None)\<rparr>"
  have fin: "finite {q. handles s q \<noteq> None}" using ok(1) by (simp add: tables_ok_def)
  have set: "{q. handles ?s q \<noteq> None} = {q. handles s q \<noteq> None} - {p}" by auto
  have tok: "tables_ok ?s"
    using ok(1) fin unfolding tables_ok_def set by (auto simp: table_at_def split: table_ref.splits if_splits)
  have tot: "handle_total ?s o' + uses t o' = handle_total s o'" for o'
  proof -
    have "(\<Sum>q \<in> {q. handles s q \<noteq> None} - {p}. uses (the (handles ?s q)) o') =
        (\<Sum>q \<in> {q. handles s q \<noteq> None} - {p}. uses (the (handles s q)) o')" by (rule sum.cong) auto
    then show ?thesis using sum.remove [OF fin, of p "\<lambda>q. uses (the (handles s q)) o'"] Some set
      by (simp add: handle_total_def)
  qed
  have "accounts (uses t) g ?s"
    unfolding accounts_def
  proof
    fix o'
    show "case objects ?s o' of None \<Rightarrow> handle_total ?s o' = 0 \<and> uses t o' = 0 \<and> g o' = 0
      | Some ob \<Rightarrow> handle_count ob = handle_total ?s o' + uses t o' \<and> handle_count ob + g o' \<le> refcount ob \<and> 0 < refcount ob"
      using ok(2) [unfolded accounts_def, rule_format, of o'] tot [of o'] by (auto split: option.splits)
  qed
  moreover have "uses t = (\<lambda>o'. 0 + count_list (map slot_ptr (take (nat (t_last t + 1)) (entries t))) (Some o'))"
    using uses_take_last [OF wf] by auto
  ultimately obtain s' where s': "handle_table_destroy t ?s = Some s'" "accounts (\<lambda>_. 0) g s'" "same_tables ?s s'"
    using destroy_entries_ok [OF take_last_initialised [OF wf], of "\<lambda>_. 0" g ?s] by (auto simp: handle_table_destroy_def)
  show ?thesis
    using that [of s'] s' Some same_tables_facts(2) [OF s'(3)] tok
    by (simp add: close_process_handles_def same_tables_def)
qed

subsection \<open>Inheriting\<close>

definition inherit_entry :: "handle_entry option \<Rightarrow> handle_entry option" where
  "inherit_entry sl = map_option (\<lambda>en. if e_access en AND RESERVED_INHERIT \<noteq> 0 then en else en\<lparr>e_ptr := None\<rparr>) sl"

lemma inherit_entry_ptr:
  "slot_ptr (inherit_entry (Some en)) = (if e_access en AND RESERVED_INHERIT \<noteq> 0 then e_ptr en else None)"
  by (simp add: inherit_entry_def)

lemma inherit_all_ok:
  assumes "\<forall>sl \<in> set es. sl \<noteq> None"
  shows "accounts x g s \<Longrightarrow>
     (\<And>obj. 0 < count_list (map slot_ptr es) (Some obj) \<Longrightarrow>
        \<exists>ob. objects s obj = Some ob \<and> refcount ob + count_list (map slot_ptr es) (Some obj) \<le> INT_MAX) \<Longrightarrow>
     \<exists>s'. inherit_all es s = Some (map inherit_entry es, s') \<and>
       accounts (\<lambda>o'. x o' + count_list (map slot_ptr (map inherit_entry es)) (Some o')) g s' \<and> same_tables s s'"
  using assms
proof (induction es arbitrary: x s)
  case (Cons sl es)
  obtain en where en: "sl = Some en" using Cons.prems(3) by auto
  have init: "\<forall>sl \<in> set es. sl \<noteq> None" using Cons.prems(3) by simp
  show ?case
  proof (cases "e_ptr en \<noteq> None \<and> e_access en AND RESERVED_INHERIT \<noteq> 0")
    case True
    then obtain obj where obj: "e_ptr en = Some obj" by auto
    obtain ob where ob: "objects s obj = Some ob" "refcount ob + count_list (map slot_ptr (sl # es)) (Some obj) \<le> INT_MAX"
      using Cons.prems(2) [of obj] en obj by auto
    then have lt: "refcount ob < INT_MAX" using en obj by simp
    obtain s1 where s1: "grab_object_for_handle obj s = Some s1" "accounts (x(obj := x obj + 1)) g s1" "same_tables s s1"
        "objects s1 = (objects s)(obj \<mapsto> ob\<lparr>handle_count := handle_count ob + 1, refcount := refcount ob + 1\<rparr>)"
      by (rule grab_object_for_handle_ok [OF Cons.prems(1) ob(1) lt])
    have room: "\<exists>ob. objects s1 o' = Some ob \<and> refcount ob + count_list (map slot_ptr es) (Some o') \<le> INT_MAX"
      if "0 < count_list (map slot_ptr es) (Some o')" for o'
      using Cons.prems(2) [of o'] that ob s1(4) en obj by (cases "o' = obj") auto
    obtain s' where s': "inherit_all es s1 = Some (map inherit_entry es, s')"
        "accounts (\<lambda>o'. (x(obj := x obj + 1)) o' + count_list (map slot_ptr (map inherit_entry es)) (Some o')) g s'"
        "same_tables s1 s'"
      using Cons.IH [OF s1(2) room init] by auto
    have "(\<lambda>o'. (x(obj := x obj + 1)) o' + count_list (map slot_ptr (map inherit_entry es)) (Some o')) =
        (\<lambda>o'. x o' + count_list (map slot_ptr (map inherit_entry (sl # es))) (Some o'))"
      using True obj en by (auto simp: fun_eq_iff inherit_entry_ptr)
    moreover have "inherit_entry sl = Some en" using True en by (simp add: inherit_entry_def)
    ultimately show ?thesis
      using s1 s' True obj en same_tables_trans [OF s1(3)] by auto
  next
    case False
    have room: "\<exists>ob. objects s o' = Some ob \<and> refcount ob + count_list (map slot_ptr es) (Some o') \<le> INT_MAX"
      if "0 < count_list (map slot_ptr es) (Some o')" for o'
      using Cons.prems(2) [of o'] that by (fastforce split: if_splits)
    obtain s' where s': "inherit_all es s = Some (map inherit_entry es, s')"
        "accounts (\<lambda>o'. x o' + count_list (map slot_ptr (map inherit_entry es)) (Some o')) g s'" "same_tables s s'"
      using Cons.IH [OF Cons.prems(1) room init] by auto
    have "e_ptr en = None \<Longrightarrow> en\<lparr>e_ptr := None\<rparr> = en" by (cases en) simp
    then have "inherit_entry (Some en) = Some (case e_ptr en of None \<Rightarrow> en | Some _ \<Rightarrow> en\<lparr>e_ptr := None\<rparr>)"
      using False by (cases "e_ptr en") (auto simp: inherit_entry_def)
    then show ?thesis using s' False en by (cases "e_ptr en") auto
  qed
qed simp

lemma alloc_handle_table_result:
  assumes "alloc_handle_table process count e = (res, e')" and "MIN_HANDLE_ENTRIES \<le> count"
  shows "env_step e e' \<and> (mem_ok e \<longrightarrow> res \<noteq> None) \<and> (res = None \<longrightarrow> cur_error e' = STATUS_NO_MEMORY) \<and>
     (\<forall>t. res = Some t \<longrightarrow> t = \<lparr>t_process = process, t_count = count, t_last = -1, t_free = 0,
        entries = replicate (nat count) None\<rparr>)"
proof -
  obtain ok1 e1 where a1: "mem_alloc e = (ok1, e1)" by (rule prod.exhaust)
  obtain ok2 e2 where a2: "mem_alloc e1 = (ok2, e2)" by (rule prod.exhaust)
  have st: "env_step e e1" "env_step e1 e2" using a1 a2 by (auto dest: mem_alloc_step)
  have ok: "mem_ok e \<Longrightarrow> ok1 \<and> ok2" using mem_alloc_ok a1 a2 mem_ok_step [OF _ st(1)] by blast
  show ?thesis
    using assms a1 a2 ok st env_step_trans [OF st] mem_alloc_fail [of e e1] mem_alloc_fail [of e1 e2]
    by (cases ok1; cases ok2) (auto simp: alloc_handle_table_def)
qed

text \<open>The entries a child gets from its parent.\<close>

definition inherited :: "(oid \<times> access) option \<Rightarrow> (oid \<times> access) option" where
  "inherited v = (case v of None \<Rightarrow> None | Some (obj, acc) \<Rightarrow> if acc AND RESERVED_INHERIT \<noteq> 0 then v else None)"

lemma copied_table:
  fixes process :: "pid option"
  assumes wf: "wf_table pt"
  defines "n \<equiv> nat (t_last pt + 1)"
  defines "t \<equiv> \<lparr>t_process = process, t_count = t_count pt, t_last = t_last pt, t_free = 0,
     entries = map inherit_entry (take n (entries pt)) @ drop n (replicate (nat (t_count pt)) None)\<rparr>"
  shows "wf_open t" and "tmap t i = inherited (tmap pt i)"
    and "uses t obj = count_list (map slot_ptr (map inherit_entry (take n (entries pt)))) (Some obj)"
proof -
  have W: "int (length (entries pt)) = t_count pt" "32 \<le> t_count pt" "t_count pt \<le> MAX_HANDLE_ENTRIES"
      "- 1 \<le> t_last pt" "t_last pt < t_count pt" "\<forall>i. 0 \<le> i \<longrightarrow> i \<le> t_last pt \<longrightarrow> slot pt i \<noteq> None"
      "\<forall>i. t_last pt < i \<longrightarrow> ptr_at pt i = None"
    using wf unfolding wf_table_def by blast+
  have n: "n \<le> length (entries pt)" "int n = t_last pt + 1" using W by (auto simp: n_def)
  have sl: "slot t j = (if 0 \<le> j \<and> j \<le> t_last pt then inherit_entry (slot pt j) else None)" for j
    using n W(1) by (auto simp: slot_def t_def nth_append nat_less_iff min_def)
  show "wf_open t"
    unfolding wf_open_def
  proof (intro conjI allI impI)
    show "int (length (entries t)) = t_count t" using n W by (simp add: t_def min_def)
    show "slot t j \<noteq> None" if "0 \<le> j" "j \<le> t_last t" for j
      using that sl W(6) by (auto simp: t_def inherit_entry_def)
    show "ptr_at t j = None" if "t_last t < j" for j using that sl by (simp add: t_def)
  qed (use W in \<open>auto simp: t_def\<close>)
  show "tmap t i = inherited (tmap pt i)"
  proof (cases "0 \<le> i \<and> i \<le> t_last pt")
    case True
    then show ?thesis using sl [of i]
      by (auto simp: tmap_def inherited_def inherit_entry_def split: option.splits)
  next
    case False
    have "tmap pt i = None"
      using False W(7) slot_outside [of i pt] by (auto simp: tmap_None not_le)
    moreover have "slot t i = None" using False sl [of i] by auto
    ultimately show ?thesis by (simp add: tmap_def [of t] inherited_def)
  qed
  show "uses t obj = count_list (map slot_ptr (map inherit_entry (take n (entries pt)))) (Some obj)"
    using count_none [of "drop n (replicate (nat (t_count pt)) None)" obj]
    by (simp add: uses_def t_def drop_replicate)
qed

lemma copy_handle_table_ok:
  assumes ok: "tables_ok s" "accounts (\<lambda>_. 0) g s" and pt: "handles s parent = Some pt"
    and room: "\<And>obj ob. objects s obj = Some ob \<Longrightarrow> refcount ob + uses pt obj \<le> INT_MAX"
  obtains (fail) e' where "copy_handle_table process parent None std s e = Some (None, s, e')"
      and "cur_error e' = STATUS_NO_MEMORY" and "\<not> mem_ok e"
    | (copied) t s' e' where "copy_handle_table process parent None std s e = Some (Some t, s', e')"
      and "wf_table t" and "\<And>i. tmap t i = inherited (tmap pt i)" and "accounts (uses t) g s'" and "same_tables s s'"
proof -
  have wf: "wf_table pt" using ok pt by (auto simp: tables_ok_def table_at_def split: table_ref.splits)
  then have wo: "wf_open pt" and cnt: "32 \<le> t_count pt" by (auto simp: wf_table_open wf_open_def)
  obtain res e1 where a: "alloc_handle_table process (t_count pt) e = (res, e1)" by (rule prod.exhaust)
  note A = alloc_handle_table_result [OF a cnt]
  show ?thesis
  proof (cases res)
    case None
    then show ?thesis using A a pt fail by (auto simp: copy_handle_table_def)
  next
    case (Some t0)
    let ?n = "nat (t_last pt + 1)"
    have t0: "t0 = \<lparr>t_process = process, t_count = t_count pt, t_last = -1, t_free = 0,
        entries = replicate (nat (t_count pt)) None\<rparr>" using A Some by blast
    have "\<exists>ob. objects s obj = Some ob \<and> refcount ob + count_list (map slot_ptr (take ?n (entries pt))) (Some obj) \<le> INT_MAX"
      if pos: "0 < count_list (map slot_ptr (take ?n (entries pt))) (Some obj)" for obj
    proof -
      have u: "uses pt obj = count_list (map slot_ptr (take ?n (entries pt))) (Some obj)" by (rule uses_take_last [OF wo])
      then have "0 < handle_total s obj"
        using pos uses_at_le_total [OF ok(1), of "Local parent" obj] pt by (simp add: uses_at_def table_at_def)
      then obtain ob where "objects s obj = Some ob"
        using ok(2) [unfolded accounts_def, rule_format, of obj] by (cases "objects s obj") auto
      then show ?thesis using room [of obj] unfolding u by auto
    qed
    from inherit_all_ok [OF take_last_initialised [OF wo] ok(2) this]
    obtain s2 where s2: "inherit_all (take ?n (entries pt)) s = Some (map inherit_entry (take ?n (entries pt)), s2)"
        "accounts (\<lambda>o'. count_list (map slot_ptr (map inherit_entry (take ?n (entries pt)))) (Some o')) g s2" "same_tables s s2"
      by auto
    let ?t = "\<lparr>t_process = process, t_count = t_count pt, t_last = t_last pt, t_free = 0,
       entries = map inherit_entry (take ?n (entries pt)) @ drop ?n (replicate (nat (t_count pt)) None)\<rparr>"
    note C = copied_table [OF wf, of process]
    obtain t3 e3 where t3: "shrink_handle_table ?t e1 = Some (t3, e3)" "wf_table t3" "tmap t3 = tmap ?t" "uses t3 = uses ?t"
      by (rule shrink_handle_table_ok [OF C(1)])
    have "copy_handle_table process parent None std s e = Some (Some t3, s2, e3)"
    proof (cases "t_last pt \<ge> 0")
      case True
      then show ?thesis using a Some t0 s2(1) t3(1) pt by (simp add: copy_handle_table_def Let_def)
    next
      case False
      then have "t_last pt = - 1" using wo by (simp add: wf_open_def)
      then show ?thesis using a Some t0 s2(1) t3(1) pt by (simp add: copy_handle_table_def)
    qed
    moreover have "accounts (uses t3) g s2"
    proof -
      have "uses t3 = (\<lambda>o'. count_list (map slot_ptr (map inherit_entry (take ?n (entries pt)))) (Some o'))"
        unfolding t3(4) using C(3) by blast
      then show ?thesis using s2(2) by simp
    qed
    ultimately show ?thesis using copied t3(2,3) C(2) s2(3) by simp
  qed
qed

subsection \<open>Enumerating\<close>

definition used :: "handle_entry option list \<Rightarrow> nat" where
  "used es = length (filter (\<lambda>sl. slot_ptr sl \<noteq> None) es)"

lemma used_simps [simp]:
  "used [] = 0" "used (sl # es) = (if slot_ptr sl \<noteq> None then used es + 1 else used es)"
  by (simp_all add: used_def)

lemma enum_entries_count:
  "\<forall>sl \<in> set es. sl \<noteq> None \<Longrightarrow> eh_handle info = None \<Longrightarrow>
   enum_entries p s i es info = Some (info\<lparr>eh_count := eh_count info + used es\<rparr>)"
proof (induction es arbitrary: i info)
  case (Cons sl es)
  obtain en where en: "sl = Some en" using Cons.prems(1) by auto
  show ?case
    using Cons.IH [of info "i + 1"] Cons.IH [of "info\<lparr>eh_count := eh_count info + 1\<rparr>" "i + 1"] Cons.prems en
    by (cases "e_ptr en") simp_all
qed simp

lemma enum_entries_fill:
  "\<forall>sl \<in> set es. sl \<noteq> None \<Longrightarrow> \<forall>sl \<in> set es. \<forall>obj. slot_ptr sl = Some obj \<longrightarrow> objects s obj \<noteq> None \<Longrightarrow>
   \<exists>l'. enum_entries p s i es \<lparr>eh_count = n + used es, eh_handle = Some l\<rparr> =
          Some \<lparr>eh_count = n, eh_handle = Some (l @ l')\<rparr> \<and> length l' = used es"
proof (induction es arbitrary: i l)
  case (Cons sl es)
  obtain en where en: "sl = Some en" using Cons.prems(1) by auto
  show ?case
  proof (cases "e_ptr en")
    case None
    then show ?thesis using Cons.IH [of "i + 1" l] Cons.prems en by simp
  next
    case (Some obj)
    then obtain ob where ob: "objects s obj = Some ob" using Cons.prems(2) en by auto
    let ?hi = "\<lparr>hi_owner = p, hi_handle = index_to_handle i, hi_access = e_access en AND NOT RESERVED_ALL,
        hi_attributes = handle_attributes (e_access en),
        hi_type = type_index (type_tab s (type_of_ops s (obj_ops ob)))\<rparr>"
    obtain l' where "enum_entries p s (i + 1) es \<lparr>eh_count = n + used es, eh_handle = Some (l @ [?hi])\<rparr> =
        Some \<lparr>eh_count = n, eh_handle = Some ((l @ [?hi]) @ l')\<rparr>" "length l' = used es"
      using Cons.IH [of "i + 1" "l @ [?hi]"] Cons.prems by auto
    then show ?thesis using en Some ob by (intro exI [of _ "?hi # l'"]) (simp add: Let_def)
  qed
qed simp

definition used_by :: "server \<Rightarrow> pid \<Rightarrow> nat" where
  "used_by s p = (case handles s p of None \<Rightarrow> 0 | Some t \<Rightarrow> used (take (nat (t_last t + 1)) (entries t)))"

lemma table_entries_ok:
  assumes ok: "tables_ok s" "accounts x g s" and t: "handles s p = Some t"
  shows "\<forall>sl \<in> set (take (nat (t_last t + 1)) (entries t)). sl \<noteq> None"
    and "\<forall>sl \<in> set (take (nat (t_last t + 1)) (entries t)). \<forall>obj. slot_ptr sl = Some obj \<longrightarrow> objects s obj \<noteq> None"
proof -
  have wf: "wf_open t" using ok t by (auto simp: tables_ok_def table_at_def wf_table_open split: table_ref.splits)
  then show "\<forall>sl \<in> set (take (nat (t_last t + 1)) (entries t)). sl \<noteq> None" by (rule take_last_initialised)
  show "\<forall>sl \<in> set (take (nat (t_last t + 1)) (entries t)). \<forall>obj. slot_ptr sl = Some obj \<longrightarrow> objects s obj \<noteq> None"
  proof (intro ballI allI impI)
    fix sl obj assume "sl \<in> set (take (nat (t_last t + 1)) (entries t))" "slot_ptr sl = Some obj"
    then have "Some obj \<in> set (map slot_ptr (entries t))" by (metis image_eqI in_set_takeD set_map)
    then have "0 < uses t obj" unfolding uses_def by (metis count_list_0_iff neq0_conv)
    then have "0 < handle_total s obj"
      using uses_at_le_total [OF ok(1), of "Local p" obj] t by (simp add: uses_at_def table_at_def)
    then show "objects s obj \<noteq> None" using ok(2) [unfolded accounts_def, rule_format, of obj] by (cases "objects s obj") auto
  qed
qed

lemma enum_processes_count:
  assumes ok: "tables_ok s" "accounts x g s"
  shows "enum_processes (enum_handles s) ps \<lparr>eh_count = n, eh_handle = None\<rparr> =
     Some \<lparr>eh_count = n + sum_list (map (used_by s) ps), eh_handle = None\<rparr>"
proof (induction ps arbitrary: n)
  case (Cons p ps)
  have "enum_handles s p \<lparr>eh_count = n, eh_handle = None\<rparr> = Some \<lparr>eh_count = n + used_by s p, eh_handle = None\<rparr>"
    using enum_entries_count table_entries_ok(1) [OF ok] by (auto simp: enum_handles_def used_by_def split: option.splits)
  then show ?case using Cons by (simp add: add.assoc)
qed simp

lemma enum_processes_fill:
  assumes ok: "tables_ok s" "accounts x g s"
  shows "\<exists>l'. enum_processes (enum_handles s) ps \<lparr>eh_count = n + sum_list (map (used_by s) ps), eh_handle = Some l\<rparr> =
     Some \<lparr>eh_count = n, eh_handle = Some (l @ l')\<rparr> \<and> length l' = sum_list (map (used_by s) ps)"
proof (induction ps arbitrary: l)
  case (Cons p ps)
  have "\<exists>l1. enum_handles s p \<lparr>eh_count = k + used_by s p, eh_handle = Some l\<rparr> =
      Some \<lparr>eh_count = k, eh_handle = Some (l @ l1)\<rparr> \<and> length l1 = used_by s p" for k
    using enum_entries_fill table_entries_ok [OF ok] by (auto simp: enum_handles_def used_by_def split: option.splits)
  then obtain l1 where l1: "enum_handles s p \<lparr>eh_count = n + sum_list (map (used_by s) ps) + used_by s p, eh_handle = Some l\<rparr> =
      Some \<lparr>eh_count = n + sum_list (map (used_by s) ps), eh_handle = Some (l @ l1)\<rparr>" "length l1 = used_by s p" by blast
  obtain l2 where "enum_processes (enum_handles s) ps \<lparr>eh_count = n + sum_list (map (used_by s) ps), eh_handle = Some (l @ l1)\<rparr> =
      Some \<lparr>eh_count = n, eh_handle = Some ((l @ l1) @ l2)\<rparr>" "length l2 = sum_list (map (used_by s) ps)"
    using Cons.IH [of "l @ l1"] by blast
  then show ?case using l1 by (intro exI [of _ "l1 @ l2"]) (simp add: add.commute add.left_commute add.assoc)
qed simp

end
