(* ===== verification/Handle_Dup.thy ===== *)
theory Handle_Dup
  imports Handle_Ops
begin

text \<open>
  The operations of server/handle.c that go from a handle to its object, change the rights of an
  entry, or duplicate a handle.
\<close>

subsection \<open>From a handle to its object\<close>

text \<open>No reference count is close to the limit that \<open>grab_object\<close> asserts.\<close>

definition refs_small :: "server \<Rightarrow> bool" where
  "refs_small s \<longleftrightarrow> (\<forall>obj ob. objects s obj = Some ob \<longrightarrow> refcount ob + 2 < INT_MAX)"

lemma get_handle_obj_ok:
  assumes ok: "tables_ok s" "accounts x g s" and m: "get_magic_handle cur h s = None" and r: "refs_small s"
  obtains (invalid) "lookup s p h = None"
      and "get_handle_obj cur (Some p) h acc ops s e = Some (None, s, set_error STATUS_INVALID_HANDLE e)"
    | (wrong_type) obj a ob o' where "lookup s p h = Some (obj, a)" and "objects s obj = Some ob" and "ops = Some o'"
      and "obj_ops ob \<noteq> o'"
      and "get_handle_obj cur (Some p) h acc ops s e = Some (None, s, set_error STATUS_OBJECT_TYPE_MISMATCH e)"
    | (denied) obj a where "lookup s p h = Some (obj, a)" and "a AND acc \<noteq> acc"
      and "get_handle_obj cur (Some p) h acc ops s e = Some (None, s, set_error STATUS_ACCESS_DENIED e)"
    | (granted) obj a ob s' where "lookup s p h = Some (obj, a)" and "a AND acc = acc"
      and "objects s obj = Some ob" and "ops = None \<or> ops = Some (obj_ops ob)"
      and "get_handle_obj cur (Some p) h acc ops s e = Some (Some obj, s', e)" and "same_tables s s'"
      and "accounts x (g(obj := g obj + 1)) s'" and "type_tab s' = type_tab s"
      and "objects s' = (objects s)(obj \<mapsto> ob\<lparr>refcount := refcount ob + 1\<rparr>)"
proof (cases "lookup s p h")
  case None
  then show ?thesis using invalid m by (simp add: get_handle_obj_def get_handle_eq [OF ok(1)])
next
  case (Some oa)
  obtain obj a where oa: "oa = (obj, a)" by (rule prod.exhaust)
  then have l: "lookup s p h = Some (obj, a)" using Some by simp
  obtain ob where ob: "objects s obj = Some ob" by (rule lookup_alive [OF ok l])
  have lt: "refcount ob < INT_MAX" using r ob by (fastforce simp: refs_small_def)
  obtain s' where s': "grab_object obj s = Some s'" "accounts x (g(obj := g obj + 1)) s'" "same_tables s s'"
      "objects s' = (objects s)(obj \<mapsto> ob\<lparr>refcount := refcount ob + 1\<rparr>)" "type_tab s' = type_tab s"
    by (rule grab_object_ok [OF ok(2) ob lt])
  have unf: "get_handle_obj cur (Some p) h acc ops s e =
      (if \<not> (ops = None \<or> ops = Some (obj_ops ob)) then Some (None, s, set_error STATUS_OBJECT_TYPE_MISMATCH e)
       else if a AND acc \<noteq> acc then Some (None, s, set_error STATUS_ACCESS_DENIED e)
       else Some (Some obj, s', e))"
    using m l ob s'(1) by (cases ops) (auto simp: get_handle_obj_def get_handle_eq [OF ok(1)] has_ops_def)
  show ?thesis
  proof (cases "ops = None \<or> ops = Some (obj_ops ob)")
    case False
    then show ?thesis using wrong_type l ob unf by (cases ops) auto
  next
    case True
    then show ?thesis using denied granted l ob unf s' by (cases "a AND acc = acc") auto
  qed
qed

subsection \<open>Changing the rights of an entry\<close>

lemma change_access_ok:
  assumes ok: "tables_ok s" "accounts x g s" and t: "table_at s r = Some t" and i: "tmap t i = Some (obj, a)"
  obtains t' where "set_slot t i \<lparr>e_ptr = Some obj, e_access = a'\<rparr> = Some t'" and "tables_ok (put_table r t' s)"
    and "accounts x g (put_table r t' s)" and "tmap t' = (tmap t)(i \<mapsto> (obj, a'))"
proof -
  have wf: "wf_table t" using ok t by (simp add: tables_ok_def)
  have sl: "slot t i = Some \<lparr>e_ptr = Some obj, e_access = a\<rparr>" using i by (simp add: tmap_entry)
  then have b: "0 \<le> i" "i < int (length (entries t))" by (auto simp: slot_def split: if_splits)
  obtain t' where t': "set_slot t i \<lparr>e_ptr = Some obj, e_access = a'\<rparr> = Some t'"
      "slot t' = (slot t)(i := Some \<lparr>e_ptr = Some obj, e_access = a'\<rparr>)" "length (entries t') = length (entries t)"
      "t_count t' = t_count t" "t_last t' = t_last t" "t_free t' = t_free t"
      "\<And>o'. uses t' o' + (if ptr_at t i = Some o' then 1 else 0) = uses t o' + (if Some obj = Some o' then 1 else 0)"
    using set_slot_ok [OF b, where en = "\<lparr>e_ptr = Some obj, e_access = a'\<rparr>"] by auto
  have us: "uses t' o' = uses t o'" for o' using t'(7) [of o'] sl by (auto split: if_splits)
  have at: "slot t' j \<noteq> None \<longleftrightarrow> slot t j \<noteq> None" "ptr_at t' j = ptr_at t j" for j using t'(2) sl by auto
  have "wf_table t'" using wf t'(3-6) at unfolding wf_table_def by simp
  moreover have "accounts x g (put_table r t' s)"
    by (rule accounts_put [OF ok]) (use t us in \<open>simp add: uses_at_def\<close>)
  moreover have "tmap t' = (tmap t)(i \<mapsto> (obj, a'))" using tmap_set_slot [OF t'(2)] by simp
  ultimately show ?thesis using that t'(1) tables_ok_put [OF ok(1)] by blast
qed

lemma lookup_put_local:
  "\<not> handle_is_global h \<Longrightarrow> lookup (put_table (Local p) t s) p h = tmap t (handle_to_index h)"
  by (simp add: lookup_def)

lemma set_handle_flags_ok:
  fixes msk flags :: "32 word"
  assumes ok: "tables_ok s" "accounts x g s" and m: "get_magic_handle cur h s = None"
    and loc: "\<not> handle_is_global h" and l: "lookup s p h = Some (obj, a)"
  defines "mk \<equiv> push_bit RESERVED_SHIFT msk AND RESERVED_ALL"
  obtains s' where "set_handle_flags cur (Some p) h msk flags s e =
      Some (uint (drop_bit RESERVED_SHIFT (a AND RESERVED_ALL)), s', e)"
    and "tables_ok s'" and "accounts x g s'" and "objects s' = objects s"
    and "lookup s' p h = Some (obj, (a AND NOT mk) OR (push_bit RESERVED_SHIFT flags AND mk))"
    and "\<And>h'. \<not> handle_is_global h' \<Longrightarrow> handle_to_index h' \<noteq> handle_to_index h \<Longrightarrow> lookup s' p h' = lookup s p h'"
proof -
  let ?i = "handle_to_index h" and ?a = "(a AND NOT mk) OR (push_bit RESERVED_SHIFT flags AND mk)"
  obtain t where t: "table_at s (Local p) = Some t" "tmap t ?i = Some (obj, a)"
    using l loc by (auto simp: lookup_def split: option.splits)
  obtain t' where t': "set_slot t ?i \<lparr>e_ptr = Some obj, e_access = ?a\<rparr> = Some t'" "tables_ok (put_table (Local p) t' s)"
      "accounts x g (put_table (Local p) t' s)" "tmap t' = (tmap t)(?i \<mapsto> (obj, ?a))"
    by (rule change_access_ok [OF ok t])
  show ?thesis
  proof (rule that [of "put_table (Local p) t' s"])
    show "set_handle_flags cur (Some p) h msk flags s e =
        Some (uint (drop_bit RESERVED_SHIFT (a AND RESERVED_ALL)), put_table (Local p) t' s, e)"
      using m l loc t(1) t'(1) by (simp add: set_handle_flags_def get_handle_eq [OF ok(1)] Let_def mk_def)
    show "lookup (put_table (Local p) t' s) p h' = lookup s p h'"
      if "\<not> handle_is_global h'" "handle_to_index h' \<noteq> ?i" for h'
      using that t t'(4) by (simp add: lookup_put_local) (simp add: lookup_def)
  qed (use t' loc in \<open>simp_all add: lookup_put_local\<close>)
qed

subsection \<open>Duplicating\<close>

lemma index_to_handle_not_magic:
  assumes "0 \<le> i" and "i < MAX_HANDLE_ENTRIES"
  shows "get_magic_handle cur (index_to_handle i) s = None"
proof -
  have "unat (index_to_handle i) < 0x4000000" using index_to_handle_unat [OF assms] assms by simp
  then have ne: "index_to_handle i \<noteq> w" if "0x4000000 \<le> unat w" for w using that by auto
  show ?thesis
    using ne [of "0xfffffffa"] ne [of "0xfffffffb"] ne [of "0xfffffffc"] ne [of "0xfffffffe"] ne [of "0x7fffffff"] ne [of "0xffffffff"]
    by (simp add: get_magic_handle_def)
qed

lemma get_magic_handle_put [simp]: "get_magic_handle cur h (put_table r t s) = get_magic_handle cur h s"
  by (cases r) (simp_all add: get_magic_handle_def thread_get_impersonation_token_def put_table_def split: option.splits)

text \<open>Rights beyond the reserved bits; \<open>within a a'\<close> says that \<open>a'\<close> has none that \<open>a\<close> does not have.\<close>

definition within :: "access \<Rightarrow> access \<Rightarrow> bool" where
  "within a a' \<longleftrightarrow> (a' AND NOT RESERVED_ALL) AND NOT a = 0"

lemma within_inherit: "within a (with_inherit attr want) \<longleftrightarrow> within a want"
proof -
  have "(want OR 0x4000000) AND NOT RESERVED_ALL = want AND NOT RESERVED_ALL"
    by (simp add: bit.conj_disj_distrib2)
  then show ?thesis by (simp add: within_def with_inherit_def)
qed

lemma within_subset: "want AND NOT (a AND NOT RESERVED_ALL) = 0 \<Longrightarrow> within a want"
proof -
  assume w: "want AND NOT (a AND NOT RESERVED_ALL) = 0"
  have "(want AND NOT RESERVED_ALL) AND NOT a = (want AND NOT (a AND NOT RESERVED_ALL)) AND (NOT RESERVED_ALL AND NOT a)"
    by (rule bit_eqI) (auto simp: bit_simps)
  then show ?thesis using w by (simp add: within_def)
qed

lemma within_flags: "within a ((a' AND NOT RESERVED_ALL) OR (f AND RESERVED_ALL)) \<longleftrightarrow> within a a'"
proof -
  have "((a' AND NOT RESERVED_ALL) OR (f AND RESERVED_ALL)) AND NOT RESERVED_ALL = a' AND NOT RESERVED_ALL"
    by (rule bit_eqI) (auto simp: bit_simps)
  then show ?thesis by (simp add: within_def)
qed

text \<open>A check that refuses every access, whatever the token.\<close>

definition refuses :: "access_check \<Rightarrow> oid \<Rightarrow> bool" where
  "refuses check obj \<longleftrightarrow> (\<forall>tok acc s e. \<not> fst (check tok obj acc s e))"

definition dup_result :: "current \<Rightarrow> pid \<Rightarrow> oid \<Rightarrow> access \<Rightarrow> obj_handle \<Rightarrow> server \<Rightarrow> bool" where
  "dup_result cur q obj a res s \<longleftrightarrow>
     res = 0 \<or> (\<not> handle_is_global res \<and> get_magic_handle cur res s = None \<and>
               (\<exists>a'. lookup s q res = Some (obj, a') \<and> within a a'))"

lemma dup_new_entry:
  assumes ok: "tables_ok s" "accounts x g s" and ob: "objects s obj = Some ob" "refcount ob < INT_MAX"
    and want: "want AND RESERVED_ALL = 0" "within a want"
  obtains res s2 e2 where "alloc_handle_entry (Some q) obj want attr s e = Some (res, s2, e2)"
    and "tables_ok s2" and "accounts x g s2" and "dup_result cur q obj a res s2"
proof (cases "handles s q")
  case None
  then show ?thesis using that [of 0 s] ok want(1) by (simp add: alloc_handle_entry_def dup_result_def Let_def)
next
  case (Some t)
  show ?thesis
  proof (rule alloc_handle_entry_ok [OF ok Some ob want(1), of attr e])
    fix e' assume "alloc_handle_entry (Some q) obj want attr s e = Some (0, s, e')"
    then show ?thesis using that ok by (simp add: dup_result_def)
  next
    fix i t' s' e'
    assume n: "alloc_handle_entry (Some q) obj want attr s e = Some (index_to_handle i, s', e')" "first_free t i"
      "i < MAX_HANDLE_ENTRIES" "tables_ok s'" "accounts x g s'" "table_at s' = (table_at s)(Local q \<mapsto> t')"
      "tmap t' = (tmap t)(i \<mapsto> (obj, with_inherit attr want))"
    have i0: "0 \<le> i" using n(2) by (simp add: first_free_def)
    have "lookup s' q (index_to_handle i) = Some (obj, with_inherit attr want)"
      using n(6,7) index_to_handle_not_global [OF i0 n(3)] handle_to_index_to_handle [OF i0 n(3)] by (simp add: lookup_def)
    then have "dup_result cur q obj a (index_to_handle i) s'"
      using index_to_handle_not_global [OF i0 n(3)] index_to_handle_not_magic [OF i0 n(3)] want(2)
      by (simp add: dup_result_def within_inherit)
    then show ?thesis using that n by blast
  qed
qed

lemma dup_alloc_ok:
  assumes ok: "tables_ok s" "accounts x g s" and ob: "objects s obj = Some ob" "refcount ob < INT_MAX"
    and loc: "\<not> handle_is_global h" and m: "get_magic_handle cur h s = None" and l: "lookup s src h = Some (obj, a)"
    and gl: "options AND DUPLICATE_MAKE_GLOBAL = 0" and ref: "refuses check obj" and want: "want AND RESERVED_ALL = 0"
    and ent: "ent = Some (Local src, handle_to_index h, \<lparr>e_ptr = Some obj, e_access = a\<rparr>)"
  obtains res s2 e2 where "dup_alloc check cur src h ent obj (Some q) (a AND NOT RESERVED_ALL) want attr options s e = Some (res, s2, e2)"
    and "tables_ok s2" and "accounts x g s2" and "dup_result cur q obj a res s2"
proof (cases "want AND NOT (a AND NOT RESERVED_ALL) = 0")
  case False
  have f: "\<exists>b e'. check tok obj c s e = (False, b, e')" for tok c e
    using ref unfolding refuses_def by (metis fst_conv prod_cases3)
  have "\<exists>e2. dup_alloc check cur src h ent obj (Some q) (a AND NOT RESERVED_ALL) want attr options s e = Some (0, s, e2)"
  proof (cases "cur_thread_token cur")
    case None
    obtain b e' where "check (process_token s q) obj want s e = (False, b, e')" using f by blast
    then show ?thesis using False None by (simp add: dup_alloc_def check_for_process_def)
  next
    case (Some tok)
    obtain b e' where "check (Some tok) obj want s e = (False, b, e')" using f by blast
    then show ?thesis using False Some by (simp add: dup_alloc_def)
  qed
  then show ?thesis using that ok by (auto simp: dup_result_def)
next
  case True
  note w = within_subset [OF True]
  show ?thesis
  proof (cases "options AND DUPLICATE_CLOSE_SOURCE \<noteq> 0 \<and> src = q \<and> a AND RESERVED_CLOSE_PROTECT = 0")
    case False
    have "dup_alloc check cur src h ent obj (Some q) (a AND NOT RESERVED_ALL) want attr options s e =
        alloc_handle_entry (Some q) obj want attr s e"
      using True False gl ent by (auto simp: dup_alloc_def)
    then show ?thesis using dup_new_entry [OF ok ob want w] that by metis
  next
    case reuse: True
    obtain t where t: "table_at s (Local q) = Some t" "tmap t (handle_to_index h) = Some (obj, a)"
      using l loc reuse by (auto simp: lookup_def split: option.splits)
    obtain t' where t': "set_slot t (handle_to_index h) \<lparr>e_ptr = Some obj, e_access = with_inherit attr want\<rparr> = Some t'"
        "tables_ok (put_table (Local q) t' s)" "accounts x g (put_table (Local q) t' s)"
        "tmap t' = (tmap t)(handle_to_index h \<mapsto> (obj, with_inherit attr want))"
      by (rule change_access_ok [OF ok t])
    have "dup_alloc check cur src h ent obj (Some q) (a AND NOT RESERVED_ALL) want attr options s e =
        Some (h, put_table (Local q) t' s, e)"
      using True reuse gl ent t(1) t'(1) by (simp add: dup_alloc_def with_inherit_def)
    moreover have "dup_result cur q obj a h (put_table (Local q) t' s)"
      using loc m t'(4) w by (simp add: dup_result_def lookup_put_local within_inherit)
    ultimately show ?thesis using that t'(2,3) by blast
  qed
qed

lemma map_obj_access_alive: "objects s obj = Some ob \<Longrightarrow> map_obj_access s obj acc \<noteq> None"
  by (auto simp: map_obj_access_def split: option.splits)

lemma want_unreserved: "(w AND NOT RESERVED_ALL) AND RESERVED_ALL = (0 :: 32 word)"
  by (rule bit_eqI) (auto simp: bit_simps)

lemma dup_attributes_ok:
  assumes ok: "tables_ok s" "accounts x g s" and r: "dup_result cur q obj a res s"
  obtains s3 where "(if res \<noteq> 0 \<and> options AND DUPLICATE_SAME_ATTRIBUTES \<noteq> 0 then
      do { (_, s', e') \<leftarrow> set_handle_flags cur (Some q) res (NOT 0) fl s e; Some (s', e') }
    else Some (s, e)) = Some (s3, e)"
    and "tables_ok s3" and "accounts x g s3" and "res = 0 \<or> (\<exists>a'. lookup s3 q res = Some (obj, a') \<and> within a a')"
proof (cases "res \<noteq> 0 \<and> options AND DUPLICATE_SAME_ATTRIBUTES \<noteq> 0")
  case False
  then show ?thesis using that [of s] ok r by (auto simp: dup_result_def)
next
  case True
  then obtain a' where l: "\<not> handle_is_global res" "get_magic_handle cur res s = None" "lookup s q res = Some (obj, a')"
      "within a a'" using r by (auto simp: dup_result_def)
  obtain s3 where s3: "set_handle_flags cur (Some q) res (NOT 0) fl s e =
        Some (uint (drop_bit RESERVED_SHIFT (a' AND RESERVED_ALL)), s3, e)"
      "tables_ok s3" "accounts x g s3"
      "lookup s3 q res = Some (obj, (a' AND NOT (push_bit RESERVED_SHIFT (NOT 0) AND RESERVED_ALL)) OR
         (push_bit RESERVED_SHIFT fl AND (push_bit RESERVED_SHIFT (NOT 0) AND RESERVED_ALL)))"
    using set_handle_flags_ok [OF ok l(2,1,3), of "NOT 0" fl e] by metis
  have "push_bit RESERVED_SHIFT (NOT 0) AND RESERVED_ALL = (RESERVED_ALL :: 32 word)" by (simp add: mask_eq_exp_minus_1)
  then have "lookup s3 q res = Some (obj, (a' AND NOT RESERVED_ALL) OR (push_bit RESERVED_SHIFT fl AND RESERVED_ALL))"
    using s3(4) by simp
  moreover have "within a ((a' AND NOT RESERVED_ALL) OR (push_bit RESERVED_SHIFT fl AND RESERVED_ALL))"
    using l(4) by (simp only: within_flags)
  ultimately show ?thesis using that [of s3] s3(1-3) True by auto
qed

lemma duplicate_handle_ok:
  assumes ok: "tables_ok s" "accounts (\<lambda>_. 0) (\<lambda>_. 0) s" and small: "refs_small s"
    and loc: "\<not> handle_is_global h" and m: "get_magic_handle cur h s = None" and l: "lookup s src h = Some (obj, a)"
    and gl: "options AND DUPLICATE_MAKE_GLOBAL = 0" and ref: "refuses check obj"
  obtains res s' e' where "duplicate_handle check cur src h (Some q) acc attr options s e = Some (res, s', e')"
    and "server_ok s'" and "res = 0 \<or> (\<exists>a'. lookup s' q res = Some (obj, a') \<and> within a a')"
proof -
  let ?g = "(\<lambda>_. 0 :: nat)(obj := (\<lambda>_. 0) obj + 1)"
  obtain ob s1 where g1: "get_handle_obj cur (Some src) h 0 None s e = Some (Some obj, s1, e)" "same_tables s s1"
      "accounts (\<lambda>_. 0) ?g s1" "objects s obj = Some ob" "objects s1 = (objects s)(obj \<mapsto> ob\<lparr>refcount := refcount ob + 1\<rparr>)"
    by (rule get_handle_obj_ok [OF ok m small, of src 0 None e]) (use l in auto)
  have ok1: "tables_ok s1" using ok(1) same_tables_facts(2) [OF g1(2)] by simp
  have l1: "lookup s1 src h = Some (obj, a)" using l same_tables_lookup [OF g1(2)] by simp
  have m1: "get_magic_handle cur h s1 = None" using m same_tables_facts(6) [OF g1(2)] by simp
  have ob1: "objects s1 obj = Some (ob\<lparr>refcount := refcount ob + 1\<rparr>)" using g1(5) by simp
  have lt: "refcount (ob\<lparr>refcount := refcount ob + 1\<rparr>) < INT_MAX" using small g1(4) by (fastforce simp: refs_small_def)
  obtain mm where mm: "map_obj_access s1 obj acc = Some mm" using map_obj_access_alive [OF ob1, of acc] by blast
  let ?ent = "Some (Local src, handle_to_index h, \<lparr>e_ptr = Some obj, e_access = a\<rparr>)"
  let ?want = "if options AND DUPLICATE_SAME_ACCESS \<noteq> 0 then a AND NOT RESERVED_ALL else mm AND NOT RESERVED_ALL"
  have want: "?want AND RESERVED_ALL = 0" using want_unreserved [of a] want_unreserved [of mm] by simp
  obtain res s2 e2 where d: "dup_alloc check cur src h ?ent obj (Some q) (a AND NOT RESERVED_ALL) ?want attr options s1 e =
      Some (res, s2, e2)" "tables_ok s2" "accounts (\<lambda>_. 0) ?g s2" "dup_result cur q obj a res s2"
    by (rule dup_alloc_ok [OF ok1 g1(3) ob1 lt loc m1 l1 gl ref want refl])
  obtain s3 where s3: "(if res \<noteq> 0 \<and> options AND DUPLICATE_SAME_ATTRIBUTES \<noteq> 0 then
      do { (_, s', e') \<leftarrow> set_handle_flags cur (Some q) res (NOT 0) (drop_bit RESERVED_SHIFT (a AND RESERVED_ALL)) s2 e2; Some (s', e') }
    else Some (s2, e2)) = Some (s3, e2)" "tables_ok s3" "accounts (\<lambda>_. 0) ?g s3"
    "res = 0 \<or> (\<exists>a'. lookup s3 q res = Some (obj, a') \<and> within a a')"
    by (rule dup_attributes_ok [OF d(2-4)])
  obtain s4 where s4: "release_object obj s3 = Some s4" "accounts (\<lambda>_. 0) (?g(obj := ?g obj - 1)) s4" "same_tables s3 s4"
    by (rule release_object_ok [OF s3(3), of obj]) auto
  have "?g(obj := ?g obj - 1) = (\<lambda>_. 0)" by auto
  then have "server_ok s4" using s4(2) s3(2) same_tables_facts(2) [OF s4(3)] by (simp add: server_ok_def)
  moreover have "res = 0 \<or> (\<exists>a'. lookup s4 q res = Some (obj, a') \<and> within a a')"
    using s3(4) same_tables_lookup [OF s4(3)] by simp
  moreover have "duplicate_handle check cur src h (Some q) acc attr options s e = Some (res, s4, e2)"
  proof -
    have "duplicate_handle check cur src h (Some q) acc attr options s e =
        do { (res, s2, e2) \<leftarrow> dup_alloc check cur src h ?ent obj (Some q) (a AND NOT RESERVED_ALL) ?want attr options s1 e;
             (s3, e3) \<leftarrow> (if res \<noteq> 0 \<and> options AND DUPLICATE_SAME_ATTRIBUTES \<noteq> 0 then
               do { (_, s', e') \<leftarrow> set_handle_flags cur (Some q) res (NOT 0) (drop_bit RESERVED_SHIFT (a AND RESERVED_ALL)) s2 e2; Some (s', e') }
               else Some (s2, e2));
             s4 \<leftarrow> release_object obj s3;
             Some (res, s4, e3) }"
      using g1(1) l1 mm loc by (simp add: duplicate_handle_def get_handle_eq [OF ok1] Let_def cong: if_cong)
    then show ?thesis using d(1) s3(1) s4(1) by simp
  qed
  ultimately show ?thesis using that by blast
qed

end
