(* ===== verification/Handle_Properties.thy ===== *)
theory Handle_Properties
  imports Handle_Dup
begin

text \<open>
  The properties of the handle tables of server/handle.c, each with a concrete instance of its
  hypotheses: a server with one process that holds one handle.
\<close>

subsection \<open>A concrete server\<close>

definition demo_table :: "handle_entry option \<Rightarrow> handle_table" where
  "demo_table sl = \<lparr>t_process = Some 2, t_count = 32, t_last = (if sl = None then -1 else 0),
     t_free = (if sl = None then 0 else 1), entries = sl # replicate 31 None\<rparr>"

definition demo_server :: "handle_entry option \<Rightarrow> handle_table option \<Rightarrow> server" where
  "demo_server sl gt =
     \<lparr>objects = [7 \<mapsto> \<lparr>refcount = 1, handle_count = 1, obj_ops = 5, is_permanent = False\<rparr>],
      type_tab = (\<lambda>_. \<lparr>valid_access = 0x1f0003,
        mapping = \<lparr>map_read = 0x20001, map_write = 0x20002, map_exec = 0x120000, map_all = 0x1f0003\<rparr>,
        type_index = 0, type_obj_count = 1, type_handle_count = 1, type_obj_max = 1, type_handle_max = 1\<rparr>),
      ops_tab = (\<lambda>_. \<lparr>ops_type = 0, ops_map_access = None, ops_close_handle = None\<rparr>),
      handles = [2 \<mapsto> demo_table sl], global_table = gt, process_token = (\<lambda>_. None),
      process_of_obj = (\<lambda>_. 2), destroyed = []\<rparr>"

abbreviation event_entry :: "handle_entry option" where
  "event_entry \<equiv> Some \<lparr>e_ptr = Some 7, e_access = 0x1f0003\<rparr>"

definition demo_current :: current where
  "demo_current = \<lparr>cur_process = 2, cur_process_obj = 8, cur_thread_obj = 9, cur_thread_token = None\<rparr>"

lemma demo_slot: "slot (demo_table sl) i = (if i = 0 then sl else None)"
  by (auto simp: slot_def demo_table_def nth_Cons split: nat.splits)

lemma demo_table_wf:
  assumes "sl = None \<or> (\<exists>en. sl = Some en \<and> e_ptr en \<noteq> None)"
  shows "wf_table (demo_table sl)"
  using assms unfolding wf_table_def demo_slot by (auto simp: demo_table_def)

lemma demo_uses: "uses (demo_table sl) obj = (if slot_ptr sl = Some obj then 1 else 0)"
  using count_none [of "replicate 31 None" obj] by (auto simp: uses_def demo_table_def)

lemma demo_handles: "{p. handles (demo_server sl gt) p \<noteq> None} = {2}"
  by (auto simp: demo_server_def)

lemma demo_total:
  "handle_total (demo_server sl gt) obj =
     uses (demo_table sl) obj + (case gt of None \<Rightarrow> 0 | Some t \<Rightarrow> uses t obj)"
  unfolding handle_total_def demo_handles by (simp add: demo_server_def)

lemma demo_tables_ok:
  assumes "sl = None \<or> (\<exists>en. sl = Some en \<and> e_ptr en \<noteq> None)" and "\<And>t. gt = Some t \<Longrightarrow> wf_table t"
  shows "tables_ok (demo_server sl gt)"
  unfolding tables_ok_def demo_handles
  using assms demo_table_wf [OF assms(1)]
  by (auto simp: demo_server_def table_at_def split: table_ref.splits if_splits)

lemma demo_ok: "server_ok (demo_server event_entry None)"
proof -
  have "accounts (\<lambda>_. 0) (\<lambda>_. 0) (demo_server event_entry None)"
    unfolding accounts_def demo_total by (simp add: demo_server_def demo_uses)
  then show ?thesis using demo_tables_ok [of event_entry None] by (simp add: server_ok_def)
qed

lemma demo_global_ok: "server_ok (demo_server None (Some (demo_table event_entry)))"
proof -
  have "accounts (\<lambda>_. 0) (\<lambda>_. 0) (demo_server None (Some (demo_table event_entry)))"
    unfolding accounts_def demo_total by (simp add: demo_server_def demo_uses)
  then show ?thesis using demo_tables_ok [of None "Some (demo_table event_entry)"] demo_table_wf [of event_entry]
    by (simp add: server_ok_def)
qed

lemma demo_local_handle: "\<not> handle_is_global 4 \<and> handle_to_index 4 = 0"
  using index_to_handle_not_global [of 0] handle_to_index_to_handle [of 0] by (simp add: index_to_handle_def)

lemma demo_lookup: "lookup (demo_server event_entry gt) 2 4 = Some (7, 0x1f0003)"
  using demo_local_handle by (simp add: lookup_def demo_server_def table_at_def tmap_def demo_slot)

lemma demo_small: "refs_small (demo_server sl gt)"
  by (simp add: refs_small_def demo_server_def)

subsection \<open>Properties\<close>

text \<open>C14. Allocating a handle never touches memory it must not. Unless the table is full or cannot
  grow, the new handle is the one of the lowest free index; it stands for the object with the
  given rights, no other handle of the process changes, and the invariant of all tables and
  reference counts is kept. A failure leaves the server as it was.\<close>

theorem alloc_handle_entry_correct:
  assumes "server_ok s" and "handles s p = Some t" and "objects s obj = Some ob" and "refcount ob < INT_MAX"
    and "acc AND RESERVED_ALL = 0"
  shows "\<exists>h s' e'. alloc_handle_entry (Some p) obj acc attr s e = Some (h, s', e') \<and> server_ok s' \<and>
     (if h = 0 then s' = s \<and> cur_error e' = STATUS_INSUFFICIENT_RESOURCES
      else lookup s p h = None \<and> lookup s' p h = Some (obj, with_inherit attr acc) \<and>
        (\<forall>k. 0 \<le> k \<longrightarrow> k < handle_to_index h \<longrightarrow> tmap t k \<noteq> None) \<and>
        (\<forall>h'. handle_is_global h' \<or> handle_to_index h' \<noteq> handle_to_index h \<longrightarrow> lookup s' p h' = lookup s p h'))"
proof -
  have ok: "tables_ok s" "accounts (\<lambda>_. 0) (\<lambda>_. 0) s" using assms(1) by (auto simp: server_ok_def)
  from ok assms(2-5) show ?thesis
  proof (cases rule: alloc_handle_entry_ok [where attr = attr and e = e])
    case (full e')
    then show ?thesis using assms(1) by auto
  next
    case (new i t' s' e')
    have i: "0 \<le> i" "i < MAX_HANDLE_ENTRIES" using new(3,4) by (auto simp: first_free_def)
    note h = handle_to_index_to_handle [OF i] index_to_handle_not_global [OF i] index_to_handle_nonzero [OF i]
    have l: "lookup s' p h' = (if handle_is_global h' then lookup s p h' else tmap t' (handle_to_index h'))"
      "\<not> handle_is_global h' \<Longrightarrow> lookup s p h' = tmap t (handle_to_index h')" for h'
      using new(7) assms(2) by (auto simp: lookup_def table_at_def)
    show ?thesis
      using new h l by (intro exI [of _ "index_to_handle i"] exI [of _ s'] exI [of _ e'])
        (auto simp: server_ok_def first_free_def)
  qed
qed

theorem alloc_handle_entry_witness:
  "\<exists>h s' e'. alloc_handle_entry (Some 2) 7 0x100000 0 (demo_server event_entry None) fresh_env = Some (h, s', e') \<and> server_ok s'"
  using alloc_handle_entry_correct [OF demo_ok, of 2 "demo_table event_entry" 7
      "\<lparr>refcount = 1, handle_count = 1, obj_ops = 5, is_permanent = False\<rparr>" "0x100000" 0 fresh_env]
  by (auto simp: demo_server_def)

text \<open>C15. Closing a handle of the process itself never touches memory it must not, and keeps the
  invariant. An invalid handle and one that is protected or that the type refuses to close give
  their error and change nothing; otherwise exactly that handle is gone.\<close>

theorem close_handle_correct:
  assumes "server_ok s" and "\<not> handle_is_global h"
  shows "\<exists>st s' e'. close_handle p h s e = Some (st, s', e') \<and> server_ok s' \<and>
     (case lookup s p h of
        None \<Rightarrow> st = STATUS_INVALID_HANDLE \<and> s' = s
      | Some (obj, acc) \<Rightarrow>
          if closable s p h obj acc then
            st = STATUS_SUCCESS \<and> lookup s' p h = None \<and>
            (\<forall>h'. handle_is_global h' \<or> handle_to_index h' \<noteq> handle_to_index h \<longrightarrow> lookup s' p h' = lookup s p h')
          else st = STATUS_HANDLE_NOT_CLOSABLE \<and> s' = s)"
proof -
  have ok: "tables_ok s" "accounts (\<lambda>_. 0) (\<lambda>_. 0) s" using assms(1) by (auto simp: server_ok_def)
  show ?thesis
  proof (cases "\<exists>obj acc. lookup s p h = Some (obj, acc) \<and> closable s p h obj acc")
    case False
    then show ?thesis using close_handle_refused [OF ok, of p h e] assms(1) by (auto split: option.splits)
  next
    case True
    then obtain obj acc where l: "lookup s p h = Some (obj, acc)" "closable s p h obj acc" by blast
    from ok assms(2) l show ?thesis
    proof (cases rule: close_handle_done [where e = e])
      case (1 t t' s' e')
      have "lookup s' p h' = (if handle_is_global h' then lookup s p h' else tmap t' (handle_to_index h'))"
        "\<not> handle_is_global h' \<Longrightarrow> lookup s p h' = tmap t (handle_to_index h')" for h'
        using 1(5,6) by (auto simp: lookup_def table_at_def)
      then show ?thesis using 1 l assms(2) by (auto simp: server_ok_def)
    qed
  qed
qed

theorem close_handle_witness:
  "\<exists>s' e'. close_handle 2 4 (demo_server event_entry None) fresh_env = Some (STATUS_SUCCESS, s', e') \<and>
     server_ok s' \<and> lookup s' 2 4 = None"
proof -
  have "closable (demo_server event_entry None) 2 4 7 0x1f0003"
    by (simp add: closable_def close_allowed_def demo_server_def)
  then show ?thesis
    using close_handle_correct [OF demo_ok, of 4 2 fresh_env] demo_local_handle by (auto simp: demo_lookup)
qed



text \<open>C17. The table a child process gets when it inherits all handles holds exactly the parent's
  inheritable handles, under the same values and with the same rights; the parent's table is
  unchanged, the reference counts account for the new table, and no memory is touched that
  must not be.\<close>

theorem copy_handle_table_correct:
  assumes "server_ok s" and "handles s parent = Some pt" and "mem_ok e"
    and "\<forall>obj ob. objects s obj = Some ob \<longrightarrow> refcount ob + uses pt obj \<le> INT_MAX"
    and "handles s child = None"
  shows "\<exists>t s' e'. copy_handle_table (Some child) parent None std s e = Some (Some t, s', e') \<and>
     (\<forall>i. tmap t i = inherited (tmap pt i)) \<and> handles s' = handles s \<and>
     server_ok (s'\<lparr>handles := (handles s')(child \<mapsto> t)\<rparr>)"
proof -
  have ok: "tables_ok s" "accounts (\<lambda>_. 0) (\<lambda>_. 0) s" using assms(1) by (auto simp: server_ok_def)
  have room: "objects s obj = Some ob \<Longrightarrow> refcount ob + uses pt obj \<le> INT_MAX" for obj ob using assms(4) by blast
  show ?thesis
  proof (rule copy_handle_table_ok [OF ok assms(2) room, of "Some child" std e])
    fix e' assume "\<not> mem_ok e"
    then show ?thesis using assms(3) by simp
  next
    fix t s' e'
    assume copied: "copy_handle_table (Some child) parent None std s e = Some (Some t, s', e')" "wf_table t"
      "\<And>i. tmap t i = inherited (tmap pt i)" "accounts (uses t) (\<lambda>_. 0) s'" "same_tables s s'"
    have ok': "tables_ok s'" using ok(1) same_tables_facts(2) [OF copied(5)] by simp
    have h: "handles s' = handles s" using copied(5) by (simp add: same_tables_def)
    have "accounts (\<lambda>_. 0) (\<lambda>_. 0) (put_table (Local child) t s')"
      by (rule accounts_put [OF ok' copied(4)]) (use h assms(5) in \<open>simp add: uses_at_def table_at_def\<close>)
    then have "server_ok (put_table (Local child) t s')" using tables_ok_put [OF ok' copied(2)] by (simp add: server_ok_def)
    then show ?thesis using copied h by (auto simp: put_table_def)
  qed
qed

theorem copy_handle_table_witness:
  "\<exists>t s' e'. copy_handle_table (Some 3) 2 None [] (demo_server event_entry None) fresh_env = Some (Some t, s', e') \<and>
     tmap t 0 = None"
proof -
  have u: "\<forall>obj ob. objects (demo_server event_entry None) obj = Some ob \<longrightarrow>
      refcount ob + uses (demo_table event_entry) obj \<le> INT_MAX" by (simp add: demo_server_def demo_uses)
  have "handles (demo_server event_entry None) 2 = Some (demo_table event_entry)"
      "handles (demo_server event_entry None) 3 = None" by (simp_all add: demo_server_def)
  from copy_handle_table_correct [OF demo_ok this(1) mem_ok_fresh_env u this(2), of "[]"] show ?thesis
    by (auto simp: inherited_def tmap_def demo_slot)
qed

text \<open>C18. \<open>get_handle_obj\<close> on a handle of a table: it never touches memory it must not; an invalid handle,
  an object of the wrong type and missing rights give their error, in that order; otherwise the
  caller gets the object with one more reference.\<close>

theorem get_handle_obj_correct:
  assumes "server_ok s" and "refs_small s" and "get_magic_handle cur h s = None"
  shows "\<exists>res s' e'. get_handle_obj cur (Some p) h acc ops s e = Some (res, s', e') \<and>
     (case lookup s p h of
        None \<Rightarrow> res = None \<and> s' = s \<and> cur_error e' = STATUS_INVALID_HANDLE
      | Some (obj, a) \<Rightarrow>
          \<exists>ob. objects s obj = Some ob \<and>
            (if ops \<noteq> None \<and> ops \<noteq> Some (obj_ops ob) then res = None \<and> s' = s \<and> cur_error e' = STATUS_OBJECT_TYPE_MISMATCH
             else if a AND acc \<noteq> acc then res = None \<and> s' = s \<and> cur_error e' = STATUS_ACCESS_DENIED
             else res = Some obj \<and> handles s' = handles s \<and>
               objects s' = (objects s)(obj \<mapsto> ob\<lparr>refcount := refcount ob + 1\<rparr>)))"
proof -
  have ok: "tables_ok s" "accounts (\<lambda>_. 0) (\<lambda>_. 0) s" using assms(1) by (auto simp: server_ok_def)
  show ?thesis
  proof (cases "lookup s p h")
    case None
    show ?thesis by (rule get_handle_obj_ok [OF ok assms(3,2), of p acc ops e]) (use None in auto)
  next
    case (Some oa)
    obtain obj a where oa: "oa = (obj, a)" by (rule prod.exhaust)
    obtain ob where ob: "objects s obj = Some ob" using lookup_alive [OF ok] Some oa by blast
    have lt: "refcount ob < INT_MAX" using assms(2) ob by (fastforce simp: refs_small_def)
    have "get_handle_obj cur (Some p) h acc ops s e =
      (if ops \<noteq> None \<and> ops \<noteq> Some (obj_ops ob) then Some (None, s, set_error STATUS_OBJECT_TYPE_MISMATCH e)
       else if a AND acc \<noteq> acc then Some (None, s, set_error STATUS_ACCESS_DENIED e)
       else Some (Some obj, upd_obj obj (ob\<lparr>refcount := refcount ob + 1\<rparr>) s, e))"
      using assms(3) Some oa ob lt
      by (cases ops) (auto simp: get_handle_obj_def get_handle_eq [OF ok(1)] has_ops_def grab_object_def)
    then show ?thesis using Some oa ob by (auto simp: upd_obj_def)
  qed
qed

theorem get_handle_obj_witness:
  "\<exists>s' e'. get_handle_obj demo_current (Some 2) 4 0x200000 None (demo_server event_entry None) fresh_env = Some (None, s', e') \<and>
     cur_error e' = STATUS_ACCESS_DENIED"
proof -
  have "get_magic_handle demo_current 4 (demo_server event_entry None) = None" by (simp add: get_magic_handle_def)
  from get_handle_obj_correct [OF demo_ok demo_small this, of 2 "0x200000" None fresh_env] show ?thesis
    by (auto simp: demo_lookup)
qed

text \<open>C19. Duplicating a handle into a process never hands out rights the source handle does not have
  when the access check refuses them: whatever access, attributes and options are asked for, a
  handle that results has at most the rights of the source, and the invariant is kept.\<close>

theorem duplicate_handle_no_escalation:
  assumes "server_ok s" and "refs_small s" and "\<not> handle_is_global h" and "get_magic_handle cur h s = None"
    and "lookup s src h = Some (obj, a)" and "options AND DUPLICATE_MAKE_GLOBAL = 0" and "refuses check obj"
  shows "\<exists>res s' e'. duplicate_handle check cur src h (Some q) acc attr options s e = Some (res, s', e') \<and> server_ok s' \<and>
     (res \<noteq> 0 \<longrightarrow> (\<exists>a'. lookup s' q res = Some (obj, a') \<and> within a a'))"
proof -
  have ok: "tables_ok s" "accounts (\<lambda>_. 0) (\<lambda>_. 0) s" using assms(1) by (auto simp: server_ok_def)
  obtain res s' e' where "duplicate_handle check cur src h (Some q) acc attr options s e = Some (res, s', e')"
    "server_ok s'" "res = 0 \<or> (\<exists>a'. lookup s' q res = Some (obj, a') \<and> within a a')"
    by (rule duplicate_handle_ok [OF ok assms(2-7)])
  then show ?thesis by blast
qed

theorem duplicate_handle_no_escalation_witness:
  "\<exists>res s' e'. duplicate_handle (\<lambda>tok obj acc s e. (False, 0, e)) demo_current 2 4 (Some 2) 0x1fffff 0 0
     (demo_server event_entry None) fresh_env = Some (res, s', e') \<and> server_ok s'"
proof -
  have "get_magic_handle demo_current 4 (demo_server event_entry None) = None" by (simp add: get_magic_handle_def)
  from duplicate_handle_no_escalation [OF demo_ok demo_small _ this demo_lookup, of 0 "\<lambda>tok obj acc s e. (False, 0, e)" 2 "0x1fffff" 0 fresh_env]
  show ?thesis using demo_local_handle by (auto simp: refuses_def)
qed

text \<open>C20. Closing a global handle writes outside the global table: the index comes from the handle
  before it is translated, and that index is beyond the largest table there can be.\<close>

theorem close_global_handle_out_of_bounds:
  assumes "server_ok s" and "handle_is_global h" and "lookup s p h = Some (obj, acc)" and "closable s p h obj acc"
  shows "close_handle p h s e = None"
proof -
  have ok: "tables_ok s" using assms(1) by (simp add: server_ok_def)
  obtain t where t: "global_table s = Some t" using assms(2,3) by (auto simp: lookup_def table_at_def split: option.splits)
  then have "wf_table t" using ok by (auto simp: tables_ok_def table_at_def split: table_ref.splits)
  then have "int (length (entries t)) \<le> MAX_HANDLE_ENTRIES" by (simp add: wf_table_def)
  then have "slot t (handle_to_index h) = None"
    using global_index_outside [OF assms(2)] by (intro slot_outside) linarith
  then show ?thesis
    using assms(2-4) t by (simp add: close_handle_def get_handle_eq [OF ok] Let_def closable_def table_at_def)
qed

theorem close_global_handle_witness:
  "close_handle 2 (handle_local_to_global 4) (demo_server None (Some (demo_table event_entry))) fresh_env = None"
proof -
  let ?h = "handle_local_to_global 4" and ?s = "demo_server None (Some (demo_table event_entry))"
  have g: "handle_is_global ?h" by (simp add: handle_local_to_global_def handle_is_global_def)
  have "handle_global_to_local ?h = 4" by (simp add: handle_local_to_global_def handle_global_to_local_def)
  then have l: "lookup ?s 2 ?h = Some (7, 0x1f0003)"
    using g demo_local_handle by (simp add: lookup_def demo_server_def table_at_def tmap_def demo_slot)
  have "closable ?s 2 ?h 7 0x1f0003" by (simp add: closable_def close_allowed_def demo_server_def)
  with close_global_handle_out_of_bounds [OF demo_global_ok g l] show ?thesis by simp
qed

text \<open>C22. Handles and indices correspond: the handle of an index is not zero, is a multiple of four,
  converts back to the index, is not taken for a global handle, and its global form is taken
  for one and converts back.\<close>

theorem handle_index_roundtrip:
  assumes "0 \<le> i" and "i < MAX_HANDLE_ENTRIES"
  shows "index_to_handle i \<noteq> 0 \<and> unat (index_to_handle i) mod 4 = 0 \<and> handle_to_index (index_to_handle i) = i \<and>
     \<not> handle_is_global (index_to_handle i) \<and> handle_is_global (handle_local_to_global (index_to_handle i)) \<and>
     handle_global_to_local (handle_local_to_global (index_to_handle i)) = index_to_handle i"
proof -
  have nz: "index_to_handle i \<noteq> 0" by (rule index_to_handle_nonzero [OF assms])
  have x: "(w XOR 0x544a4def) XOR 0x544a4def = w" for w :: "32 word"
    by (simp only: xor.assoc xor_self_eq xor.right_neutral)
  have u: "unat (index_to_handle i) = nat (4 * (i + 1))" by (rule index_to_handle_unat [OF assms])
  then have "index_to_handle i \<le> 0x3fffffc" using assms by (simp add: word_le_nat_alt nat_le_iff)
  then have "handle_is_global (handle_local_to_global (index_to_handle i))"
    using nz by (simp add: handle_is_global_def handle_local_to_global_def x)
  moreover have "unat (index_to_handle i) mod 4 = 0"
    unfolding u using nat_mult_distrib [of 4 "i + 1"] by simp
  ultimately show ?thesis
    using nz handle_to_index_to_handle [OF assms] index_to_handle_not_global [OF assms]
    by (simp add: handle_global_to_local_def handle_local_to_global_def x)
qed

theorem handle_index_roundtrip_witness: "handle_to_index (index_to_handle 41) = 41"
  using handle_index_roundtrip [of 41] by simp





text \<open>C23. Listing the handles of all processes counts first and fills afterwards: the second pass
  never runs past the counted number (its assertion holds), touches only live objects, and
  writes exactly as many records as the reply announces.\<close>

theorem get_system_handles_two_passes:
  assumes "server_ok s"
  shows "\<exists>n data e'. req_get_system_handles ps max_size s e = Some (n, data, e') \<and>
     n = sum_list (map (used_by s) ps) \<and>
     (case data of
        None \<Rightarrow> cur_error e' = STATUS_BUFFER_TOO_SMALL \<or> cur_error e' = STATUS_NO_MEMORY
      | Some l \<Rightarrow> length l = n \<and> length l * sizeof_handle_info \<le> max_size)"
proof -
  have ok: "tables_ok s" "accounts (\<lambda>_. 0) (\<lambda>_. 0) s" using assms by (auto simp: server_ok_def)
  let ?n = "sum_list (map (used_by s) ps)"
  obtain okm em where m: "mem_alloc e = (okm, em)" by (rule prod.exhaust)
  obtain l where l: "enum_processes (enum_handles s) ps \<lparr>eh_count = ?n, eh_handle = Some []\<rparr> =
      Some \<lparr>eh_count = 0, eh_handle = Some l\<rparr>" "length l = ?n"
    using enum_processes_fill [OF ok, of ps 0 "[]"] by auto
  have c: "enum_processes (enum_handles s) ps \<lparr>eh_count = 0, eh_handle = None\<rparr> = Some \<lparr>eh_count = ?n, eh_handle = None\<rparr>"
    using enum_processes_count [OF ok, of ps 0] by simp
  consider "max_size div sizeof_handle_info < ?n" | "\<not> max_size div sizeof_handle_info < ?n" "\<not> okm"
    | "\<not> max_size div sizeof_handle_info < ?n" okm by blast
  then show ?thesis
  proof cases
    case 3
    then have "?n * sizeof_handle_info \<le> max_size" by (simp add: less_eq_div_iff_mult_less_eq not_less)
    then show ?thesis using 3 l c m by (simp add: req_get_system_handles_def)
  qed (use c m mem_alloc_fail [of e em] in \<open>simp_all add: req_get_system_handles_def\<close>)
qed

theorem get_system_handles_witness:
  "\<exists>n data e'. req_get_system_handles [2] 100 (demo_server event_entry None) fresh_env = Some (n, data, e') \<and> n = 1"
  using get_system_handles_two_passes [OF demo_ok, of "[2]" 100 fresh_env]
  by (auto simp: used_by_def demo_server_def demo_table_def)

end
