(* ===== verification/Ffx_Api.thy ===== *)
theory Ffx_Api
  imports Prelude "HOL-Library.Multiset"
begin

text \<open>
  The FidelityFX API types the frame-generation and upscaler DLLs share, from the SDK headers
  under d3dmetal-pso-cache/third-party/fidelityfx: return codes, allocation callbacks,
  resources, rectangles and the descriptor structures.

  A descriptor is a header (\<open>type\<close>, \<open>pNext\<close>) followed by the fields of its type. The model keeps
  the header's \<open>type\<close> and the fields together in one constructor of \<open>desc_body\<close>: an application
  that sets \<open>type\<close> correctly, as the SDK requires, is exactly one that passes such a value. Chains
  live in memory, \<open>addr \<Rightarrow> ffx_desc\<close>, so they may be cyclic; \<open>valid_chain\<close> is the code's
  bounded walk, and \<open>chain\<close> lists what later loops visit.

  Floats are IEEE single bit patterns; \<open>isfinite\<close> and the comparisons are written on the bits.
\<close>

type_synonym u32 = "32 word"
type_synonym u64 = "64 word"
type_synonym addr = "64 word"
type_synonym f32 = "32 word"
type_synonym vec3 = "f32 \<times> f32 \<times> f32"

subsection \<open>IEEE single comparisons on bit patterns\<close>

definition isfinite :: "f32 \<Rightarrow> bool" where
  "isfinite x \<longleftrightarrow> drop_bit 23 x AND 0xFF \<noteq> 0xFF"

definition isnan :: "f32 \<Rightarrow> bool" where
  "isnan x \<longleftrightarrow> drop_bit 23 x AND 0xFF = 0xFF \<and> x AND 0x7FFFFF \<noteq> 0"

text \<open>The sign-magnitude value of the pattern: order-preserving for the numbers, and the same for
  both zeros.\<close>

definition f32_ord :: "f32 \<Rightarrow> int" where
  "f32_ord x = (if bit x 31 then - uint (x AND 0x7FFFFFFF) else uint (x AND 0x7FFFFFFF))"

definition f32_less :: "f32 \<Rightarrow> f32 \<Rightarrow> bool" where
  "f32_less x y \<longleftrightarrow> \<not> isnan x \<and> \<not> isnan y \<and> f32_ord x < f32_ord y"

definition f32_le :: "f32 \<Rightarrow> f32 \<Rightarrow> bool" where
  "f32_le x y \<longleftrightarrow> \<not> isnan x \<and> \<not> isnan y \<and> f32_ord x \<le> f32_ord y"

definition vec3_finite :: "vec3 \<Rightarrow> bool" where
  "vec3_finite v = (case v of (x, y, z) \<Rightarrow> isfinite x \<and> isfinite y \<and> isfinite z)"

subsection \<open>Return codes and flags\<close>

abbreviation (input) FFX_OK :: u32 where "FFX_OK \<equiv> 0"
abbreviation (input) FFX_ERROR_UNKNOWN_DESCTYPE :: u32 where "FFX_ERROR_UNKNOWN_DESCTYPE \<equiv> 2"
abbreviation (input) FFX_ERROR_RUNTIME_ERROR :: u32 where "FFX_ERROR_RUNTIME_ERROR \<equiv> 3"
abbreviation (input) FFX_NO_PROVIDER :: u32 where "FFX_NO_PROVIDER \<equiv> 4"
abbreviation (input) FFX_ERROR_MEMORY :: u32 where "FFX_ERROR_MEMORY \<equiv> 5"
abbreviation (input) FFX_ERROR_PARAMETER :: u32 where "FFX_ERROR_PARAMETER \<equiv> 6"

abbreviation (input) DEBUG_LEVEL_SILENCE :: u32 where "DEBUG_LEVEL_SILENCE \<equiv> 0"
abbreviation (input) DEBUG_LEVEL_ERRORS :: u32 where "DEBUG_LEVEL_ERRORS \<equiv> 1"
abbreviation (input) DEBUG_LEVEL_WARNINGS :: u32 where "DEBUG_LEVEL_WARNINGS \<equiv> 2"
abbreviation (input) DEBUG_LEVEL_VERBOSE :: u32 where "DEBUG_LEVEL_VERBOSE \<equiv> 0xFFFFFFF"

definition valid_debug_level :: "u32 \<Rightarrow> bool" where
  "valid_debug_level l \<longleftrightarrow>
     \<not> (l \<noteq> DEBUG_LEVEL_SILENCE \<and> l \<noteq> DEBUG_LEVEL_ERRORS \<and>
        l \<noteq> DEBUG_LEVEL_WARNINGS \<and> l \<noteq> DEBUG_LEVEL_VERBOSE)"

text \<open>\<open>FfxApiCreateContextFramegenerationFlags\<close>\<close>

abbreviation (input) FG_ENABLE_ASYNC_WORKLOAD_SUPPORT :: u32 where "FG_ENABLE_ASYNC_WORKLOAD_SUPPORT \<equiv> 0x01"
abbreviation (input) FG_ENABLE_DISPLAY_RESOLUTION_MOTION_VECTORS :: u32 where "FG_ENABLE_DISPLAY_RESOLUTION_MOTION_VECTORS \<equiv> 0x02"
abbreviation (input) FG_ENABLE_MOTION_VECTORS_JITTER_CANCELLATION :: u32 where "FG_ENABLE_MOTION_VECTORS_JITTER_CANCELLATION \<equiv> 0x04"
abbreviation (input) FG_ENABLE_DEPTH_INVERTED :: u32 where "FG_ENABLE_DEPTH_INVERTED \<equiv> 0x08"
abbreviation (input) FG_ENABLE_DEPTH_INFINITE :: u32 where "FG_ENABLE_DEPTH_INFINITE \<equiv> 0x10"
abbreviation (input) FG_ENABLE_HIGH_DYNAMIC_RANGE :: u32 where "FG_ENABLE_HIGH_DYNAMIC_RANGE \<equiv> 0x20"
abbreviation (input) FG_ENABLE_DEBUG_CHECKING :: u32 where "FG_ENABLE_DEBUG_CHECKING \<equiv> 0x40"

text \<open>\<open>FfxApiDispatchFramegenerationFlags\<close>\<close>

abbreviation (input) FG_FLAG_DRAW_DEBUG_TEAR_LINES :: u32 where "FG_FLAG_DRAW_DEBUG_TEAR_LINES \<equiv> 0x01"
abbreviation (input) FG_FLAG_DRAW_DEBUG_RESET_INDICATORS :: u32 where "FG_FLAG_DRAW_DEBUG_RESET_INDICATORS \<equiv> 0x02"
abbreviation (input) FG_FLAG_DRAW_DEBUG_VIEW :: u32 where "FG_FLAG_DRAW_DEBUG_VIEW \<equiv> 0x04"
abbreviation (input) FG_FLAG_NO_SWAPCHAIN_CONTEXT_NOTIFY :: u32 where "FG_FLAG_NO_SWAPCHAIN_CONTEXT_NOTIFY \<equiv> 0x08"
abbreviation (input) FG_FLAG_DRAW_DEBUG_PACING_LINES :: u32 where "FG_FLAG_DRAW_DEBUG_PACING_LINES \<equiv> 0x10"
abbreviation (input) FG_FLAG_RESERVED_1 :: u32 where "FG_FLAG_RESERVED_1 \<equiv> 0x20"
abbreviation (input) FG_FLAG_RESERVED_2 :: u32 where "FG_FLAG_RESERVED_2 \<equiv> 0x40"

abbreviation (input) TRANSFER_FUNCTION_PQ :: u32 where "TRANSFER_FUNCTION_PQ \<equiv> 1"
abbreviation (input) TRANSFER_FUNCTION_SCRGB :: u32 where "TRANSFER_FUNCTION_SCRGB \<equiv> 2"

subsection \<open>Structures\<close>

record ffx_callbacks =
  pUserData :: addr
  alloc :: addr
  dealloc :: addr

record ffx_resource_description =
  rd_type :: u32
  rd_format :: u32
  rd_width :: u32
  rd_height :: u32
  rd_depth :: u32
  rd_mipCount :: u32
  rd_flags :: u32
  rd_usage :: u32

record ffx_resource =
  resource :: addr
  description :: ffx_resource_description
  state :: u32

definition zero_resource :: ffx_resource where
  "zero_resource =
     \<lparr>resource = 0,
      description = \<lparr>rd_type = 0, rd_format = 0, rd_width = 0, rd_height = 0, rd_depth = 0,
                     rd_mipCount = 0, rd_flags = 0, rd_usage = 0\<rparr>,
      state = 0\<rparr>"

record ffx_rect2d =
  rc_left :: u32
  rc_top :: u32
  rc_width :: u32
  rc_height :: u32

definition zero_rect :: ffx_rect2d where
  "zero_rect = \<lparr>rc_left = 0, rc_top = 0, rc_width = 0, rc_height = 0\<rparr>"

text \<open>
  The check that the three users of a generation rectangle share: an all-zero size means the whole
  backbuffer; otherwise the rectangle lies inside the display. The fields are \<open>int32_t\<close>, the sums
  \<open>int64_t\<close>, so nothing overflows.
\<close>

definition generation_rect_ok :: "u32 \<Rightarrow> u32 \<Rightarrow> ffx_rect2d \<Rightarrow> bool" where
  "generation_rect_ok display_width display_height r \<longleftrightarrow>
     (if rc_width r \<noteq> 0 \<or> rc_height r \<noteq> 0 then
        (let rect_right = sint (rc_left r) + sint (rc_width r);
             rect_bottom = sint (rc_top r) + sint (rc_height r)
         in \<not> (sint (rc_left r) < 0 \<or> sint (rc_top r) < 0 \<or>
               sint (rc_width r) \<le> 0 \<or> sint (rc_height r) \<le> 0 \<or>
               rect_right > uint display_width \<or> rect_bottom > uint display_height))
      else True)"

record create_fg =
  cf_flags :: u32
  cf_display_width :: u32
  cf_display_height :: u32
  cf_max_render_width :: u32
  cf_max_render_height :: u32
  cf_backBufferFormat :: u32

record configure_fg =
  cg_swapChain :: addr
  cg_presentCallback :: addr
  cg_presentCallbackUserContext :: addr
  cg_frameGenerationCallback :: addr
  cg_frameGenerationCallbackUserContext :: addr
  cg_frameGenerationEnabled :: bool
  cg_allowAsyncWorkloads :: bool
  cg_HUDLessColor :: ffx_resource
  cg_flags :: u32
  cg_onlyPresentGenerated :: bool
  cg_generationRect :: ffx_rect2d
  cg_frameID :: u64

definition zero_configure_fg :: configure_fg where
  "zero_configure_fg =
     \<lparr>cg_swapChain = 0, cg_presentCallback = 0, cg_presentCallbackUserContext = 0,
      cg_frameGenerationCallback = 0, cg_frameGenerationCallbackUserContext = 0,
      cg_frameGenerationEnabled = False, cg_allowAsyncWorkloads = False,
      cg_HUDLessColor = zero_resource, cg_flags = 0, cg_onlyPresentGenerated = False,
      cg_generationRect = zero_rect, cg_frameID = 0\<rparr>"

record dispatch_fg =
  dg_commandList :: addr
  dg_presentColor :: ffx_resource
  dg_outputs :: "ffx_resource list"
  dg_numGeneratedFrames :: u32
  dg_reset :: bool
  dg_backbufferTransferFunction :: u32
  dg_minLuminance :: f32
  dg_maxLuminance :: f32
  dg_generationRect :: ffx_rect2d
  dg_frameID :: u64

record prepare_fg =
  pg_frameID :: u64
  pg_flags :: u32
  pg_commandList :: addr
  pg_render_width :: u32
  pg_render_height :: u32
  pg_jitter_x :: f32
  pg_jitter_y :: f32
  pg_motion_scale_x :: f32
  pg_motion_scale_y :: f32
  pg_frameTimeDelta :: f32
  pg_reset :: bool
  pg_cameraNear :: f32
  pg_cameraFar :: f32
  pg_cameraFovAngleVertical :: f32
  pg_viewSpaceToMetersFactor :: f32
  pg_depth :: ffx_resource
  pg_motionVectors :: ffx_resource

record camera_info =
  ci_position :: vec3
  ci_up :: vec3
  ci_right :: vec3
  ci_forward :: vec3

text \<open>
  The pointers of \<open>ffxQueryDescGetVersions\<close> are \<open>None\<close> when NULL. The two arrays have at least
  \<open>*outputCount\<close> entries, as the SDK requires.
\<close>

record versions_query =
  gv_createDescType :: u64
  gv_device :: addr
  gv_outputCount :: "u64 option"
  gv_versionIds :: "u64 list option"
  gv_versionNames :: "string list option"

datatype desc_body =
    CreateFG create_fg
  | SwapchainWrap | SwapchainNew | SwapchainForHwnd
  | BackendDX12 addr
  | CreateFGVersion u32
  | CreateFGHudless u32
  | OverrideVersion u64
  | ConfigureFG configure_fg
  | GlobalDebug1 addr u32
  | DispatchFG dispatch_fg
  | PrepareFG prepare_fg
  | PrepareFGV2 prepare_fg camera_info
  | PrepareCameraInfo camera_info
  | WaitForPresentsDX12
  | GetVersions versions_query
  | GetProviderVersion u64 string
  | FGMemoryUsage | FGMemoryUsageV2
  | OtherDesc u64

record ffx_desc =
  pNext :: addr
  body :: desc_body

type_synonym desc_mem = "addr \<Rightarrow> ffx_desc"

end
