(* ===== verification/Ffx_Chain.thy ===== *)
theory Ffx_Chain
  imports Ffx_Api
begin

text \<open>
  Descriptor chains (main.c of amd_fidelityfx_framegeneration_dx12). \<open>valid_chain\<close> is the bounded
  walk every entry point starts with; it accepts exactly the chains that end within
  \<open>MAX_DESCRIPTOR_CHAIN\<close> entries, so a cyclic chain is refused and every later loop over
  \<open>pNext\<close> ends. \<open>set_next\<close> with \<open>previous_of\<close> is the unlinking that \<open>create_original\<close> does around a native call.
\<close>

abbreviation (input) MAX_DESCRIPTOR_CHAIN :: nat where "MAX_DESCRIPTOR_CHAIN \<equiv> 64"

function valid_chain_loop :: "desc_mem \<Rightarrow> nat \<Rightarrow> addr \<Rightarrow> bool" where
  "valid_chain_loop m cnt header =
     (if header = 0 then True
      else if Suc cnt > MAX_DESCRIPTOR_CHAIN then False
      else valid_chain_loop m (Suc cnt) (pNext (m header)))"
  by pat_completeness auto
termination
  by (relation "measure (\<lambda>(m, cnt, header). MAX_DESCRIPTOR_CHAIN - cnt)") auto

declare valid_chain_loop.simps [simp del]

definition valid_chain :: "desc_mem \<Rightarrow> addr \<Rightarrow> bool" where
  "valid_chain m header = valid_chain_loop m 0 header"

text \<open>The addresses a loop \<open>for (entry = p; entry; entry = entry->pNext)\<close> visits, and their bodies.\<close>

fun chain :: "nat \<Rightarrow> desc_mem \<Rightarrow> addr \<Rightarrow> addr list" where
  "chain 0 m p = []"
| "chain (Suc n) m p = (if p = 0 then [] else p # chain n m (pNext (m p)))"

definition entries :: "desc_mem \<Rightarrow> addr \<Rightarrow> addr list" where
  "entries m p = chain MAX_DESCRIPTOR_CHAIN m p"

definition bodies :: "desc_mem \<Rightarrow> addr \<Rightarrow> desc_body list" where
  "bodies m p = map (\<lambda>q. body (m q)) (entries m p)"

inductive is_chain :: "desc_mem \<Rightarrow> addr \<Rightarrow> addr list \<Rightarrow> bool" for m where
  nil: "is_chain m 0 []"
| cons: "p \<noteq> 0 \<Longrightarrow> is_chain m (pNext (m p)) ps \<Longrightarrow> is_chain m p (p # ps)"

inductive_simps is_chain_Nil [simp]: "is_chain m p []"
inductive_simps is_chain_Cons [simp]: "is_chain m p (q # ps)"

lemma is_chain_unique: "is_chain m p ps \<Longrightarrow> is_chain m p qs \<Longrightarrow> ps = qs"
proof (induction arbitrary: qs rule: is_chain.induct)
  case nil
  then show ?case by (cases qs) auto
next
  case (cons p ps)
  from cons.prems cons.hyps(1) obtain rs where "qs = p # rs" "is_chain m (pNext (m p)) rs"
    by (cases qs) auto
  with cons.IH show ?case by blast
qed

lemma is_chain_append: "is_chain m p (xs @ ys) \<Longrightarrow> \<exists>q. is_chain m q ys"
  by (induction xs arbitrary: p) auto

lemma is_chain_mem: "is_chain m p ps \<Longrightarrow> q \<in> set ps \<Longrightarrow> \<exists>xs ys. ps = xs @ q # ys \<and> is_chain m q (q # ys)"
proof (induction rule: is_chain.induct)
  case (cons p ps)
  show ?case
  proof (cases "q = p")
    case True
    with cons.hyps show ?thesis by (intro exI [of _ "[]"] exI [of _ ps]) auto
  next
    case False
    with cons obtain xs ys where "ps = xs @ q # ys" "is_chain m q (q # ys)" by auto
    then show ?thesis by (intro exI [of _ "p # xs"] exI [of _ ys]) auto
  qed
qed simp

lemma is_chain_distinct: "is_chain m p ps \<Longrightarrow> distinct ps"
proof (induction rule: is_chain.induct)
  case (cons p ps)
  have "p \<notin> set ps"
  proof
    assume "p \<in> set ps"
    with cons.hyps(2) is_chain_mem obtain xs ys where "ps = xs @ p # ys" "is_chain m p (p # ys)"
      by blast
    moreover have "is_chain m p (p # ps)" using cons.hyps by simp
    ultimately have "ps = ys" "ps = xs @ p # ys" using is_chain_unique by blast+
    then have "length ps = length xs + Suc (length ps)" by (metis length_append length_Cons)
    then show False by simp
  qed
  with cons.IH show ?case by simp
qed simp

lemma is_chain_not_null: "is_chain m p ps \<Longrightarrow> 0 \<notin> set ps"
  by (induction rule: is_chain.induct) auto

lemma chain_eq: "is_chain m p ps \<Longrightarrow> length ps \<le> n \<Longrightarrow> chain n m p = ps"
proof (induction arbitrary: n rule: is_chain.induct)
  case nil
  then show ?case by (cases n) auto
next
  case (cons p ps)
  then show ?case by (cases n) auto
qed

lemma valid_chain_loop_iff:
  "cnt \<le> 64 \<Longrightarrow> valid_chain_loop m cnt p \<longleftrightarrow> (\<exists>ps. is_chain m p ps \<and> length ps + cnt \<le> 64)"
proof (induction m cnt p rule: valid_chain_loop.induct)
  case (1 m cnt p)
  show ?case
  proof (cases "p = 0")
    case True
    then have "valid_chain_loop m cnt p" by (subst valid_chain_loop.simps) simp
    moreover have "is_chain m p []" using True by simp
    ultimately show ?thesis using 1(2) by (auto intro!: exI [of _ "[]"])
  next
    case p: False
    have step: "(\<exists>ps. is_chain m p ps \<and> length ps + cnt \<le> 64) \<longleftrightarrow>
        (\<exists>ps. is_chain m (pNext (m p)) ps \<and> length ps + Suc cnt \<le> 64)"
    proof
      assume "\<exists>ps. is_chain m p ps \<and> length ps + cnt \<le> 64"
      then obtain ps where "is_chain m p ps" "length ps + cnt \<le> 64" by blast
      with p show "\<exists>ps. is_chain m (pNext (m p)) ps \<and> length ps + Suc cnt \<le> 64"
        by (cases ps) auto
    next
      assume "\<exists>ps. is_chain m (pNext (m p)) ps \<and> length ps + Suc cnt \<le> 64"
      then obtain ps where "is_chain m (pNext (m p)) ps" "length ps + Suc cnt \<le> 64" by blast
      with p show "\<exists>ps. is_chain m p ps \<and> length ps + cnt \<le> 64"
        by (intro exI [of _ "p # ps"]) auto
    qed
    show ?thesis
      unfolding step valid_chain_loop.simps [of m cnt p] using 1 p by auto
  qed
qed

lemma valid_chain_iff: "valid_chain m p \<longleftrightarrow> (\<exists>ps. is_chain m p ps \<and> length ps \<le> 64)"
  by (simp add: valid_chain_def valid_chain_loop_iff)

lemma valid_chain_entries: "valid_chain m p \<Longrightarrow> is_chain m p (entries m p)"
  by (auto simp: valid_chain_iff entries_def chain_eq)

subsection \<open>Unlinking one entry\<close>

text \<open>
  \<open>create_original\<close> walks from \<open>desc\<close> to the override descriptor, remembering the entry before it;
  \<open>None\<close> when the override is the first entry.
\<close>

fun previous_of :: "addr option \<Rightarrow> addr list \<Rightarrow> addr \<Rightarrow> addr option" where
  "previous_of previous [] target = previous"
| "previous_of previous (entry # es) target =
     (if entry = target then previous else previous_of (Some entry) es target)"

definition set_next :: "addr \<Rightarrow> addr \<Rightarrow> desc_mem \<Rightarrow> desc_mem" where
  "set_next p q m = m(p := (m p)\<lparr>pNext := q\<rparr>)"

lemma previous_of_append:
  "target \<notin> set xs \<Longrightarrow>
     previous_of prev (xs @ target # ys) target = (if xs = [] then prev else Some (last xs))"
  by (induction xs arbitrary: prev) auto

lemma is_chain_other: "is_chain m p ps \<Longrightarrow> q \<notin> set ps \<Longrightarrow> is_chain (m(q := d)) p ps"
  by (induction rule: is_chain.induct) (auto intro: is_chain.nil)

lemma is_chain_set_next: "is_chain m p ps \<Longrightarrow> q \<notin> set ps \<Longrightarrow> is_chain (set_next q r m) p ps"
  by (simp add: set_next_def is_chain_other)

lemma pNext_set_next [simp]: "pNext (set_next p q m r) = (if r = p then q else pNext (m r))"
  and body_set_next [simp]: "body (set_next p q m r) = body (m r)"
  by (simp_all add: set_next_def)

lemma splice_chain:
  "is_chain m p (xs @ prev # target # ys) \<Longrightarrow>
     is_chain (set_next prev (pNext (m target)) m) p (xs @ prev # ys)"
proof (induction xs arbitrary: p)
  case Nil
  from is_chain_distinct [OF this] have "distinct (prev # target # ys)" by (simp only: append.simps)
  with Nil show ?case by (auto intro: is_chain_set_next)
next
  case (Cons x xs)
  from is_chain_distinct [OF Cons.prems] have "distinct (x # xs @ prev # target # ys)"
    by (simp only: append.simps)
  with Cons show ?case by auto
qed

lemma splice_restore:
  assumes "is_chain m p (xs @ prev # target # ys)"
  shows "set_next prev target (set_next prev q m) = m"
proof -
  obtain r where "is_chain m r (prev # target # ys)" using is_chain_append [OF assms] by blast
  then have "pNext (m prev) = target" by simp
  then show ?thesis by (auto simp: set_next_def fun_eq_iff)
qed

end
