(* ===== verification/Fg_State.thy ===== *)
theory Fg_State
  imports Ffx_Chain
begin

text \<open>
  State of the frame-generation DLL (dlls/amd_fidelityfx_framegeneration_dx12/main.c) and the
  primitives its code is written with.

  The DLL sits between the application, a native FidelityFX DLL, a sidecar library reached through
  a Unix call (unixlib.c) and the native swapchain object. None of these is part of the
  repository. They are the record \<open>outside\<close> of answer functions: each answer is an arbitrary function of
  the whole sequence of calls made so far, the current call first. \<open>trace\<close> is that sequence.

  \<open>live\<close> lists what the DLL has acquired and not yet given back: memory blocks, with the allocator
  they came from, and COM references. Giving back something that is not there (a double free, the
  wrong deallocator, one \<open>Release\<close> too many), writing through a pointer to a freed context, acquiring
  a lock the thread holds, releasing one it does not hold, or calling the swapchain under a lock the
  code promises not to hold, sets \<open>fault\<close>, which no operation clears.

  An entry point runs to completion before the next one starts; the locks are modelled for the one
  thread that runs. Debug traces are left out.
\<close>

subsection \<open>Bridge packets (include/yaagl_fsr_fg_bridge.h)\<close>

abbreviation (input) YAAGL_FSR_FG_BRIDGE_VERSION :: u32 where "YAAGL_FSR_FG_BRIDGE_VERSION \<equiv> 3"
abbreviation (input) YAAGL_FSR_FG_CREATE :: u32 where "YAAGL_FSR_FG_CREATE \<equiv> 1"
abbreviation (input) YAAGL_FSR_FG_PREPARE :: u32 where "YAAGL_FSR_FG_PREPARE \<equiv> 2"
abbreviation (input) YAAGL_FSR_FG_DISPATCH :: u32 where "YAAGL_FSR_FG_DISPATCH \<equiv> 3"
abbreviation (input) YAAGL_FSR_FG_DESTROY :: u32 where "YAAGL_FSR_FG_DESTROY \<equiv> 4"
abbreviation (input) YAAGL_FSR_FG_CONFIGURE :: u32 where "YAAGL_FSR_FG_CONFIGURE \<equiv> 5"
abbreviation (input) BRIDGE_INELIGIBLE :: u32 where "BRIDGE_INELIGIBLE \<equiv> 4"
abbreviation (input) STATUS_DLL_NOT_FOUND :: ntstatus where "STATUS_DLL_NOT_FOUND \<equiv> 0xC0000135"

record packet_header =
  ph_size :: u32
  ph_version :: u32
  ph_operation :: u32
  ph_result :: u32
  ph_context :: u64

record create_packet =
  kc_device :: u64
  kc_display_width :: u32
  kc_display_height :: u32
  kc_max_render_width :: u32
  kc_max_render_height :: u32
  kc_backbuffer_format :: u32
  kc_flags :: u32

record prepare_packet =
  kp_command_list :: u64
  kp_frame_id :: u64
  kp_depth :: u64
  kp_motion_vectors :: u64
  kp_depth_state :: u32
  kp_motion_vectors_state :: u32
  kp_render_width :: u32
  kp_render_height :: u32
  kp_flags :: u32
  kp_reset :: bool
  kp_jitter_x :: f32
  kp_jitter_y :: f32
  kp_motion_scale_x :: f32
  kp_motion_scale_y :: f32
  kp_frame_time_delta_ms :: f32
  kp_camera_near :: f32
  kp_camera_far :: f32
  kp_camera_fov_vertical_radians :: f32
  kp_view_space_to_meters :: f32
  kp_camera :: camera_info
  kp_camera_info_present :: bool

record dispatch_packet =
  kd_command_list :: u64
  kd_frame_id :: u64
  kd_present_color :: u64
  kd_output :: u64
  kd_hudless_color :: u64
  kd_present_color_state :: u32
  kd_output_state :: u32
  kd_hudless_color_state :: u32
  kd_num_generated_frames :: u32
  kd_reset :: bool
  kd_backbuffer_transfer_function :: u32
  kd_generation_rect :: ffx_rect2d
  kd_min_luminance :: f32
  kd_max_luminance :: f32

datatype packet_body =
    CreatePacket create_packet
  | PreparePacket prepare_packet
  | DispatchPacket dispatch_packet
  | ConfigurePacket bool
  | DestroyPacket

text \<open>\<open>sizeof\<close> of the packet that carries the body.\<close>

fun packet_size :: "packet_body \<Rightarrow> u32" where
  "packet_size (CreatePacket _) = 56"
| "packet_size (PreparePacket _) = 168"
| "packet_size (DispatchPacket _) = 112"
| "packet_size (ConfigurePacket _) = 32"
| "packet_size DestroyPacket = 24"

type_synonym packet = "packet_header \<times> packet_body"

definition initialize_packet :: "packet_body \<Rightarrow> u32 \<Rightarrow> u64 \<Rightarrow> packet" where
  "initialize_packet b operation context =
     (\<lparr>ph_size = packet_size b, ph_version = YAAGL_FSR_FG_BRIDGE_VERSION, ph_operation = operation,
       ph_result = FFX_ERROR_RUNTIME_ERROR, ph_context = context\<rparr>, b)"

subsection \<open>Contexts\<close>

datatype context_mode = CONTEXT_NATIVE | MODE_PENDING | CONTEXT_METALFX | CONTEXT_SWAPCHAIN

record callback_binding =
  cb_context :: addr
  cb_present :: addr
  cb_present_user :: addr
  cb_generate :: addr
  cb_generate_user :: addr

definition binding_matches :: "(addr \<times> callback_binding) option \<Rightarrow> configure_fg \<Rightarrow> bool" where
  "binding_matches bnd desc =
     (case bnd of
        None \<Rightarrow> False
      | Some (_, b) \<Rightarrow>
          cb_present b = cg_presentCallback desc \<and>
          cb_present_user b = cg_presentCallbackUserContext desc \<and>
          cb_generate b = cg_frameGenerationCallback desc \<and>
          cb_generate_user b = cg_frameGenerationCallbackUserContext desc)"

text \<open>A snapshot of the linked list, with the address of its block.\<close>

record frame_config_snapshot =
  fs_block :: addr
  fs_frame_id :: u64
  fs_hudless :: ffx_resource

record fg_context =
  allocation :: ffx_callbacks
  custom_allocation :: bool
  mode :: context_mode
  original :: addr
  translated :: u64
  device :: addr
  references :: int
  closing :: bool
  swapchain :: addr
  binding :: "(addr \<times> callback_binding) option"
  native_config :: configure_fg
  native_config_valid :: bool
  hudless :: ffx_resource
  frame_configs :: "frame_config_snapshot list"
  display_width :: u32
  display_height :: u32
  max_render_width :: u32
  max_render_height :: u32
  hudless_format :: u32
  last_prepare_frame_id :: u64
  message :: addr
  debug_level :: u32
  have_last_prepare_frame_id :: bool
  debug_checking :: bool
  depth_infinite :: bool
  enabled :: bool

text \<open>\<open>memset(context, 0, sizeof(*context))\<close>; \<open>CONTEXT_NATIVE\<close> is 0.\<close>

definition zero_context :: fg_context where
  "zero_context =
     \<lparr>allocation = \<lparr>pUserData = 0, alloc = 0, dealloc = 0\<rparr>, custom_allocation = False,
      mode = CONTEXT_NATIVE, original = 0, translated = 0, device = 0, references = 0,
      closing = False, swapchain = 0, binding = None, native_config = zero_configure_fg,
      native_config_valid = False, hudless = zero_resource, frame_configs = [],
      display_width = 0, display_height = 0, max_render_width = 0, max_render_height = 0,
      hudless_format = 0, last_prepare_frame_id = 0, message = 0, debug_level = 0,
      have_last_prepare_frame_id = False, debug_checking = False, depth_infinite = False,
      enabled = False\<rparr>"

text \<open>\<open>FfxFrameGenerationConfig\<close>, as \<open>build_swapchain_config\<close> fills it. A callback slot holds the
  application's function, one of the DLL's two callbacks, or nothing.\<close>

datatype callback_fn = AppFunction addr | PresentCallback | GenerationCallback

record swapchain_config =
  sc_swapChain :: addr
  sc_presentCallback :: callback_fn
  sc_presentCallbackContext :: addr
  sc_frameGenerationCallback :: callback_fn
  sc_frameGenerationCallbackContext :: addr
  sc_frameGenerationEnabled :: bool
  sc_allowAsyncWorkloads :: bool
  sc_HUDLessColor :: ffx_resource
  sc_flags :: u32
  sc_onlyPresentInterpolated :: bool
  sc_interpolationRect :: ffx_rect2d
  sc_frameID :: u64
  sc_drawDebugPacingLines :: bool

subsection \<open>The outside and the world\<close>

datatype ext =
    Alloc "ffx_callbacks option"
  | LoadLibrary string
  | FreeLibrary addr
  | NativeCreate "desc_body list" "ffx_callbacks option"
  | NativeDestroy addr "ffx_callbacks option"
  | NativeConfigure "addr option" "desc_body list"
  | NativeQuery "addr option" "desc_body list"
  | NativeDispatch addr "desc_body list"
  | Sidecar packet
  | QueryInterface addr
  | SetConfig addr swapchain_config
  | WaitForPresents addr
  | Message addr
  | AppPresent addr addr
  | AppGenerate addr addr dispatch_fg

text \<open>What a native call answers: its return code, what it leaves in the context it was given by
  reference, and the descriptor as a query leaves it.\<close>

record native_answer =
  na_code :: u32
  na_context :: addr
  na_body :: desc_body

record outside =
  o_instance :: addr
  o_env :: "string option"
  o_load :: "ext list \<Rightarrow> addr"
  o_proc :: "string \<Rightarrow> addr"
  o_sidecar :: "ext list \<Rightarrow> bool"
  o_sidecar_api :: "ext list \<Rightarrow> u32 \<times> u64"
  o_alloc :: "ext list \<Rightarrow> addr"
  o_interface :: "ext list \<Rightarrow> addr"
  o_presents :: "ext list \<Rightarrow> bool"
  o_native :: "ext list \<Rightarrow> native_answer"

datatype lock = ContextsLock | ConfigureLock addr | DispatchLock addr | DebugLock

datatype live_res = Com addr | Block addr "ffx_callbacks option"

record fg_world =
  outside :: outside
  trace :: "ext list"
  mem :: desc_mem
  native_ready :: bool
  sidecar_ready :: bool
  contexts :: "addr list"
  heap :: "addr \<Rightarrow> fg_context option"
  live :: "live_res list"
  locks :: "lock list"
  scopes :: "addr list"
  global_message :: addr
  global_debug_level :: u32
  fault :: bool

definition emit :: "ext \<Rightarrow> fg_world \<Rightarrow> fg_world" where
  "emit ev w = w\<lparr>trace := ev # trace w\<rparr>"

definition set_fault :: "fg_world \<Rightarrow> fg_world" where
  "set_fault w = w\<lparr>fault := True\<rparr>"

definition ctx :: "fg_world \<Rightarrow> addr \<Rightarrow> fg_context" where
  "ctx w a = (case heap w a of Some c \<Rightarrow> c | None \<Rightarrow> zero_context)"

definition upd :: "addr \<Rightarrow> (fg_context \<Rightarrow> fg_context) \<Rightarrow> fg_world \<Rightarrow> fg_world" where
  "upd a f w = (case heap w a of Some c \<Rightarrow> w\<lparr>heap := (heap w)(a \<mapsto> f c)\<rparr> | None \<Rightarrow> set_fault w)"

text \<open>C's \<open>if (result != FFX_API_RETURN_OK) return result;\<close> after a step.\<close>

definition and_ok :: "u32 \<times> fg_world \<Rightarrow> (fg_world \<Rightarrow> u32 \<times> fg_world) \<Rightarrow> u32 \<times> fg_world" where
  "and_ok m k = (case m of (result, w) \<Rightarrow> if result \<noteq> FFX_OK then (result, w) else k w)"

lemma and_ok_simps [simp]:
  "and_ok (FFX_OK, w) k = k w"
  "result \<noteq> FFX_OK \<Longrightarrow> and_ok (result, w) k = (result, w)"
  by (simp_all add: and_ok_def)

subsection \<open>Locks\<close>

text \<open>The \<open>SRWLOCK\<close>s are not recursive; the dispatch lock is a critical section and is.\<close>

definition acquire :: "lock \<Rightarrow> fg_world \<Rightarrow> fg_world" where
  "acquire l w =
     (if l \<in> set (locks w) \<and> (\<forall>a. l \<noteq> DispatchLock a) then set_fault w
      else w\<lparr>locks := l # locks w\<rparr>)"

definition release :: "lock \<Rightarrow> fg_world \<Rightarrow> fg_world" where
  "release l w = (if l \<in> set (locks w) then w\<lparr>locks := remove1 l (locks w)\<rparr> else set_fault w)"

subsection \<open>Memory and COM references\<close>

text \<open>
  \<open>allocate_memory\<close> and \<open>free_memory\<close>. A block is tagged with the callbacks that must free it, \<open>None\<close>
  for the C allocator. An answer that is not the address of a new block counts as a failure.
\<close>

definition alloc_tag :: "ffx_callbacks option \<Rightarrow> ffx_callbacks option" where
  "alloc_tag callbacks =
     (case callbacks of Some c \<Rightarrow> if alloc c \<noteq> 0 then Some c else None | None \<Rightarrow> None)"

definition free_tag :: "ffx_callbacks option \<Rightarrow> ffx_callbacks option" where
  "free_tag callbacks =
     (case callbacks of Some c \<Rightarrow> if dealloc c \<noteq> 0 then Some c else None | None \<Rightarrow> None)"

fun is_block :: "addr \<Rightarrow> live_res \<Rightarrow> bool" where
  "is_block p (Block q _) = (p = q)"
| "is_block p (Com _) = False"

definition allocate_memory :: "ffx_callbacks option \<Rightarrow> fg_world \<Rightarrow> addr \<times> fg_world" where
  "allocate_memory callbacks w =
     (let tag = alloc_tag callbacks; w' = emit (Alloc tag) w; p = o_alloc (outside w) (trace w')
      in if p = 0 \<or> list_ex (is_block p) (live w) then (0, w')
         else (p, w'\<lparr>live := Block p tag # live w\<rparr>))"

definition give_back :: "live_res \<Rightarrow> fg_world \<Rightarrow> fg_world" where
  "give_back r w = (if r \<in> set (live w) then w\<lparr>live := remove1 r (live w)\<rparr> else set_fault w)"

definition free_memory :: "ffx_callbacks option \<Rightarrow> addr \<Rightarrow> fg_world \<Rightarrow> fg_world" where
  "free_memory callbacks memory w =
     (if memory = 0 then w else give_back (Block memory (free_tag callbacks)) w)"

definition com_addref :: "addr \<Rightarrow> fg_world \<Rightarrow> fg_world" where
  "com_addref p w = w\<lparr>live := Com p # live w\<rparr>"

definition com_release :: "addr \<Rightarrow> fg_world \<Rightarrow> fg_world" where
  "com_release p w = give_back (Com p) w"

definition context_allocator :: "fg_context \<Rightarrow> ffx_callbacks option" where
  "context_allocator c = (if custom_allocation c then Some (allocation c) else None)"

definition matching_allocator :: "fg_context \<Rightarrow> ffx_callbacks option \<Rightarrow> bool" where
  "matching_allocator c callbacks =
     (case callbacks of
        None \<Rightarrow> alloc (allocation c) = 0 \<and> dealloc (allocation c) = 0
      | Some cb \<Rightarrow>
          alloc (allocation c) = alloc cb \<and> dealloc (allocation c) = dealloc cb \<and>
          pUserData (allocation c) = pUserData cb)"

text \<open>\<open>release_resource\<close> clears the structure it is given; the caller stores \<open>zero_resource\<close>.\<close>

definition release_resource :: "ffx_resource \<Rightarrow> fg_world \<Rightarrow> fg_world" where
  "release_resource r w = (if resource r \<noteq> 0 then com_release (resource r) w else w)"

definition retain_resource :: "ffx_resource \<Rightarrow> fg_world \<Rightarrow> fg_world" where
  "retain_resource r w = (if resource r \<noteq> 0 then com_addref (resource r) w else w)"

subsection \<open>Calls to the outside\<close>

definition native_call :: "ext \<Rightarrow> fg_world \<Rightarrow> native_answer \<times> fg_world" where
  "native_call ev w = (let w' = emit ev w in (o_native (outside w) (trace w'), w'))"

text \<open>\<open>initialize_native\<close>: the environment names the native DLL by an absolute DOS path; the DLL must
  not be this one and must export the five entry points.\<close>

definition initialize_native :: "fg_world \<Rightarrow> bool \<times> fg_world" where
  "initialize_native w =
     (let (p, w) = allocate_memory None w in
      if p = 0 then (False, w) else
      let path = (case o_env (outside w) of None \<Rightarrow> [] | Some s \<Rightarrow> s); len = length path in
      if len < 3 \<or> len \<ge> 32768 \<or> path ! 1 \<noteq> CHR '':'' \<or>
         (path ! 2 \<noteq> CHR 0x5C \<and> path ! 2 \<noteq> CHR ''/'')
      then (False, free_memory None p w)
      else
        let w = emit (LoadLibrary path) w;
            module = o_load (outside w) (trace w);
            w = free_memory None p w
        in
        if module = 0 \<or> module = o_instance (outside w)
        then (False, if module \<noteq> 0 then emit (FreeLibrary module) w else w)
        else if o_proc (outside w) ''ffxCreateContext'' = 0 \<or>
                o_proc (outside w) ''ffxDestroyContext'' = 0 \<or>
                o_proc (outside w) ''ffxConfigure'' = 0 \<or>
                o_proc (outside w) ''ffxQuery'' = 0 \<or>
                o_proc (outside w) ''ffxDispatch'' = 0
        then (False, emit (FreeLibrary module) w)
        else (True, w\<lparr>native_ready := True\<rparr>))"

text \<open>\<open>InitOnceExecuteOnce\<close> runs the function until it succeeds once.\<close>

definition have_native :: "fg_world \<Rightarrow> bool \<times> fg_world" where
  "have_native w = (if native_ready w then (True, w) else initialize_native w)"

text \<open>The Unix side (unixlib.c): \<open>load_sidecar\<close> keeps the library once it is found.\<close>

definition load_sidecar :: "fg_world \<Rightarrow> fg_world" where
  "load_sidecar w =
     (if sidecar_ready w then w else w\<lparr>sidecar_ready := o_sidecar (outside w) (trace w)\<rparr>)"

definition fsr_fg_api :: "packet \<Rightarrow> fg_world \<Rightarrow> ntstatus \<times> packet_header \<times> fg_world" where
  "fsr_fg_api p w =
     (let header = fst p in
      if ph_size header < 24 \<or> ph_version header \<noteq> YAAGL_FSR_FG_BRIDGE_VERSION \<or>
         ph_operation header > YAAGL_FSR_FG_CONFIGURE
      then (STATUS_INVALID_PARAMETER, header, w)
      else
        let w = load_sidecar w in
        if \<not> sidecar_ready w then (STATUS_DLL_NOT_FOUND, header\<lparr>ph_result := 3\<rparr>, w)
        else
          let w = emit (Sidecar p) w; (res, context) = o_sidecar_api (outside w) (trace w)
          in (STATUS_SUCCESS, header\<lparr>ph_result := res, ph_context := context\<rparr>, w))"

definition bridge_call :: "packet \<Rightarrow> fg_world \<Rightarrow> u32 \<times> u64 \<times> fg_world" where
  "bridge_call p w =
     (let (status, header, w) = fsr_fg_api p w
      in (if status \<noteq> 0 then FFX_ERROR_RUNTIME_ERROR else ph_result header, ph_context header, w))"

definition configure_translation :: "u64 \<Rightarrow> bool \<Rightarrow> fg_world \<Rightarrow> u32 \<times> fg_world" where
  "configure_translation context en w =
     (let (r, _, w) = bridge_call (initialize_packet (ConfigurePacket en) YAAGL_FSR_FG_CONFIGURE context) w
      in (r, w))"

definition destroy_translation :: "u64 \<Rightarrow> fg_world \<Rightarrow> u32 \<times> fg_world" where
  "destroy_translation context w =
     (let (r, _, w) = bridge_call (initialize_packet DestroyPacket YAAGL_FSR_FG_DESTROY context) w
      in (r, w))"

text \<open>The swapchain object. \<open>set_config\<close> may wait for callbacks that take the dispatch lock and the list
  lock, so neither may be held.\<close>

definition blocking_lock :: "lock \<Rightarrow> bool" where
  "blocking_lock l = (case l of ContextsLock \<Rightarrow> True | DispatchLock _ \<Rightarrow> True | _ \<Rightarrow> False)"

definition set_config :: "addr \<Rightarrow> swapchain_config \<Rightarrow> fg_world \<Rightarrow> fg_world" where
  "set_config sc config w =
     (let w = (if list_ex blocking_lock (locks w) then set_fault w else w)
      in emit (SetConfig sc config) w)"

definition wait_for_presents :: "addr \<Rightarrow> fg_world \<Rightarrow> bool \<times> fg_world" where
  "wait_for_presents sc w =
     (let w = emit (WaitForPresents sc) (if list_ex blocking_lock (locks w) then set_fault w else w)
      in (o_presents (outside w) (trace w), w))"

definition release_swapchain :: "addr \<Rightarrow> fg_world \<Rightarrow> fg_world" where
  "release_swapchain sc w = (if sc \<noteq> 0 then com_release sc w else w)"

text \<open>A successful \<open>QueryInterface\<close> hands out a reference.\<close>

definition get_stable_swapchain :: "addr \<Rightarrow> fg_world \<Rightarrow> addr \<times> fg_world" where
  "get_stable_swapchain object w =
     (if object = 0 then (0, w)
      else
        let w = emit (QueryInterface object) w; p = o_interface (outside w) (trace w)
        in (p, if p \<noteq> 0 then com_addref p w else w))"

end
