(* ===== verification/Fg_Translate.thy ===== *)
theory Fg_Translate
  imports Fg_Frames
begin

text \<open>
  Dispatch descriptors of the frame-generation DLL: their validation at the public entry point, and
  their translation into bridge packets. A descriptor is passed with the bodies of the entries
  chained behind it, so \<open>header->pNext\<close> is the test whether that list is empty.
\<close>

text \<open>The check on the transfer function and the luminance range, common to \<open>translated_dispatch\<close> and
  \<open>validate_public_dispatch\<close>.\<close>

definition transfer_invalid :: "dispatch_fg \<Rightarrow> bool" where
  "transfer_invalid desc \<longleftrightarrow>
     dg_backbufferTransferFunction desc > TRANSFER_FUNCTION_SCRGB \<or>
     \<not> isfinite (dg_minLuminance desc) \<or>
     \<not> isfinite (dg_maxLuminance desc) \<or>
     f32_less (dg_maxLuminance desc) (dg_minLuminance desc) \<or>
     (dg_backbufferTransferFunction desc = TRANSFER_FUNCTION_PQ \<and> f32_le (dg_maxLuminance desc) 0) \<or>
     (dg_backbufferTransferFunction desc = TRANSFER_FUNCTION_SCRGB \<and>
      f32_le (dg_maxLuminance desc) (dg_minLuminance desc))"

abbreviation output0 :: "dispatch_fg \<Rightarrow> ffx_resource" where
  "output0 desc \<equiv> dg_outputs desc ! 0"

definition make_dispatch_packet ::
    "fg_context \<Rightarrow> frame_config_snapshot option \<Rightarrow> dispatch_fg \<Rightarrow> dispatch_packet" where
  "make_dispatch_packet c config desc =
     \<lparr>kd_command_list = dg_commandList desc,
      kd_frame_id = dg_frameID desc,
      kd_present_color = resource (dg_presentColor desc),
      kd_output = resource (output0 desc),
      kd_hudless_color = (case config of Some s \<Rightarrow> resource (fs_hudless s) | None \<Rightarrow> 0),
      kd_present_color_state = state (dg_presentColor desc),
      kd_output_state = state (output0 desc),
      kd_hudless_color_state = (case config of Some s \<Rightarrow> state (fs_hudless s) | None \<Rightarrow> 0),
      kd_num_generated_frames = dg_numGeneratedFrames desc,
      kd_reset = (dg_reset desc \<or>
                  (have_last_prepare_frame_id c \<and> dg_frameID desc \<noteq> last_prepare_frame_id c)),
      kd_backbuffer_transfer_function = dg_backbufferTransferFunction desc,
      kd_generation_rect = dg_generationRect desc,
      kd_min_luminance = dg_minLuminance desc,
      kd_max_luminance = dg_maxLuminance desc\<rparr>"

definition translated_dispatch ::
    "addr \<Rightarrow> dispatch_fg \<Rightarrow> desc_body list \<Rightarrow> fg_world \<Rightarrow> u32 \<times> fg_world" where
  "translated_dispatch a desc rest w =
     (let c = ctx w a in
      if rest \<noteq> [] then (FFX_ERROR_UNKNOWN_DESCTYPE, w)
      else if dg_commandList desc = 0 \<or> resource (dg_presentColor desc) = 0 \<or>
              dg_numGeneratedFrames desc \<noteq> 1 \<or> resource (output0 desc) = 0 \<or>
              resource (output0 desc) = resource (dg_presentColor desc) \<or> transfer_invalid desc
      then (FFX_ERROR_PARAMETER, w)
      else if \<not> generation_rect_ok (display_width c) (display_height c) (dg_generationRect desc)
      then (FFX_ERROR_PARAMETER, w)
      else
        let config = find_frame_config (frame_configs c) (dg_frameID desc) in
        if (case config of
              Some s \<Rightarrow> resource (output0 desc) = resource (fs_hudless s)
            | None \<Rightarrow> False)
        then (FFX_ERROR_PARAMETER, w)
        else
          let (r, _, w) = bridge_call (initialize_packet (DispatchPacket (make_dispatch_packet c config desc))
                                         YAAGL_FSR_FG_DISPATCH (translated c)) w
          in (r, w))"

definition zero_camera :: camera_info where
  "zero_camera = \<lparr>ci_position = (0, 0, 0), ci_up = (0, 0, 0), ci_right = (0, 0, 0),
                  ci_forward = (0, 0, 0)\<rparr>"

text \<open>\<open>COPY_PREPARE_FIELDS\<close> into a zeroed packet.\<close>

definition copy_prepare_fields :: "prepare_fg \<Rightarrow> prepare_packet" where
  "copy_prepare_fields desc =
     \<lparr>kp_command_list = pg_commandList desc,
      kp_frame_id = pg_frameID desc,
      kp_depth = resource (pg_depth desc),
      kp_motion_vectors = resource (pg_motionVectors desc),
      kp_depth_state = state (pg_depth desc),
      kp_motion_vectors_state = state (pg_motionVectors desc),
      kp_render_width = pg_render_width desc,
      kp_render_height = pg_render_height desc,
      kp_flags = pg_flags desc,
      kp_reset = False,
      kp_jitter_x = pg_jitter_x desc,
      kp_jitter_y = pg_jitter_y desc,
      kp_motion_scale_x = pg_motion_scale_x desc,
      kp_motion_scale_y = pg_motion_scale_y desc,
      kp_frame_time_delta_ms = pg_frameTimeDelta desc,
      kp_camera_near = pg_cameraNear desc,
      kp_camera_far = pg_cameraFar desc,
      kp_camera_fov_vertical_radians = pg_cameraFovAngleVertical desc,
      kp_view_space_to_meters = pg_viewSpaceToMetersFactor desc,
      kp_camera = zero_camera,
      kp_camera_info_present = False\<rparr>"

text \<open>The walk over the entries behind a version 1 prepare descriptor. A foreign entry is an error
  when \<open>strict\<close>, otherwise it ends the walk.\<close>

fun copy_cameras :: "bool \<Rightarrow> desc_body list \<Rightarrow> camera_info option \<Rightarrow> u32 + camera_info option" where
  "copy_cameras strict [] have_camera = Inr have_camera"
| "copy_cameras strict (entry # rest) have_camera =
     (case entry of
        PrepareCameraInfo camera \<Rightarrow>
          if have_camera \<noteq> None then Inl FFX_ERROR_PARAMETER
          else copy_cameras strict rest (Some camera)
      | _ \<Rightarrow> if strict then Inl FFX_ERROR_UNKNOWN_DESCTYPE else Inr have_camera)"

text \<open>The packet a prepare descriptor stands for, or the error of its chain.\<close>

definition make_prepare_packet :: "bool \<Rightarrow> desc_body \<Rightarrow> desc_body list \<Rightarrow> u32 + prepare_packet" where
  "make_prepare_packet strict desc rest =
     (case desc of
        PrepareFGV2 p camera \<Rightarrow>
          if strict \<and> rest \<noteq> [] then Inl FFX_ERROR_UNKNOWN_DESCTYPE
          else Inr ((copy_prepare_fields p)\<lparr>kp_camera := camera, kp_reset := pg_reset p,
                                            kp_camera_info_present := True\<rparr>)
      | PrepareFG p \<Rightarrow>
          (case copy_cameras strict rest None of
             Inl err \<Rightarrow> Inl err
           | Inr None \<Rightarrow> Inr (copy_prepare_fields p)
           | Inr (Some camera) \<Rightarrow>
               Inr ((copy_prepare_fields p)\<lparr>kp_camera := camera, kp_camera_info_present := True\<rparr>))
      | _ \<Rightarrow> Inl FFX_ERROR_UNKNOWN_DESCTYPE)"

text \<open>The check on the copied fields, common to \<open>translated_prepare\<close> and
  \<open>validate_public_dispatch\<close>; \<open>0x40490FDB\<close> is \<open>3.141592654f\<close>.\<close>

definition prepare_invalid :: "fg_context \<Rightarrow> prepare_packet \<Rightarrow> bool" where
  "prepare_invalid c packet \<longleftrightarrow>
     kp_command_list packet = 0 \<or> kp_depth packet = 0 \<or> kp_motion_vectors packet = 0 \<or>
     kp_depth packet = kp_motion_vectors packet \<or>
     kp_render_width packet = 0 \<or> kp_render_height packet = 0 \<or>
     \<not> isfinite (kp_jitter_x packet) \<or> \<not> isfinite (kp_jitter_y packet) \<or>
     \<not> isfinite (kp_motion_scale_x packet) \<or> \<not> isfinite (kp_motion_scale_y packet) \<or>
     \<not> isfinite (kp_frame_time_delta_ms packet) \<or> f32_less (kp_frame_time_delta_ms packet) 0 \<or>
     \<not> isfinite (kp_camera_near packet) \<or>
     (\<not> depth_infinite c \<and> \<not> isfinite (kp_camera_far packet)) \<or>
     \<not> isfinite (kp_camera_fov_vertical_radians packet) \<or>
     f32_le (kp_camera_fov_vertical_radians packet) 0 \<or>
     f32_le 0x40490FDB (kp_camera_fov_vertical_radians packet) \<or>
     \<not> isfinite (kp_view_space_to_meters packet) \<or>
     kp_render_width packet > max_render_width c \<or>
     kp_render_height packet > max_render_height c"

definition camera_invalid :: "prepare_packet \<Rightarrow> bool" where
  "camera_invalid packet \<longleftrightarrow>
     kp_camera_info_present packet \<and>
     \<not> (vec3_finite (ci_position (kp_camera packet)) \<and> vec3_finite (ci_up (kp_camera packet)) \<and>
        vec3_finite (ci_right (kp_camera packet)) \<and> vec3_finite (ci_forward (kp_camera packet)))"

definition translated_prepare ::
    "addr \<Rightarrow> desc_body \<Rightarrow> desc_body list \<Rightarrow> fg_world \<Rightarrow> u32 \<times> fg_world" where
  "translated_prepare a desc rest w =
     (let c = ctx w a in
      case make_prepare_packet True desc rest of
        Inl err \<Rightarrow> (err, w)
      | Inr packet \<Rightarrow>
          if prepare_invalid c packet then (FFX_ERROR_PARAMETER, w)
          else if camera_invalid packet then (FFX_ERROR_PARAMETER, w)
          else
            let packet = (if have_last_prepare_frame_id c \<and>
                             kp_frame_id packet \<noteq> last_prepare_frame_id c + 1
                          then packet\<lparr>kp_reset := True\<rparr> else packet);
                (result, _, w) = bridge_call (initialize_packet (PreparePacket packet)
                                                YAAGL_FSR_FG_PREPARE (translated c)) w
            in if result = FFX_OK
               then (result, upd a (\<lambda>c. c\<lparr>last_prepare_frame_id := kp_frame_id packet,
                                          have_last_prepare_frame_id := True\<rparr>) w)
               else (result, w))"

subsection \<open>Validation at the public entry point\<close>

abbreviation (input) FG_KNOWN_FLAGS :: u32 where
  "FG_KNOWN_FLAGS \<equiv>
     FG_FLAG_DRAW_DEBUG_TEAR_LINES OR FG_FLAG_DRAW_DEBUG_RESET_INDICATORS OR
     FG_FLAG_DRAW_DEBUG_VIEW OR FG_FLAG_NO_SWAPCHAIN_CONTEXT_NOTIFY OR
     FG_FLAG_DRAW_DEBUG_PACING_LINES OR FG_FLAG_RESERVED_1 OR FG_FLAG_RESERVED_2"

abbreviation (input) FG_NATIVE_ONLY_FLAGS :: u32 where
  "FG_NATIVE_ONLY_FLAGS \<equiv>
     FG_FLAG_DRAW_DEBUG_TEAR_LINES OR FG_FLAG_DRAW_DEBUG_RESET_INDICATORS OR
     FG_FLAG_DRAW_DEBUG_VIEW OR FG_FLAG_RESERVED_1 OR FG_FLAG_RESERVED_2"

fun prepare_flags :: "desc_body \<Rightarrow> u32" where
  "prepare_flags (PrepareFG p) = pg_flags p"
| "prepare_flags (PrepareFGV2 p camera) = pg_flags p"
| "prepare_flags _ = 0"

fun is_prepare :: "desc_body \<Rightarrow> bool" where
  "is_prepare (PrepareFG p) = True"
| "is_prepare (PrepareFGV2 p camera) = True"
| "is_prepare _ = False"

definition validate_generation :: "fg_context \<Rightarrow> dispatch_fg \<Rightarrow> desc_body list \<Rightarrow> u32" where
  "validate_generation c desc rest =
     (if mode c = CONTEXT_METALFX \<and> rest \<noteq> [] then FFX_ERROR_UNKNOWN_DESCTYPE
      else if dg_commandList desc = 0 \<or> resource (dg_presentColor desc) = 0 \<or>
              dg_numGeneratedFrames desc = 0 \<or> dg_numGeneratedFrames desc > 4 \<or>
              transfer_invalid desc
      then FFX_ERROR_PARAMETER
      else if list_ex (\<lambda>out. resource out = 0) (take (unat (dg_numGeneratedFrames desc)) (dg_outputs desc))
      then FFX_ERROR_PARAMETER
      else if mode c = CONTEXT_METALFX \<and>
              (dg_numGeneratedFrames desc \<noteq> 1 \<or>
               resource (output0 desc) = resource (dg_presentColor desc))
      then FFX_ERROR_PARAMETER
      else if \<not> generation_rect_ok (display_width c) (display_height c) (dg_generationRect desc)
      then FFX_ERROR_PARAMETER
      else FFX_OK)"

definition validate_prepare :: "fg_context \<Rightarrow> desc_body \<Rightarrow> desc_body list \<Rightarrow> u32" where
  "validate_prepare c desc rest =
     (if prepare_flags desc AND NOT FG_KNOWN_FLAGS \<noteq> 0 then FFX_ERROR_PARAMETER
      else
        case make_prepare_packet (mode c = CONTEXT_METALFX) desc rest of
          Inl err \<Rightarrow> err
        | Inr packet \<Rightarrow>
            if prepare_invalid c packet then FFX_ERROR_PARAMETER
            else if camera_invalid packet then FFX_ERROR_PARAMETER
            else FFX_OK)"

definition validate_public_dispatch :: "fg_context \<Rightarrow> desc_body \<Rightarrow> desc_body list \<Rightarrow> u32" where
  "validate_public_dispatch c desc rest =
     (case desc of
        DispatchFG d \<Rightarrow> validate_generation c d rest
      | _ \<Rightarrow> if is_prepare desc then validate_prepare c desc rest else FFX_OK)"

definition prepare_has_native_only_flags :: "u32 \<Rightarrow> bool" where
  "prepare_has_native_only_flags flags \<longleftrightarrow> flags AND FG_NATIVE_ONLY_FLAGS \<noteq> 0"

fun prepare_requires_native :: "desc_body \<Rightarrow> desc_body list \<Rightarrow> bool" where
  "prepare_requires_native (PrepareFGV2 p camera) rest = (rest \<noteq> [])"
| "prepare_requires_native (PrepareFG p) rest =
     list_ex (\<lambda>entry. case entry of PrepareCameraInfo _ \<Rightarrow> False | _ \<Rightarrow> True) rest"
| "prepare_requires_native _ rest = False"

end
