(* ===== verification/Fg_Configure.thy ===== *)
theory Fg_Configure
  imports Fg_Translate
begin

text \<open>
  Configuration of a frame-generation context: \<open>build_swapchain_config\<close>, \<open>detach_swapchain\<close>,
  \<open>configure_frame_generation\<close> and \<open>select_native\<close>. In C the last two call each other:
  a pending context selects the native provider, which stores its mode and then replays the stored
  configuration. The mode is never pending on that second call, so the model has the part that runs
  in a selected mode as a definition of its own, \<open>configure_selected\<close>, and lemma
  \<open>select_native_eq\<close> recovers the C text of \<open>select_native\<close>.
\<close>

definition build_swapchain_config ::
    "configure_fg \<Rightarrow> (addr \<times> callback_binding) option \<Rightarrow> swapchain_config" where
  "build_swapchain_config input bnd =
     (let output =
        \<lparr>sc_swapChain = cg_swapChain input,
         sc_presentCallback = AppFunction (cg_presentCallback input),
         sc_presentCallbackContext = cg_presentCallbackUserContext input,
         sc_frameGenerationCallback = AppFunction (cg_frameGenerationCallback input),
         sc_frameGenerationCallbackContext = cg_frameGenerationCallbackUserContext input,
         sc_frameGenerationEnabled = cg_frameGenerationEnabled input,
         sc_allowAsyncWorkloads = cg_allowAsyncWorkloads input,
         sc_HUDLessColor = cg_HUDLessColor input,
         sc_flags = cg_flags input,
         sc_onlyPresentInterpolated = cg_onlyPresentGenerated input,
         sc_interpolationRect = cg_generationRect input,
         sc_frameID = cg_frameID input,
         sc_drawDebugPacingLines = (cg_flags input AND FG_FLAG_DRAW_DEBUG_PACING_LINES \<noteq> 0)\<rparr>
      in case bnd of
           None \<Rightarrow> output
         | Some (p, b) \<Rightarrow>
             output\<lparr>sc_presentCallback := (if cb_present b \<noteq> 0 then PresentCallback else AppFunction 0),
                    sc_presentCallbackContext := (if cb_present b \<noteq> 0 then p else 0),
                    sc_frameGenerationCallback := GenerationCallback,
                    sc_frameGenerationCallbackContext := p\<rparr>)"

text \<open>The zeroed configuration \<open>detach_swapchain\<close> installs.\<close>

definition disabled_config :: "addr \<Rightarrow> swapchain_config" where
  "disabled_config sc = (build_swapchain_config zero_configure_fg None)\<lparr>sc_swapChain := sc\<rparr>"

text \<open>The copy of the stored configuration that turns frame generation off in the native provider.\<close>

definition native_off_config :: "configure_fg \<Rightarrow> configure_fg" where
  "native_off_config config =
     config\<lparr>cg_frameGenerationEnabled := False, cg_frameGenerationCallback := 0,
            cg_frameGenerationCallbackUserContext := 0, cg_presentCallback := 0,
            cg_presentCallbackUserContext := 0,
            cg_HUDLessColor := (cg_HUDLessColor config)\<lparr>resource := 0\<rparr>,
            cg_flags := cg_flags config AND NOT FG_FLAG_NO_SWAPCHAIN_CONTEXT_NOTIFY\<rparr>"

definition free_binding :: "addr \<Rightarrow> (addr \<times> callback_binding) option \<Rightarrow> fg_world \<Rightarrow> fg_world" where
  "free_binding a bnd w =
     free_memory (context_allocator (ctx w a)) (case bnd of None \<Rightarrow> 0 | Some (p, _) \<Rightarrow> p) w"

text \<open>Passing a configuration on to the native provider.\<close>

definition native_configure :: "addr \<Rightarrow> desc_body list \<Rightarrow> fg_world \<Rightarrow> u32 \<times> fg_world" where
  "native_configure a descs w =
     (let (ans, w) = native_call (NativeConfigure (Some (original (ctx w a))) descs) w
      in (na_code ans, w))"

definition detach_swapchain :: "addr \<Rightarrow> fg_world \<Rightarrow> u32 \<times> fg_world" where
  "detach_swapchain a w =
     (let sc = swapchain (ctx w a) in
      if sc = 0 then (FFX_OK, w) else
      let (result, w) =
            (if mode (ctx w a) = CONTEXT_NATIVE \<and> native_config_valid (ctx w a) then
               native_configure a [ConfigureFG (native_off_config (native_config (ctx w a)))] w
             else (FFX_OK, w));
          w = set_config sc (disabled_config sc) w;
          (waited, w) = wait_for_presents sc w
      in if \<not> waited then (FFX_ERROR_RUNTIME_ERROR, w) else
      let w = clear_swapchain_claim a w;
          w = release_swapchain sc w;
          w = free_binding a (binding (ctx w a)) w;
          w = upd a (\<lambda>c. c\<lparr>binding := None, native_config_valid := False\<rparr>) w;
          w = release_resource (hudless (ctx w a)) w;
          w = upd a (\<lambda>c. c\<lparr>hudless := zero_resource\<rparr>) w;
          w = clear_frame_configs a w;
          (result, w) =
            (if mode (ctx w a) = CONTEXT_METALFX then
               let (r, w) = configure_translation (translated (ctx w a)) False w
               in (if r \<noteq> FFX_OK then r else result, w)
             else (result, w));
          w = upd a (\<lambda>c. c\<lparr>enabled := False, native_config := zero_configure_fg\<rparr>) w
      in (result, w))"

subsection \<open>Configuring in a selected mode\<close>

definition notify :: "configure_fg \<Rightarrow> bool" where
  "notify desc \<longleftrightarrow> cg_flags desc AND FG_FLAG_NO_SWAPCHAIN_CONTEXT_NOTIFY = 0"

text \<open>The parameter checks at the head of \<open>configure_frame_generation\<close>.\<close>

definition configure_invalid :: "fg_context \<Rightarrow> configure_fg \<Rightarrow> bool" where
  "configure_invalid c desc \<longleftrightarrow>
     cg_flags desc AND NOT FG_KNOWN_FLAGS \<noteq> 0 \<or>
     (resource (cg_HUDLessColor desc) \<noteq> 0 \<and>
      rd_format (description (cg_HUDLessColor desc)) \<noteq> hudless_format c) \<or>
     \<not> generation_rect_ok (display_width c) (display_height c) (cg_generationRect desc)"

text \<open>Turning the translation on before an enabled configuration is published.\<close>

definition enable_translation :: "addr \<Rightarrow> configure_fg \<Rightarrow> fg_world \<Rightarrow> u32 \<times> fg_world" where
  "enable_translation a desc w =
     (if cg_frameGenerationEnabled desc
      then configure_translation (translated (ctx w a)) True w else (FFX_OK, w))"

text \<open>The snapshot is taken; when that fails the translation goes back to its former state.\<close>

definition snapshot_or_restore :: "addr \<Rightarrow> configure_fg \<Rightarrow> fg_world \<Rightarrow> u32 \<times> fg_world" where
  "snapshot_or_restore a desc w =
     (let (result, w) = snapshot_frame_config a desc w in
      if result \<noteq> FFX_OK then
        (result, if cg_frameGenerationEnabled desc
                 then snd (configure_translation (translated (ctx w a)) (enabled (ctx w a)) w) else w)
      else (FFX_OK, w))"

text \<open>The branch for \<open>NO_SWAPCHAIN_CONTEXT_NOTIFY\<close>: the swapchain is left alone.\<close>

definition configure_direct ::
    "addr \<Rightarrow> configure_fg \<Rightarrow> desc_body list \<Rightarrow> fg_world \<Rightarrow> u32 \<times> fg_world" where
  "configure_direct a desc rest w =
     (if mode (ctx w a) = CONTEXT_NATIVE then native_configure a (ConfigureFG desc # rest) w
      else
        and_ok (enable_translation a desc w) (\<lambda>w.
        and_ok (snapshot_or_restore a desc w) (\<lambda>w.
        and_ok (if \<not> cg_frameGenerationEnabled desc then
                  and_ok (configure_translation (translated (ctx w a)) False w)
                    (\<lambda>w. (FFX_OK, clear_frame_configs a w))
                else (FFX_OK, w)) (\<lambda>w.
        (FFX_OK, upd a (\<lambda>c. c\<lparr>enabled := cg_frameGenerationEnabled desc\<rparr>)
                   (store_native_config a desc w))))))"

text \<open>Undoing the preparations when a step before \<open>set_config\<close> fails.\<close>

definition undo_configure ::
    "addr \<Rightarrow> bool \<Rightarrow> (addr \<times> callback_binding) option \<Rightarrow> bool \<Rightarrow> addr \<Rightarrow> fg_world \<Rightarrow> fg_world" where
  "undo_configure a binding_changed bnd newly_claimed sc w =
     (let w = (if binding_changed then free_binding a bnd w else w)
      in if newly_claimed then release_swapchain sc (clear_swapchain_claim a w) else w)"

text \<open>From \<open>set_config\<close> to the end.\<close>

definition configure_publish ::
    "addr \<Rightarrow> configure_fg \<Rightarrow> addr \<Rightarrow> (addr \<times> callback_binding) option \<Rightarrow> bool \<Rightarrow> fg_world \<Rightarrow>
     u32 \<times> fg_world" where
  "configure_publish a desc sc bnd binding_changed w =
     (let config = build_swapchain_config desc bnd;
          old_binding = binding (ctx w a);
          w = set_config sc config w;
          w = upd a (\<lambda>c. c\<lparr>binding := bnd, enabled := cg_frameGenerationEnabled desc\<rparr>) w;
          w = store_native_config a desc w;
          w = (if binding_changed then free_binding a old_binding w else w)
      in if \<not> cg_frameGenerationEnabled desc then
           let (waited, w) = wait_for_presents sc w in
           if \<not> waited then (FFX_ERROR_RUNTIME_ERROR, w) else
           let w = clear_frame_configs a w
           in configure_translation (translated (ctx w a)) False w
         else if binding_changed then (FFX_OK, retire_frame_configs a (cg_frameID desc) w)
         else (FFX_OK, w))"

text \<open>What follows the claim: \<open>sc\<close> is the swapchain of the context, \<open>newly_claimed\<close> whether this call
  claimed it.\<close>

definition configure_claimed ::
    "addr \<Rightarrow> configure_fg \<Rightarrow> desc_body list \<Rightarrow> addr \<Rightarrow> (addr \<times> callback_binding) option \<Rightarrow> bool \<Rightarrow>
     bool \<Rightarrow> fg_world \<Rightarrow> u32 \<times> fg_world" where
  "configure_claimed a desc rest sc bnd binding_changed newly_claimed w =
     (if mode (ctx w a) = CONTEXT_NATIVE then
        and_ok (native_configure a (ConfigureFG desc # rest) w) (\<lambda>w.
        (FFX_OK, upd a (\<lambda>c. c\<lparr>enabled := cg_frameGenerationEnabled desc\<rparr>)
                   (store_native_config a desc w)))
      else
        let (result, w) = and_ok (enable_translation a desc w) (snapshot_or_restore a desc) in
        if result \<noteq> FFX_OK
        then (result, undo_configure a binding_changed bnd newly_claimed sc w)
        else configure_publish a desc sc bnd binding_changed w)"

text \<open>From the choice of the binding on: \<open>sc\<close> is the reference just obtained.\<close>

definition configure_claim ::
    "addr \<Rightarrow> configure_fg \<Rightarrow> desc_body list \<Rightarrow> addr \<Rightarrow> (addr \<times> callback_binding) option \<Rightarrow> bool \<Rightarrow>
     fg_world \<Rightarrow> u32 \<times> fg_world" where
  "configure_claim a desc rest sc bnd binding_changed w =
     (if swapchain (ctx w a) = 0 then
        let (available, w) = claim_swapchain a sc w in
        if \<not> available then
          (FFX_ERROR_PARAMETER,
           release_swapchain sc (if binding_changed then free_binding a bnd w else w))
        else configure_claimed a desc rest sc bnd binding_changed True w
      else
        let w = release_swapchain sc w
        in configure_claimed a desc rest (swapchain (ctx w a)) bnd binding_changed False w)"

definition configure_swapchain ::
    "addr \<Rightarrow> configure_fg \<Rightarrow> desc_body list \<Rightarrow> addr \<Rightarrow> fg_world \<Rightarrow> u32 \<times> fg_world" where
  "configure_swapchain a desc rest sc w =
     (if mode (ctx w a) = CONTEXT_METALFX then
        if \<not> binding_matches (binding (ctx w a)) desc then
          let (p, w) = allocate_memory (context_allocator (ctx w a)) w in
          if p = 0 then (FFX_ERROR_MEMORY, release_swapchain sc w)
          else
            let b = \<lparr>cb_context = a,
                     cb_present = cg_presentCallback desc,
                     cb_present_user = cg_presentCallbackUserContext desc,
                     cb_generate = cg_frameGenerationCallback desc,
                     cb_generate_user = cg_frameGenerationCallbackUserContext desc\<rparr>
            in configure_claim a desc rest sc (Some (p, b)) True w
        else configure_claim a desc rest sc (binding (ctx w a)) False w
      else configure_claim a desc rest sc None False w)"

text \<open>Everything after the block for \<open>MODE_PENDING\<close>.\<close>

definition configure_selected ::
    "addr \<Rightarrow> configure_fg \<Rightarrow> desc_body list \<Rightarrow> fg_world \<Rightarrow> u32 \<times> fg_world" where
  "configure_selected a desc rest w =
     (if mode (ctx w a) = CONTEXT_METALFX \<and> rest \<noteq> [] then (FFX_ERROR_UNKNOWN_DESCTYPE, w)
      else if mode (ctx w a) = CONTEXT_METALFX \<and> cg_flags desc AND FG_NATIVE_ONLY_FLAGS \<noteq> 0
      then (FFX_ERROR_UNKNOWN_DESCTYPE, w)
      else if \<not> notify desc then configure_direct a desc rest w
      else if cg_swapChain desc = 0 then (FFX_ERROR_PARAMETER, w)
      else
        let (sc, w) = get_stable_swapchain (cg_swapChain desc) w in
        if sc = 0 then (FFX_ERROR_PARAMETER, w)
        else if swapchain (ctx w a) \<noteq> 0 \<and> swapchain (ctx w a) \<noteq> sc then
          if enabled (ctx w a) then (FFX_ERROR_PARAMETER, release_swapchain sc w)
          else
            let (result, w) = detach_swapchain a w in
            if result \<noteq> FFX_OK then (result, release_swapchain sc w)
            else configure_swapchain a desc rest sc w
        else configure_swapchain a desc rest sc w)"

definition set_mode :: "addr \<Rightarrow> context_mode \<Rightarrow> fg_world \<Rightarrow> fg_world" where
  "set_mode a m w = upd a (\<lambda>c. c\<lparr>mode := m\<rparr>) w"

definition select_native :: "addr \<Rightarrow> fg_world \<Rightarrow> u32 \<times> fg_world" where
  "select_native a w =
     (let w = set_mode a CONTEXT_NATIVE w in
      if native_config_valid (ctx w a) then
        if configure_invalid (ctx w a) (native_config (ctx w a)) then (FFX_ERROR_PARAMETER, w)
        else configure_selected a (native_config (ctx w a)) [] w
      else (FFX_OK, w))"

definition configure_frame_generation ::
    "addr \<Rightarrow> configure_fg \<Rightarrow> desc_body list \<Rightarrow> fg_world \<Rightarrow> u32 \<times> fg_world" where
  "configure_frame_generation a desc rest w =
     (if configure_invalid (ctx w a) desc then (FFX_ERROR_PARAMETER, w)
      else if mode (ctx w a) = MODE_PENDING then
        if rest \<noteq> [] \<or> cg_flags desc AND FG_NATIVE_ONLY_FLAGS \<noteq> 0 then
          and_ok (select_native a w) (configure_selected a desc rest)
        else if notify desc \<and> cg_swapChain desc = 0 then (FFX_ERROR_PARAMETER, w)
        else (FFX_OK, store_native_config a desc w)
      else configure_selected a desc rest w)"

text \<open>\<open>select_native\<close> as the C code has it.\<close>

lemma select_native_eq:
  assumes "heap w a \<noteq> None"
  shows "select_native a w =
     (let w = set_mode a CONTEXT_NATIVE w in
      if native_config_valid (ctx w a)
      then configure_frame_generation a (native_config (ctx w a)) [] w
      else (FFX_OK, w))"
  using assms
  by (auto simp: select_native_def configure_frame_generation_def set_mode_def upd_def ctx_def Let_def)

end
