(* ===== verification/Fg_Api.thy ===== *)
theory Fg_Api
  imports Fg_Configure
begin

text \<open>
  The entry points of the frame-generation DLL: \<open>ffxCreateContext\<close>, \<open>ffxDestroyContext\<close>,
  \<open>ffxConfigure\<close>, \<open>ffxQuery\<close>, \<open>ffxDispatch\<close>, and the two callbacks it installs in the native
  swapchain. Pointers to descriptors are addresses in \<open>mem\<close>; after \<open>valid_chain\<close> the code walks
  \<open>bodies (mem w) desc\<close>.
\<close>

subsection \<open>Dispatch\<close>

definition native_dispatch :: "addr \<Rightarrow> desc_body \<Rightarrow> desc_body list \<Rightarrow> fg_world \<Rightarrow> u32 \<times> fg_world" where
  "native_dispatch a desc rest w =
     (let (ans, w) = native_call (NativeDispatch (original (ctx w a)) (desc # rest)) w
      in (na_code ans, w))"

text \<open>The first block: a pending context, outside callbacks, with the configure lock held.\<close>

definition dispatch_pending :: "addr \<Rightarrow> desc_body \<Rightarrow> desc_body list \<Rightarrow> fg_world \<Rightarrow> u32 \<times> fg_world" where
  "dispatch_pending a desc rest w =
     (if \<not> is_prepare desc then (FFX_ERROR_UNKNOWN_DESCTYPE, w)
      else if prepare_has_native_only_flags (prepare_flags desc) \<or> prepare_requires_native desc rest then
        and_ok (select_native a w) (native_dispatch a desc rest)
      else
        let w = acquire (DispatchLock a) w;
            (result, w) = translated_prepare a desc rest w;
            w = release (DispatchLock a) w
        in if result = BRIDGE_INELIGIBLE then
             and_ok (select_native a w) (native_dispatch a desc rest)
           else if result = FFX_OK then
             let w = set_mode a CONTEXT_METALFX w in
             if native_config_valid (ctx w a)
             then configure_frame_generation a (native_config (ctx w a)) [] w
             else (FFX_OK, w)
           else (result, w))"

text \<open>The second block, under the dispatch lock; the frame to retire when the dispatch was direct.\<close>

definition dispatch_selected ::
    "addr \<Rightarrow> desc_body \<Rightarrow> desc_body list \<Rightarrow> fg_world \<Rightarrow> u32 \<times> u64 option \<times> fg_world" where
  "dispatch_selected a desc rest w =
     (if mode (ctx w a) \<noteq> CONTEXT_METALFX then
        let (result, w) = native_dispatch a desc rest w in (result, None, w)
      else if is_prepare desc then
        if prepare_has_native_only_flags (prepare_flags desc) then (FFX_ERROR_UNKNOWN_DESCTYPE, None, w)
        else let (result, w) = translated_prepare a desc rest w in (result, None, w)
      else
        case desc of
          DispatchFG d \<Rightarrow>
            let (result, w) = translated_dispatch a d rest w in
            (result,
             if result = FFX_OK \<and> native_config_valid (ctx w a) \<and>
                cg_flags (native_config (ctx w a)) AND FG_FLAG_NO_SWAPCHAIN_CONTEXT_NOTIFY \<noteq> 0
             then Some (dg_frameID d) else None, w)
        | _ \<Rightarrow> (FFX_ERROR_UNKNOWN_DESCTYPE, None, w))"

definition dispatch_context :: "addr \<Rightarrow> desc_body \<Rightarrow> desc_body list \<Rightarrow> fg_world \<Rightarrow> u32 \<times> fg_world" where
  "dispatch_context a desc rest w =
     (if \<not> in_callback w \<and> mode (ctx w a) = MODE_PENDING then
        let w = acquire (ConfigureLock a) w;
            (result, w) = dispatch_pending a desc rest w
        in (result, release (ConfigureLock a) w)
      else
        let w = (if \<not> in_callback w
                 then release (ConfigureLock a) (acquire (ConfigureLock a) w) else w);
            w = acquire (DispatchLock a) w;
            (result, direct_frame, w) = dispatch_selected a desc rest w;
            w = release (DispatchLock a) w;
            w = (case direct_frame of None \<Rightarrow> w | Some frame \<Rightarrow> retire_frame_configs a frame w)
        in (result, w))"

subsection \<open>Callbacks\<close>

text \<open>The context whose callback binding is the block at \<open>user\<close>; \<open>None\<close> when no live binding is there.\<close>

definition find_binding :: "fg_world \<Rightarrow> addr \<Rightarrow> callback_binding option" where
  "find_binding w user =
     (case List.find (\<lambda>a. map_option fst (binding (ctx w a)) = Some user) (contexts w) of
        None \<Rightarrow> None
      | Some a \<Rightarrow> map_option snd (binding (ctx w a)))"

text \<open>What the application's callbacks do is not part of the repository: \<open>app\<close> is the function behind
  \<open>binding->generate\<close>, which may call the API again and edit the descriptor.\<close>

definition generation_callback ::
    "(dispatch_fg \<Rightarrow> fg_world \<Rightarrow> u32 \<times> dispatch_fg \<times> fg_world) \<Rightarrow> dispatch_fg \<Rightarrow> desc_body list \<Rightarrow>
     addr \<Rightarrow> fg_world \<Rightarrow> u32 \<times> dispatch_fg \<times> fg_world" where
  "generation_callback app desc rest user w =
     (if user = 0 then (FFX_ERROR_PARAMETER, desc, w) else
      case find_binding w user of
        None \<Rightarrow> (FFX_ERROR_RUNTIME_ERROR, desc, set_fault w)
      | Some b \<Rightarrow>
          let w = enter_callback (cb_context b) w;
              (result, desc, w) =
                (if cb_generate b \<noteq> 0
                 then app desc (emit (AppGenerate (cb_generate b) (cb_generate_user b) desc) w)
                 else let (r, w) = dispatch_context (cb_context b) (DispatchFG desc) rest w in (r, desc, w));
              desc = (if result \<noteq> FFX_OK then desc\<lparr>dg_numGeneratedFrames := 0\<rparr> else desc);
              w = retire_frame_configs (cb_context b) (dg_frameID desc) w;
              w = leave_callback w
          in (result, desc, w))"

definition present_callback ::
    "(fg_world \<Rightarrow> u32 \<times> fg_world) \<Rightarrow> addr \<Rightarrow> fg_world \<Rightarrow> u32 \<times> fg_world" where
  "present_callback app user w =
     (if user = 0 then (FFX_ERROR_PARAMETER, w) else
      case find_binding w user of
        None \<Rightarrow> (FFX_ERROR_RUNTIME_ERROR, set_fault w)
      | Some b \<Rightarrow>
          if cb_present b = 0 then (FFX_ERROR_PARAMETER, w) else
          let w = enter_callback (cb_context b) w;
              (result, w) = app (emit (AppPresent (cb_present b) (cb_present_user b)) w);
              w = leave_callback w
          in (result, w))"

subsection \<open>Creation\<close>

definition free_context_storage :: "addr \<Rightarrow> fg_world \<Rightarrow> fg_world" where
  "free_context_storage a w =
     (let callbacks = context_allocator (ctx w a);
          w = clear_frame_configs a w;
          w = release_resource (hudless (ctx w a)) w;
          w = (if device (ctx w a) \<noteq> 0 then com_release (device (ctx w a)) w else w);
          w = w\<lparr>heap := (heap w)(a := None)\<rparr>
      in free_memory callbacks a w)"

definition make_create_packet :: "create_fg \<Rightarrow> addr \<Rightarrow> create_packet" where
  "make_create_packet desc dev =
     \<lparr>kc_device = dev,
      kc_display_width = cf_display_width desc,
      kc_display_height = cf_display_height desc,
      kc_max_render_width = cf_max_render_width desc,
      kc_max_render_height = cf_max_render_height desc,
      kc_backbuffer_format = cf_backBufferFormat desc,
      kc_flags =
        (if cf_flags desc AND FG_ENABLE_DEPTH_INVERTED \<noteq> 0 then 1 else 0) OR
        (if cf_flags desc AND FG_ENABLE_DEPTH_INFINITE \<noteq> 0 then 2 else 0) OR
        (if cf_flags desc AND FG_ENABLE_DISPLAY_RESOLUTION_MOTION_VECTORS \<noteq> 0 then 4 else 0) OR
        (if cf_flags desc AND FG_ENABLE_MOTION_VECTORS_JITTER_CANCELLATION \<noteq> 0 then 8 else 0)\<rparr>"

definition select_translation :: "addr \<Rightarrow> create_fg \<Rightarrow> addr \<Rightarrow> fg_world \<Rightarrow> u32 \<times> fg_world" where
  "select_translation a desc dev w =
     (let (result, context, w) =
            bridge_call (initialize_packet (CreatePacket (make_create_packet desc dev))
                           YAAGL_FSR_FG_CREATE 0) w
      in if result \<noteq> FFX_OK then
           if context \<noteq> 0 then
             let (cleanup, w) = destroy_translation context w
             in (if cleanup \<noteq> FFX_OK then cleanup else result, w)
           else (result, w)
         else if context = 0 then (FFX_ERROR_RUNTIME_ERROR, w)
         else (FFX_OK, upd a (\<lambda>c. c\<lparr>translated := context, mode := MODE_PENDING\<rparr>) w))"

abbreviation (input) AUTOMATIC_PROVIDER_ID :: u64 where "AUTOMATIC_PROVIDER_ID \<equiv> 0x5941474647000001"
abbreviation (input) METALFX_PROVIDER_ID :: u64 where "METALFX_PROVIDER_ID \<equiv> 0x4d46584647000001"

definition native_create :: "addr \<Rightarrow> addr \<Rightarrow> ffx_callbacks option \<Rightarrow> fg_world \<Rightarrow> u32 \<times> fg_world" where
  "native_create a desc callbacks w =
     (let (ans, w) = native_call (NativeCreate (bodies (mem w) desc) callbacks) w
      in (na_code ans, upd a (\<lambda>c. c\<lparr>original := na_context ans\<rparr>) w))"

text \<open>\<open>override\<close> is the address of the override descriptor and the version it asks for.\<close>

definition create_original ::
    "addr \<Rightarrow> addr \<Rightarrow> (addr \<times> u64) option \<Rightarrow> ffx_callbacks option \<Rightarrow> fg_world \<Rightarrow> u32 \<times> fg_world" where
  "create_original a desc override callbacks w =
     (let (ok, w) = have_native w in
      if \<not> ok then (FFX_NO_PROVIDER, w) else
      case override of
        None \<Rightarrow> native_create a desc callbacks w
      | Some (ov, version) \<Rightarrow>
          if version \<noteq> AUTOMATIC_PROVIDER_ID \<and> version \<noteq> METALFX_PROVIDER_ID
          then native_create a desc callbacks w
          else
            case previous_of None (entries (mem w) desc) ov of
              Some previous \<Rightarrow>
                let w = w\<lparr>mem := set_next previous (pNext (mem w ov)) (mem w)\<rparr>;
                    (result, w) = native_create a desc callbacks w
                in (result, w\<lparr>mem := set_next previous ov (mem w)\<rparr>)
            | None \<Rightarrow> native_create a (pNext (mem w ov)) callbacks w)"

text \<open>The two loops over the chain: the first finds the kind of context, the second the entries a
  frame-generation context takes.\<close>

fun scan_kind :: "desc_body list \<Rightarrow> create_fg option \<Rightarrow> bool \<Rightarrow> u32 + (create_fg option \<times> bool)" where
  "scan_kind [] fg is_swapchain = Inr (fg, is_swapchain)"
| "scan_kind (entry # rest) fg is_swapchain =
     (case entry of
        CreateFG d \<Rightarrow> if fg \<noteq> None then Inl FFX_ERROR_PARAMETER else scan_kind rest (Some d) is_swapchain
      | SwapchainWrap \<Rightarrow> if is_swapchain then Inl FFX_ERROR_PARAMETER else scan_kind rest fg True
      | SwapchainNew \<Rightarrow> if is_swapchain then Inl FFX_ERROR_PARAMETER else scan_kind rest fg True
      | SwapchainForHwnd \<Rightarrow> if is_swapchain then Inl FFX_ERROR_PARAMETER else scan_kind rest fg True
      | _ \<Rightarrow> scan_kind rest fg is_swapchain)"

record create_scan =
  cs_backend :: "addr option"
  cs_version :: "u32 option"
  cs_hudless :: "u32 option"
  cs_override :: "(addr \<times> u64) option"
  cs_native_only :: bool

abbreviation (input) FFX_FRAMEGENERATION_VERSION :: u32 where "FFX_FRAMEGENERATION_VERSION \<equiv> 0x1000000"

fun scan_create :: "(addr \<times> desc_body) list \<Rightarrow> create_scan \<Rightarrow> u32 + create_scan" where
  "scan_create [] s = Inr s"
| "scan_create ((p, entry) # rest) s =
     (case entry of
        CreateFG d \<Rightarrow> scan_create rest s
      | BackendDX12 dev \<Rightarrow>
          if cs_backend s \<noteq> None then Inl FFX_ERROR_PARAMETER
          else scan_create rest (s\<lparr>cs_backend := Some dev\<rparr>)
      | CreateFGVersion v \<Rightarrow>
          if cs_version s \<noteq> None then Inl FFX_ERROR_PARAMETER
          else scan_create rest (s\<lparr>cs_version := Some v,
                 cs_native_only := (v \<noteq> FFX_FRAMEGENERATION_VERSION \<or> cs_native_only s)\<rparr>)
      | CreateFGHudless f \<Rightarrow>
          if cs_hudless s \<noteq> None then Inl FFX_ERROR_PARAMETER
          else scan_create rest (s\<lparr>cs_hudless := Some f\<rparr>)
      | OverrideVersion v \<Rightarrow>
          if cs_override s \<noteq> None then Inl FFX_ERROR_PARAMETER
          else scan_create rest (s\<lparr>cs_override := Some (p, v),
                 cs_native_only := ((v \<noteq> AUTOMATIC_PROVIDER_ID \<and> v \<noteq> METALFX_PROVIDER_ID) \<or> cs_native_only s)\<rparr>)
      | _ \<Rightarrow> scan_create rest (s\<lparr>cs_native_only := True\<rparr>))"

definition empty_scan :: create_scan where
  "empty_scan = \<lparr>cs_backend = None, cs_version = None, cs_hudless = None, cs_override = None,
                 cs_native_only = False\<rparr>"

definition create_invalid :: "create_fg \<Rightarrow> addr option \<Rightarrow> bool" where
  "create_invalid fg backend \<longleftrightarrow>
     backend = None \<or> backend = Some 0 \<or>
     cf_display_width fg = 0 \<or> cf_display_height fg = 0 \<or>
     cf_max_render_width fg = 0 \<or> cf_max_render_height fg = 0 \<or>
     cf_max_render_width fg > cf_display_width fg \<or>
     cf_max_render_height fg > cf_display_height fg \<or>
     cf_flags fg AND NOT (FG_ENABLE_ASYNC_WORKLOAD_SUPPORT OR
       FG_ENABLE_DISPLAY_RESOLUTION_MOTION_VECTORS OR FG_ENABLE_MOTION_VECTORS_JITTER_CANCELLATION OR
       FG_ENABLE_DEPTH_INVERTED OR FG_ENABLE_DEPTH_INFINITE OR FG_ENABLE_HIGH_DYNAMIC_RANGE OR
       FG_ENABLE_DEBUG_CHECKING) \<noteq> 0"

text \<open>A new context, before any provider is asked.\<close>

definition new_context :: "ffx_callbacks option \<Rightarrow> fg_context" where
  "new_context callbacks =
     (case callbacks of
        None \<Rightarrow> zero_context\<lparr>references := 1\<rparr>
      | Some cb \<Rightarrow> zero_context\<lparr>allocation := cb, custom_allocation := True, references := 1\<rparr>)"

text \<open>The branch for a frame-generation context.\<close>

definition create_fg_context ::
    "addr \<Rightarrow> addr \<Rightarrow> create_fg \<Rightarrow> create_scan \<Rightarrow> addr \<Rightarrow> ffx_callbacks option \<Rightarrow> fg_world \<Rightarrow>
     u32 \<times> fg_world" where
  "create_fg_context a desc fg s dev callbacks w =
     (let w = upd a (\<lambda>c. c\<lparr>device := dev,
                display_width := cf_display_width fg, display_height := cf_display_height fg,
                max_render_width := cf_max_render_width fg, max_render_height := cf_max_render_height fg,
                hudless_format := (case cs_hudless s of
                    Some f \<Rightarrow> if f \<noteq> 0 then f else cf_backBufferFormat fg
                  | None \<Rightarrow> cf_backBufferFormat fg),
                debug_checking := (cf_flags fg AND FG_ENABLE_DEBUG_CHECKING \<noteq> 0),
                depth_infinite := (cf_flags fg AND FG_ENABLE_DEPTH_INFINITE \<noteq> 0)\<rparr>) w;
          w = com_addref dev w;
          w = set_mode a CONTEXT_NATIVE w;
          (result, w) = create_original a desc (cs_override s) callbacks w;
          result = (if result = FFX_OK \<and> original (ctx w a) = 0 then FFX_ERROR_RUNTIME_ERROR else result)
      in if result = FFX_OK \<and> \<not> cs_native_only s then
           let (result, w) = select_translation a fg dev w
           in (if result = BRIDGE_INELIGIBLE then FFX_OK else result, w)
         else (result, w))"

text \<open>The end of \<open>ffxCreateContext\<close>: publish the context, or take everything back.\<close>

definition finish_create :: "addr \<Rightarrow> ffx_callbacks option \<Rightarrow> u32 \<Rightarrow> fg_world \<Rightarrow> u32 \<times> addr \<times> fg_world" where
  "finish_create a callbacks result w =
     (let result = (if result = FFX_OK \<and> mode (ctx w a) \<noteq> CONTEXT_METALFX \<and> original (ctx w a) = 0
                    then FFX_ERROR_RUNTIME_ERROR else result)
      in if result \<noteq> FFX_OK then
           let w = (if translated (ctx w a) \<noteq> 0
                    then snd (destroy_translation (translated (ctx w a)) w) else w);
               w = (if original (ctx w a) \<noteq> 0 \<and> native_ready w
                    then snd (native_call (NativeDestroy (original (ctx w a)) callbacks) w) else w)
           in (result, 0, free_context_storage a w)
         else
           let w = acquire ContextsLock w;
               w = w\<lparr>contexts := a # contexts w\<rparr>
           in (FFX_OK, a, release ContextsLock w))"

text \<open>The return code, what \<open>*output\<close> holds afterwards (when \<open>output\<close> is not NULL), and the world.\<close>

definition ffxCreateContext ::
    "bool \<Rightarrow> addr \<Rightarrow> ffx_callbacks option \<Rightarrow> fg_world \<Rightarrow> u32 \<times> addr \<times> fg_world" where
  "ffxCreateContext output desc callbacks w =
     (if \<not> output then (FFX_ERROR_PARAMETER, 0, w)
      else if desc = 0 \<or> \<not> valid_chain (mem w) desc \<or>
              (case callbacks of Some cb \<Rightarrow> (alloc cb \<noteq> 0) \<noteq> (dealloc cb \<noteq> 0) | None \<Rightarrow> False)
      then (FFX_ERROR_PARAMETER, 0, w)
      else
        case scan_kind (bodies (mem w) desc) None False of
          Inl err \<Rightarrow> (err, 0, w)
        | Inr (fg, is_swapchain) \<Rightarrow>
            if fg \<noteq> None \<and> is_swapchain then (FFX_ERROR_PARAMETER, 0, w)
            else
              case fg of
                None \<Rightarrow>
                  if \<not> is_swapchain then (FFX_NO_PROVIDER, 0, w)
                  else
                    let (a, w) = allocate_memory callbacks w in
                    if a = 0 then (FFX_ERROR_MEMORY, 0, w) else
                    let w = w\<lparr>heap := (heap w)(a \<mapsto> new_context callbacks)\<rparr>;
                        w = set_mode a CONTEXT_SWAPCHAIN w;
                        (ok, w) = have_native w
                    in if \<not> ok then (FFX_NO_PROVIDER, 0, free_context_storage a w)
                       else let (result, w) = native_create a desc callbacks w
                            in finish_create a callbacks result w
              | Some fg \<Rightarrow>
                  (case scan_create (map (\<lambda>p. (p, body (mem w p))) (entries (mem w) desc)) empty_scan of
                     Inl err \<Rightarrow> (err, 0, w)
                   | Inr s \<Rightarrow>
                       (case cs_backend s of
                          None \<Rightarrow> (FFX_ERROR_PARAMETER, 0, w)
                        | Some dev \<Rightarrow>
                            if create_invalid fg (Some dev) then (FFX_ERROR_PARAMETER, 0, w)
                            else
                              let (a, w) = allocate_memory callbacks w in
                              if a = 0 then (FFX_ERROR_MEMORY, 0, w) else
                              let w = w\<lparr>heap := (heap w)(a \<mapsto> new_context callbacks)\<rparr>;
                                  (result, w) = create_fg_context a desc fg s dev callbacks w
                              in finish_create a callbacks result w)))"

subsection \<open>Destruction\<close>

definition set_closing :: "addr \<Rightarrow> bool \<Rightarrow> fg_world \<Rightarrow> fg_world" where
  "set_closing a b w =
     release ContextsLock (upd a (\<lambda>c. c\<lparr>closing := b\<rparr>) (acquire ContextsLock w))"

text \<open>
  The providers are destroyed; what is left of the context when one of them refuses is the state the
  function leaves for a second attempt. The wait for other users of the context never ends unless the
  reference count is one, because no other thread runs in the model: a count that is not one is a fault.
\<close>

definition destroy_providers :: "addr \<Rightarrow> fg_world \<Rightarrow> u32 \<times> fg_world" where
  "destroy_providers a w =
     (let w = release ContextsLock (acquire ContextsLock w);
          w = (if references (ctx w a) \<noteq> 1 then set_fault w else w);
          (result, w) =
            (if translated (ctx w a) \<noteq> 0 then
               let (r, w) = destroy_translation (translated (ctx w a)) w
               in (r, if r = FFX_OK then upd a (\<lambda>c. c\<lparr>translated := 0\<rparr>) w else w)
             else (FFX_OK, w))
      in if result = FFX_OK \<and> original (ctx w a) \<noteq> 0 then
           let (ans, w) = native_call (NativeDestroy (original (ctx w a))
                                         (context_allocator (ctx w a))) w
           in (na_code ans, upd a (\<lambda>c. c\<lparr>original := na_context ans\<rparr>) w)
         else (result, w))"

text \<open>The return code, what \<open>*handle\<close> holds afterwards, and the world.\<close>

definition ffxDestroyContext ::
    "addr option \<Rightarrow> ffx_callbacks option \<Rightarrow> fg_world \<Rightarrow> u32 \<times> addr option \<times> fg_world" where
  "ffxDestroyContext handle callbacks w =
     (if handle = None \<or> handle = Some 0 \<or> in_callback w then (FFX_ERROR_PARAMETER, handle, w) else
      let a = the handle;
          w = acquire ContextsLock w
      in if a \<notin> set (contexts w) \<or> closing (ctx w a) \<or> \<not> matching_allocator (ctx w a) callbacks
         then (FFX_ERROR_PARAMETER, handle, release ContextsLock w)
         else
      let w = upd a (\<lambda>c. c\<lparr>closing := True\<rparr>) w;
          w = release ContextsLock w;
          w = acquire (ConfigureLock a) w;
          (detach_result, w) = detach_swapchain a w;
          w = release (ConfigureLock a) w
      in if swapchain (ctx w a) \<noteq> 0 then (detach_result, handle, set_closing a False w)
         else
      let (result, w) = destroy_providers a w
      in if result \<noteq> FFX_OK then (result, handle, set_closing a False w)
         else
      let w = acquire ContextsLock w;
          w = w\<lparr>contexts := remove1 a (contexts w)\<rparr>;
          w = release ContextsLock w
      in (detach_result, Some 0, free_context_storage a w))"

subsection \<open>Configure\<close>

definition store_debug :: "addr option \<Rightarrow> addr \<Rightarrow> u32 \<Rightarrow> fg_world \<Rightarrow> fg_world" where
  "store_debug context fpMessage level w =
     (let w = acquire DebugLock w;
          w = (case context of
                 Some a \<Rightarrow> upd a (\<lambda>c. c\<lparr>message := fpMessage, debug_level := level\<rparr>) w
               | None \<Rightarrow> w\<lparr>global_message := fpMessage, global_debug_level := level\<rparr>)
      in release DebugLock w)"

definition configure_debug ::
    "addr option \<Rightarrow> addr \<Rightarrow> u32 \<Rightarrow> desc_body list \<Rightarrow> fg_world \<Rightarrow> u32 \<times> fg_world" where
  "configure_debug handle fpMessage level rest w =
     (if rest \<noteq> [] \<or> \<not> valid_debug_level level then (FFX_ERROR_PARAMETER, w) else
      let (context, w) = (if handle \<noteq> None then acquire_context handle w else (None, w)) in
      if handle \<noteq> None \<and> context = None then (FFX_ERROR_PARAMETER, w) else
      let (ok, w) = have_native w;
          (result, w) =
            (if ok then
               let (ans, w) = native_call (NativeConfigure (map_option (\<lambda>a. original (ctx w a)) context)
                                             (GlobalDebug1 fpMessage level # rest)) w
               in (na_code ans, w)
             else (FFX_OK, w));
          w = (if result = FFX_OK then store_debug context fpMessage level w else w)
      in (result, case context of Some a \<Rightarrow> release_context a w | None \<Rightarrow> w))"

text \<open>What \<open>ffxConfigure\<close> does with an acquired context, under its configure lock.\<close>

definition configure_context :: "addr \<Rightarrow> desc_body \<Rightarrow> desc_body list \<Rightarrow> fg_world \<Rightarrow> u32 \<times> fg_world" where
  "configure_context a desc rest w =
     (if closing (ctx w a) then (FFX_ERROR_PARAMETER, w)
      else if mode (ctx w a) = CONTEXT_SWAPCHAIN then
        native_configure a (desc # rest) w
      else
        case desc of
          ConfigureFG d \<Rightarrow> configure_frame_generation a d rest w
        | _ \<Rightarrow>
            if mode (ctx w a) = CONTEXT_NATIVE \<or> mode (ctx w a) = MODE_PENDING then
              and_ok (native_configure a (desc # rest) w) (\<lambda>w.
                if mode (ctx w a) = MODE_PENDING then select_native a w else (FFX_OK, w))
            else (FFX_ERROR_UNKNOWN_DESCTYPE, w))"

definition ffxConfigure :: "addr option \<Rightarrow> addr \<Rightarrow> fg_world \<Rightarrow> u32 \<times> fg_world" where
  "ffxConfigure handle desc w =
     (if desc = 0 \<or> \<not> valid_chain (mem w) desc then (FFX_ERROR_PARAMETER, w)
      else if in_callback w then (FFX_ERROR_PARAMETER, w)
      else
        let d = hd (bodies (mem w) desc); rest = tl (bodies (mem w) desc) in
        case d of
          GlobalDebug1 fpMessage level \<Rightarrow> configure_debug handle fpMessage level rest w
        | _ \<Rightarrow>
            if handle = None then
              let (ok, w) = have_native w in
              if \<not> ok then (FFX_NO_PROVIDER, w)
              else let (ans, w) = native_call (NativeConfigure None (d # rest)) w in (na_code ans, w)
            else
              case acquire_context handle w of
                (None, w) \<Rightarrow> (FFX_ERROR_PARAMETER, w)
              | (Some a, w) \<Rightarrow>
                  let w = acquire (ConfigureLock a) w;
                      (result, w) = configure_context a d rest w;
                      w = release (ConfigureLock a) w;
                      w = (if result \<noteq> FFX_OK then report_validation a w else w)
                  in (result, release_context a w))"

subsection \<open>Query\<close>

definition set_body :: "addr \<Rightarrow> desc_body \<Rightarrow> fg_world \<Rightarrow> fg_world" where
  "set_body p b w = w\<lparr>mem := (mem w)(p := (mem w p)\<lparr>body := b\<rparr>)\<rparr>"

text \<open>A query passed on unchanged: the native provider writes its answer into the descriptor.\<close>

definition native_query :: "addr option \<Rightarrow> addr \<Rightarrow> fg_world \<Rightarrow> u32 \<times> fg_world" where
  "native_query context desc w =
     (let (ans, w) = native_call (NativeQuery context (bodies (mem w) desc)) w
      in (na_code ans, set_body desc (na_body ans) w))"

abbreviation (input) CREATE_CONTEXT_DESC_TYPE_FRAMEGENERATION :: u64 where
  "CREATE_CONTEXT_DESC_TYPE_FRAMEGENERATION \<equiv> 0x20001"

definition automatic_provider_name :: string where
  "automatic_provider_name = ''Yaagl automatic frame generation (MetalFX or native FSR)''"

definition metalfx_provider_name :: string where
  "metalfx_provider_name = ''MetalFX frame generation''"

text \<open>The version query the native provider gets: one slot less, arrays starting at the second slot.\<close>

definition original_query :: "u64 \<Rightarrow> versions_query \<Rightarrow> versions_query" where
  "original_query capacity query =
     query\<lparr>gv_outputCount := Some (if capacity > 1 then capacity - 1 else 0),
           gv_versionIds := (if capacity > 1 then map_option tl (gv_versionIds query) else None),
           gv_versionNames := (if capacity > 1 then map_option tl (gv_versionNames query) else None)\<rparr>"

text \<open>What the arrays hold after the native provider has written its part.\<close>

definition merge_answer :: "u64 \<Rightarrow> 'a list option \<Rightarrow> 'a list option \<Rightarrow> 'a list option" where
  "merge_answer capacity arr written =
     (case arr of
        None \<Rightarrow> None
      | Some xs \<Rightarrow> Some (if capacity > 1 then (case written of Some ys \<Rightarrow> take 1 xs @ ys | None \<Rightarrow> xs)
                         else xs))"

definition query_versions :: "addr \<Rightarrow> versions_query \<Rightarrow> desc_body list \<Rightarrow> fg_world \<Rightarrow> u32 \<times> fg_world" where
  "query_versions desc query rest w =
     (if gv_createDescType query \<noteq> CREATE_CONTEXT_DESC_TYPE_FRAMEGENERATION then
        let (ok, w) = have_native w in
        if \<not> ok then (FFX_NO_PROVIDER, w) else native_query None desc w
      else if rest \<noteq> [] then (FFX_ERROR_UNKNOWN_DESCTYPE, w)
      else
        case gv_outputCount query of
          None \<Rightarrow> (FFX_OK, w)
        | Some capacity \<Rightarrow>
            let (ok, w) = have_native w in
            if \<not> ok then (FFX_NO_PROVIDER, w) else
            let (ans, w) = native_call (NativeQuery None [GetVersions (original_query capacity query)]) w;
                written = (case na_body ans of GetVersions q \<Rightarrow> q | _ \<Rightarrow> original_query capacity query);
                native_count = (case gv_outputCount written of Some n \<Rightarrow> n | None \<Rightarrow> 0);
                ids = merge_answer capacity (gv_versionIds query) (gv_versionIds written);
                names = merge_answer capacity (gv_versionNames query) (gv_versionNames written)
            in if na_code ans \<noteq> FFX_OK then
                 (na_code ans, set_body desc (GetVersions (query\<lparr>gv_versionIds := ids,
                    gv_versionNames := names\<rparr>)) w)
               else
                 (FFX_OK, set_body desc (GetVersions (query\<lparr>
                    gv_outputCount := Some (native_count + 1),
                    gv_versionIds := (if capacity \<noteq> 0
                       then map_option (\<lambda>xs. xs[0 := AUTOMATIC_PROVIDER_ID]) ids else ids),
                    gv_versionNames := (if capacity \<noteq> 0
                       then map_option (\<lambda>xs. xs[0 := automatic_provider_name]) names else names)\<rparr>)) w))"

text \<open>A query on an acquired context.\<close>

definition query_context :: "addr \<Rightarrow> addr \<Rightarrow> fg_world \<Rightarrow> u32 \<times> fg_world" where
  "query_context a desc w =
     (let d = hd (bodies (mem w) desc); rest = tl (bodies (mem w) desc); m = mode (ctx w a) in
      if m \<noteq> CONTEXT_METALFX \<and> m \<noteq> MODE_PENDING then native_query (Some (original (ctx w a))) desc w
      else
        case d of
          GetProviderVersion _ _ \<Rightarrow>
            if rest \<noteq> [] then (FFX_ERROR_UNKNOWN_DESCTYPE, w)
            else (FFX_OK, set_body desc (GetProviderVersion
                    (if m = MODE_PENDING then AUTOMATIC_PROVIDER_ID else METALFX_PROVIDER_ID)
                    (if m = MODE_PENDING then automatic_provider_name else metalfx_provider_name)) w)
        | GetVersions q \<Rightarrow> query_versions desc q rest w
        | FGMemoryUsage \<Rightarrow> (FFX_ERROR_RUNTIME_ERROR, w)
        | FGMemoryUsageV2 \<Rightarrow> (FFX_ERROR_RUNTIME_ERROR, w)
        | _ \<Rightarrow> (FFX_ERROR_UNKNOWN_DESCTYPE, w))"

definition ffxQuery :: "addr option \<Rightarrow> addr \<Rightarrow> fg_world \<Rightarrow> u32 \<times> fg_world" where
  "ffxQuery handle desc w =
     (if desc = 0 \<or> \<not> valid_chain (mem w) desc then (FFX_ERROR_PARAMETER, w)
      else if handle = None then
        case hd (bodies (mem w) desc) of
          GetVersions q \<Rightarrow> query_versions desc q (tl (bodies (mem w) desc)) w
        | GetProviderVersion _ _ \<Rightarrow> (FFX_ERROR_PARAMETER, w)
        | FGMemoryUsage \<Rightarrow> (FFX_ERROR_RUNTIME_ERROR, w)
        | FGMemoryUsageV2 \<Rightarrow> (FFX_ERROR_RUNTIME_ERROR, w)
        | _ \<Rightarrow>
            let (ok, w) = have_native w in
            if \<not> ok then (FFX_NO_PROVIDER, w) else native_query None desc w
      else
        case acquire_context handle w of
          (None, w) \<Rightarrow> (FFX_ERROR_PARAMETER, w)
        | (Some a, w) \<Rightarrow>
            let (result, w) = query_context a desc w in (result, release_context a w))"

subsection \<open>Dispatch entry point\<close>

definition ffxDispatch :: "addr option \<Rightarrow> addr \<Rightarrow> fg_world \<Rightarrow> u32 \<times> fg_world" where
  "ffxDispatch handle desc w =
     (if desc = 0 \<or> \<not> valid_chain (mem w) desc then (FFX_ERROR_PARAMETER, w)
      else
        case acquire_context handle w of
          (None, w) \<Rightarrow> (FFX_ERROR_PARAMETER, w)
        | (Some a, w) \<Rightarrow>
            let d = hd (bodies (mem w) desc); rest = tl (bodies (mem w) desc);
                result = validate_public_dispatch (ctx w a) d rest;
                (result, w) =
                  (if result = FFX_OK then
                     if in_callback w \<and> d = WaitForPresentsDX12 then (FFX_ERROR_PARAMETER, w)
                     else dispatch_context a d rest w
                   else (result, w));
                w = (if result \<noteq> FFX_OK then report_validation a w else w)
            in (result, release_context a w))"

end
