(* ===== verification/Fg_Snapshots.thy ===== *)
theory Fg_Snapshots
  imports Fg_Frames
begin

text \<open>
  What the snapshot list of a frame-generation context means. \<open>newest_upto\<close> is the specification
  of the fallback rule: the newest configuration at or below a frame. \<open>find_frame_config\<close> computes it,
  \<open>retire_frame_configs\<close> keeps it for every frame from the completed one on, and a stored snapshot is
  what its own frame finds.
\<close>

abbreviation frame_ids :: "frame_config_snapshot list \<Rightarrow> u64 list" where
  "frame_ids l \<equiv> map fs_frame_id l"

definition newest_upto :: "u64 \<Rightarrow> frame_config_snapshot list \<Rightarrow> frame_config_snapshot \<Rightarrow> bool" where
  "newest_upto f l s \<longleftrightarrow>
     s \<in> set l \<and> fs_frame_id s \<le> f \<and> (\<forall>t \<in> set l. fs_frame_id t \<le> f \<longrightarrow> fs_frame_id t \<le> fs_frame_id s)"

lemma newest_upto_unique:
  assumes "distinct (frame_ids l)" "newest_upto f l s" "newest_upto f l t"
  shows "s = t"
proof -
  from assms(2,3) have "s \<in> set l" "t \<in> set l" "fs_frame_id s = fs_frame_id t"
    by (auto simp: newest_upto_def intro: antisym)
  with assms(1) show ?thesis by (auto simp: distinct_map dest: inj_onD)
qed

lemma newest_upto_filter:
  assumes "newest_upto f l b" and "f \<le> g"
  shows "newest_upto g (filter (\<lambda>s. fs_frame_id b \<le> fs_frame_id s) l) s \<longleftrightarrow> newest_upto g l s"
  using assms by (fastforce simp: newest_upto_def)

lemma find_loop_Some:
  assumes "find_frame_config_loop f best l = Some s" and "\<And>b. best = Some b \<Longrightarrow> fs_frame_id b \<le> f"
  shows "(s \<in> set l \<or> best = Some s) \<and> fs_frame_id s \<le> f \<and>
     (\<forall>t \<in> set l. fs_frame_id t \<le> f \<longrightarrow> fs_frame_id t \<le> fs_frame_id s) \<and>
     (\<forall>b. best = Some b \<longrightarrow> fs_frame_id b \<le> fs_frame_id s)"
  using assms
proof (induction f best l rule: find_frame_config_loop.induct)
  case (2 f best x l)
  show ?case
  proof (cases "fs_frame_id x = f")
    case True
    with 2(3,4) show ?thesis by auto
  next
    case ne: False
    show ?thesis
    proof (cases "fs_frame_id x < f \<and> (case best of None \<Rightarrow> True | Some b \<Rightarrow> fs_frame_id x > fs_frame_id b)")
      case True
      with 2(1) [OF ne True] 2(3) ne show ?thesis by (fastforce split: option.splits)
    next
      case False
      with 2(2) [OF ne False] 2(3,4) ne show ?thesis by (fastforce split: option.splits)
    qed
  qed
qed auto

lemma find_loop_None:
  "find_frame_config_loop f best l = None \<longleftrightarrow> best = None \<and> (\<forall>t \<in> set l. f < fs_frame_id t)"
  by (induction f best l rule: find_frame_config_loop.induct) (auto split: option.splits)

lemma find_frame_config_Some:
  "find_frame_config l f = Some s \<Longrightarrow> newest_upto f l s"
  using find_loop_Some [of f None l s] by (auto simp: find_frame_config_def newest_upto_def)

lemma find_frame_config_None: "find_frame_config l f = None \<longleftrightarrow> (\<forall>t \<in> set l. f < fs_frame_id t)"
  by (simp add: find_frame_config_def find_loop_None)

lemma find_frame_config_iff:
  assumes "distinct (frame_ids l)"
  shows "find_frame_config l f = Some s \<longleftrightarrow> newest_upto f l s"
proof
  assume n: "newest_upto f l s"
  then have "find_frame_config l f \<noteq> None"
    by (auto simp: find_frame_config_None newest_upto_def not_less [symmetric])
  then obtain t where "find_frame_config l f = Some t" by auto
  with newest_upto_unique [OF assms n find_frame_config_Some] show "find_frame_config l f = Some s" by simp
qed (rule find_frame_config_Some)

lemma find_frame_config_cong:
  assumes "distinct (frame_ids l)" "distinct (frame_ids l')"
    and "\<And>s. newest_upto f l s \<longleftrightarrow> newest_upto f l' s"
  shows "find_frame_config l f = find_frame_config l' f"
  using assms by (metis find_frame_config_iff not_Some_eq)

subsection \<open>Retiring\<close>

lemma floor_loop_Some:
  assumes "floor_loop f best l = Some s" and "\<And>b. best = Some b \<Longrightarrow> fs_frame_id b \<le> f"
  shows "(s \<in> set l \<or> best = Some s) \<and> fs_frame_id s \<le> f \<and>
     (\<forall>t \<in> set l. fs_frame_id t \<le> f \<longrightarrow> fs_frame_id t \<le> fs_frame_id s) \<and>
     (\<forall>b. best = Some b \<longrightarrow> fs_frame_id b \<le> fs_frame_id s)"
  using assms
proof (induction f best l rule: floor_loop.induct)
  case (2 f best x l)
  show ?case
  proof (cases "fs_frame_id x \<le> f \<and> (case best of None \<Rightarrow> True | Some b \<Rightarrow> fs_frame_id x > fs_frame_id b)")
    case True
    with 2(1) [OF True] 2(3) show ?thesis by (fastforce split: option.splits)
  next
    case False
    with 2(2) [OF False] 2(3,4) show ?thesis by (fastforce split: option.splits)
  qed
qed auto

lemma unlink_below_eq:
  "unlink_below f l d =
     (filter (\<lambda>s. f \<le> fs_frame_id s) l, rev (filter (\<lambda>s. \<not> f \<le> fs_frame_id s) l) @ d)"
  by (induction f l d rule: unlink_below.induct) auto

lemma retire_configs_cases:
  obtains "retire_configs f l = (l, [])"
  | b where "newest_upto f l b"
      and "retire_configs f l = (filter (\<lambda>s. fs_frame_id b \<le> fs_frame_id s) l,
                                 rev (filter (\<lambda>s. \<not> fs_frame_id b \<le> fs_frame_id s) l))"
proof (cases "floor_loop f None l")
  case None
  then show ?thesis using that(1) by (simp add: retire_configs_def)
next
  case (Some b)
  with floor_loop_Some [OF Some] show ?thesis
    using that(2) [of b] by (simp add: retire_configs_def unlink_below_eq newest_upto_def)
qed

lemma retire_configs_parts:
  assumes "retire_configs f l = (kept, discard)"
  shows "mset kept + mset discard = mset l" and "\<exists>P. kept = filter P l"
proof -
  show "mset kept + mset discard = mset l"
    by (rule retire_configs_cases [of f l]) (use assms in \<open>auto simp: multiset_partition [symmetric]\<close>)
  show "\<exists>P. kept = filter P l"
  proof (rule retire_configs_cases [of f l])
    assume "retire_configs f l = (l, [])"
    with assms show ?thesis by (intro exI [of _ "\<lambda>_. True"]) simp
  qed (use assms in auto)
qed

lemma retire_configs_find:
  assumes "retire_configs f l = (kept, discard)" and "distinct (frame_ids l)" and "f \<le> g"
  shows "find_frame_config kept g = find_frame_config l g"
proof (rule retire_configs_cases [of f l])
  assume "retire_configs f l = (l, [])"
  with assms(1) show ?thesis by simp
next
  fix b
  assume b: "newest_upto f l b"
    and "retire_configs f l = (filter (\<lambda>s. fs_frame_id b \<le> fs_frame_id s) l,
                               rev (filter (\<lambda>s. \<not> fs_frame_id b \<le> fs_frame_id s) l))"
  with assms(1) have k: "kept = filter (\<lambda>s. fs_frame_id b \<le> fs_frame_id s) l" by simp
  from assms(2) have "distinct (frame_ids kept)" unfolding k by (simp add: distinct_map_filter)
  then show ?thesis
    using assms(2) newest_upto_filter [OF b assms(3)] unfolding k by (intro find_frame_config_cong) auto
qed

subsection \<open>Storing\<close>

lemma replace_snapshot_None:
  "replace_snapshot s l = None \<longleftrightarrow> fs_frame_id s \<notin> set (frame_ids l)"
  by (induction l) (auto split: option.splits)

lemma replace_snapshot_Some:
  "replace_snapshot s l = Some (old, l') \<Longrightarrow>
     \<exists>xs ys. l = xs @ old # ys \<and> l' = xs @ s # ys \<and> fs_frame_id old = fs_frame_id s"
proof (induction l arbitrary: l')
  case (Cons x l)
  show ?case
  proof (cases "fs_frame_id x = fs_frame_id s")
    case True
    with Cons.prems show ?thesis by (intro exI [of _ "[]"] exI [of _ l]) simp
  next
    case False
    with Cons.prems obtain l'' where "replace_snapshot s l = Some (old, l'')" "l' = x # l''"
      by (auto split: option.splits)
    with Cons.IH obtain xs ys where "l = xs @ old # ys" "l'' = xs @ s # ys" "fs_frame_id old = fs_frame_id s"
      by blast
    with \<open>l' = x # l''\<close> show ?thesis by (intro exI [of _ "x # xs"] exI [of _ ys]) simp
  qed
qed simp

lemma find_own_frame:
  assumes "distinct (frame_ids l)" and "s \<in> set l"
  shows "find_frame_config l (fs_frame_id s) = Some s"
  using assms by (simp add: find_frame_config_iff newest_upto_def)

end
