(* ===== verification/Fg_Sym.thy ===== *)
theory Fg_Sym
  imports Fg_Api Fg_Snapshots
begin

text \<open>
  Symbolic states of the frame-generation DLL. \<open>owned\<close> is what one context accounts for: its own
  block, its device, its swapchain reference, its binding, the resource of its stored configuration
  and its snapshots. \<open>sym w0 a Y X c L I w\<close> describes a moment inside an operation on context \<open>a\<close> that
  started in \<open>w0\<close>: nothing went wrong so far, the context now is \<open>c\<close> and no other one has changed,
  everything alive is accounted for by the other contexts (\<open>Y\<close>), by \<open>c\<close>, and by what the operation
  holds in local variables (\<open>X\<close>), the locks held are \<open>L\<close>, and the callback bindings installed in
  swapchains are \<open>I\<close>. Each primitive of \<open>Fg_State\<close> and \<open>Fg_Frames\<close> gets one rule that moves such a
  state forward; the operations are then followed step by step.
\<close>

named_theorems sym_rules \<open>how the primitives move a symbolic state\<close>

subsection \<open>Ownership\<close>

definition res_owned :: "ffx_resource \<Rightarrow> live_res multiset" where
  "res_owned r = (if resource r \<noteq> 0 then {#Com (resource r)#} else {#})"

definition com_owned :: "addr \<Rightarrow> live_res multiset" where
  "com_owned p = (if p \<noteq> 0 then {#Com p#} else {#})"

abbreviation tag_of :: "fg_context \<Rightarrow> ffx_callbacks option" where
  "tag_of c \<equiv> free_tag (context_allocator c)"

definition block_owned :: "ffx_callbacks option \<Rightarrow> addr \<Rightarrow> live_res multiset" where
  "block_owned tag p = (if p \<noteq> 0 then {#Block p tag#} else {#})"

definition snap_owned :: "ffx_callbacks option \<Rightarrow> frame_config_snapshot \<Rightarrow> live_res multiset" where
  "snap_owned tag s = res_owned (fs_hudless s) + block_owned tag (fs_block s)"

definition binding_addr :: "(addr \<times> callback_binding) option \<Rightarrow> addr" where
  "binding_addr bnd = (case bnd of None \<Rightarrow> 0 | Some (p, _) \<Rightarrow> p)"

definition snaps_owned :: "ffx_callbacks option \<Rightarrow> frame_config_snapshot list \<Rightarrow> live_res multiset" where
  "snaps_owned tag l = sum_list (map (snap_owned tag) l)"

definition owned :: "addr \<Rightarrow> fg_context \<Rightarrow> live_res multiset" where
  "owned a c =
     com_owned (device c) + com_owned (swapchain c) + res_owned (hudless c) +
     (block_owned (tag_of c) a + block_owned (tag_of c) (binding_addr (binding c)) +
      snaps_owned (tag_of c) (frame_configs c))"

lemma snaps_owned_simps [simp]:
  "snaps_owned tag [] = {#}"
  "snaps_owned tag (s # l) = snap_owned tag s + snaps_owned tag l"
  "snaps_owned tag (l @ l') = snaps_owned tag l + snaps_owned tag l'"
  by (simp_all add: snaps_owned_def)

lemma com_owned_0 [simp]: "com_owned 0 = {#}"
  and block_owned_0 [simp]: "block_owned tag 0 = {#}"
  and res_owned_zero [simp]: "res_owned zero_resource = {#}"
  and binding_addr_None [simp]: "binding_addr None = 0"
  and binding_addr_Some [simp]: "binding_addr (Some (p, b)) = p"
  by (simp_all add: com_owned_def block_owned_def res_owned_def zero_resource_def binding_addr_def)

lemma snaps_owned_mset: "mset l = mset l' \<Longrightarrow> snaps_owned tag l = snaps_owned tag l'"
  by (metis snaps_owned_def mset_map sum_mset_sum_list)

text \<open>The allocator of a context never changes, and most updates own nothing.\<close>

lemma context_allocator_update [simp]:
  "context_allocator (c\<lparr>frame_configs := l\<rparr>) = context_allocator c"
  "context_allocator (c\<lparr>swapchain := p\<rparr>) = context_allocator c"
  "context_allocator (c\<lparr>binding := bnd\<rparr>) = context_allocator c"
  "context_allocator (c\<lparr>hudless := r\<rparr>) = context_allocator c"
  "context_allocator (c\<lparr>native_config := d\<rparr>) = context_allocator c"
  "context_allocator (c\<lparr>native_config_valid := b\<rparr>) = context_allocator c"
  "context_allocator (c\<lparr>enabled := b\<rparr>) = context_allocator c"
  "context_allocator (c\<lparr>mode := m\<rparr>) = context_allocator c"
  "context_allocator (c\<lparr>references := n\<rparr>) = context_allocator c"
  "context_allocator (c\<lparr>closing := b\<rparr>) = context_allocator c"
  "context_allocator (c\<lparr>have_last_prepare_frame_id := b\<rparr>) = context_allocator c"
  "context_allocator (c\<lparr>last_prepare_frame_id := f\<rparr>) = context_allocator c"
  "context_allocator (c\<lparr>translated := t\<rparr>) = context_allocator c"
  "context_allocator (c\<lparr>original := p\<rparr>) = context_allocator c"
  "context_allocator (c\<lparr>message := p\<rparr>) = context_allocator c"
  "context_allocator (c\<lparr>debug_level := k\<rparr>) = context_allocator c"
  "context_allocator (c\<lparr>device := p\<rparr>) = context_allocator c"
  "context_allocator (c\<lparr>display_width := k\<rparr>) = context_allocator c"
  "context_allocator (c\<lparr>display_height := k\<rparr>) = context_allocator c"
  "context_allocator (c\<lparr>max_render_width := k\<rparr>) = context_allocator c"
  "context_allocator (c\<lparr>max_render_height := k\<rparr>) = context_allocator c"
  "context_allocator (c\<lparr>hudless_format := k\<rparr>) = context_allocator c"
  "context_allocator (c\<lparr>debug_checking := b\<rparr>) = context_allocator c"
  "context_allocator (c\<lparr>depth_infinite := b\<rparr>) = context_allocator c"
  by (simp_all add: context_allocator_def)

subsection \<open>Installed bindings\<close>

text \<open>The binding whose callbacks the last \<open>set_config\<close> installed in a swapchain; 0 for none.\<close>

fun installed :: "ext list \<Rightarrow> addr \<Rightarrow> addr" where
  "installed [] sc = 0"
| "installed (ev # tr) sc =
     (case ev of
        SetConfig sc' config \<Rightarrow>
          if sc' = sc then
            if sc_frameGenerationCallback config = GenerationCallback
            then sc_frameGenerationCallbackContext config else 0
          else installed tr sc
      | _ \<Rightarrow> installed tr sc)"

subsection \<open>Symbolic states\<close>

definition sym :: "fg_world \<Rightarrow> addr \<Rightarrow> live_res multiset \<Rightarrow> live_res multiset \<Rightarrow> fg_context \<Rightarrow>
    lock list \<Rightarrow> (addr \<Rightarrow> addr) \<Rightarrow> fg_world \<Rightarrow> bool" where
  "sym w0 a Y X c L I w \<longleftrightarrow>
     \<not> fault w \<and> heap w = (heap w0)(a \<mapsto> c) \<and> mset (live w) = Y + X + owned a c \<and>
     locks w = L \<and> installed (trace w) = I \<and>
     outside w = outside w0 \<and> mem w = mem w0 \<and> contexts w = contexts w0 \<and> scopes w = scopes w0"

lemma sym_ctx: "sym w0 a Y X c L I w \<Longrightarrow> ctx w a = c"
  by (simp add: sym_def ctx_def)

lemma sym_other: "sym w0 a Y X c L I w \<Longrightarrow> b \<noteq> a \<Longrightarrow> ctx w b = ctx w0 b"
  by (simp add: sym_def ctx_def)

lemma sym_fields:
  assumes "sym w0 a Y X c L I w"
  shows "scopes w = scopes w0" "contexts w = contexts w0" "mem w = mem w0" "in_callback w = in_callback w0"
  using assms by (simp_all add: sym_def in_callback_def)

lemma sym_emit [sym_rules]:
  assumes "sym w0 a Y X c L I w" and "\<And>sc config. ev \<noteq> SetConfig sc config"
  shows "sym w0 a Y X c L I (emit ev w)"
  using assms by (cases ev) (auto simp: sym_def emit_def fun_eq_iff)

lemma sym_upd:
  assumes "sym w0 a Y X c L I w" and "X + owned a c = X' + owned a (f c)"
  shows "sym w0 a Y X' (f c) L I (upd a f w)"
  using assms by (auto simp: sym_def upd_def ac_simps)

lemma sym_upd_same:
  assumes "sym w0 a Y X c L I w" and "owned a (f c) = owned a c"
  shows "sym w0 a Y X (f c) L I (upd a f w)"
  using assms by (auto intro!: sym_upd)

lemma sym_give_back:
  assumes "sym w0 a Y (add_mset r X) c L I w"
  shows "sym w0 a Y X c L I (give_back r w)"
proof -
  have m: "mset (live w) = add_mset r (Y + X + owned a c)" using assms by (simp add: sym_def)
  then have "r \<in># mset (live w)" by simp
  then have "r \<in> set (live w)" by simp
  with assms m show ?thesis by (simp add: sym_def give_back_def)
qed

lemma sym_com_addref:
  "sym w0 a Y X c L I w \<Longrightarrow> sym w0 a Y (add_mset (Com p) X) c L I (com_addref p w)"
  by (simp add: sym_def com_addref_def)

lemma sym_retain_resource:
  "sym w0 a Y X c L I w \<Longrightarrow> sym w0 a Y (res_owned r + X) c L I (retain_resource r w)"
  by (auto simp: retain_resource_def res_owned_def sym_com_addref)

lemma sym_release_resource:
  "sym w0 a Y (res_owned r + X) c L I w \<Longrightarrow> sym w0 a Y X c L I (release_resource r w)"
  by (auto simp: release_resource_def res_owned_def com_release_def intro: sym_give_back split: if_splits)

lemma sym_release_swapchain:
  "sym w0 a Y (com_owned p + X) c L I w \<Longrightarrow> sym w0 a Y X c L I (release_swapchain p w)"
  by (auto simp: release_swapchain_def com_owned_def com_release_def intro: sym_give_back split: if_splits)

lemma sym_free_memory:
  "sym w0 a Y (block_owned (tag_of c) p + X) c L I w \<Longrightarrow>
     sym w0 a Y X c L I (free_memory (context_allocator c) p w)"
  by (auto simp: free_memory_def block_owned_def intro: sym_give_back split: if_splits)

lemma sym_free_memory_None:
  "sym w0 a Y (add_mset (Block p None) X) c L I w \<Longrightarrow> p \<noteq> 0 \<Longrightarrow>
     sym w0 a Y X c L I (free_memory None p w)"
  by (auto simp: free_memory_def free_tag_def intro: sym_give_back)

lemma sym_allocate_memory:
  assumes "sym w0 a Y X c L I w" and "allocate_memory cb w = (p, w')"
  shows "sym w0 a Y (if p = 0 then X else add_mset (Block p (alloc_tag cb)) X) c L I w'"
proof -
  have e: "sym w0 a Y X c L I (emit (Alloc (alloc_tag cb)) w)" using assms(1) by (rule sym_emit) simp
  show ?thesis
  proof (cases "p = 0")
    case True
    with assms(2) e show ?thesis by (auto simp: allocate_memory_def Let_def split: if_splits)
  next
    case False
    with assms(2) have "w' = (emit (Alloc (alloc_tag cb)) w)\<lparr>live := Block p (alloc_tag cb) # live w\<rparr>"
      by (auto simp: allocate_memory_def Let_def split: if_splits)
    moreover have "live w = live (emit (Alloc (alloc_tag cb)) w)" by (simp add: emit_def)
    ultimately show ?thesis using e False by (simp add: sym_def)
  qed
qed

subsection \<open>Locks\<close>

definition free_of :: "lock list \<Rightarrow> bool" where
  "free_of L \<longleftrightarrow> list_all (\<lambda>l. \<exists>a. l = ConfigureLock a) L"

text \<open>\<open>free_of L\<close>: of all locks only configure locks are held.\<close>

lemma free_of_simps [simp]: "free_of []" "free_of [ConfigureLock a]"
  by (simp_all add: free_of_def)

lemma free_of_notin:
  "free_of L \<Longrightarrow> ContextsLock \<notin> set L" "free_of L \<Longrightarrow> DispatchLock a \<notin> set L"
  "free_of L \<Longrightarrow> DebugLock \<notin> set L"
  by (auto simp: free_of_def list_all_iff)

lemma free_of_blocking: "free_of L \<Longrightarrow> \<not> list_ex blocking_lock L"
  by (auto simp: free_of_def list_all_iff list_ex_iff blocking_lock_def)

lemma sym_acquire:
  "sym w0 a Y X c L I w \<Longrightarrow> l \<notin> set L \<Longrightarrow> sym w0 a Y X c (l # L) I (acquire l w)"
  by (auto simp: sym_def acquire_def)

lemma sym_release:
  "sym w0 a Y X c (l # L) I w \<Longrightarrow> sym w0 a Y X c L I (release l w)"
  by (auto simp: sym_def release_def)

subsection \<open>Calls to the outside\<close>

lemma sym_native_call:
  assumes "sym w0 a Y X c L I w" and "native_call ev w = (ans, w')"
    and "\<And>sc config. ev \<noteq> SetConfig sc config"
  shows "sym w0 a Y X c L I w'"
  using sym_emit [OF assms(1), of ev] assms(2,3) by (auto simp: native_call_def Let_def)

lemma sym_bridge_call:
  assumes "sym w0 a Y X c L I w" and "bridge_call p w = (r, x, w')"
  shows "sym w0 a Y X c L I w'"
proof -
  have l: "sym w0 a Y X c L I (load_sidecar w)"
    using assms(1) by (simp add: sym_def load_sidecar_def)
  have "sym w0 a Y X c L I (emit (Sidecar p) (load_sidecar w))" using l by (rule sym_emit) simp
  with l assms show ?thesis
    by (auto simp: bridge_call_def fsr_fg_api_def Let_def split: prod.splits if_splits)
qed

lemma sym_configure_translation:
  "sym w0 a Y X c L I w \<Longrightarrow> configure_translation t en w = (r, w') \<Longrightarrow> sym w0 a Y X c L I w'"
  by (auto simp: configure_translation_def split: prod.splits dest: sym_bridge_call)

lemma sym_destroy_translation:
  "sym w0 a Y X c L I w \<Longrightarrow> destroy_translation t w = (r, w') \<Longrightarrow> sym w0 a Y X c L I w'"
  by (auto simp: destroy_translation_def split: prod.splits dest: sym_bridge_call)

lemma sym_set_config:
  assumes "sym w0 a Y X c L I w" and "free_of L"
  shows "sym w0 a Y X c L
     (I(sc := if sc_frameGenerationCallback config = GenerationCallback
              then sc_frameGenerationCallbackContext config else 0)) (set_config sc config w)"
  using assms free_of_blocking [OF assms(2)]
  by (auto simp: sym_def set_config_def emit_def Let_def fun_eq_iff)

lemma sym_wait_for_presents:
  assumes "sym w0 a Y X c L I w" and "free_of L" and "wait_for_presents sc w = (ok, w')"
  shows "sym w0 a Y X c L I w'"
  using assms free_of_blocking [OF assms(2)] sym_emit [OF assms(1), of "WaitForPresents sc"]
  by (auto simp: wait_for_presents_def Let_def sym_def)

lemma sym_get_stable_swapchain:
  assumes "sym w0 a Y X c L I w" and "get_stable_swapchain obj w = (p, w')"
  shows "sym w0 a Y (com_owned p + X) c L I w'"
proof -
  have "sym w0 a Y X c L I (emit (QueryInterface obj) w)" using assms(1) by (rule sym_emit) simp
  with assms show ?thesis
    by (auto simp: get_stable_swapchain_def Let_def com_owned_def intro: sym_com_addref split: if_splits)
qed

text \<open>Loading the native DLL leaves everything but the trace and the flag as it was.\<close>

lemma give_back_head:
  "live w = r # l \<Longrightarrow> give_back r w = w\<lparr>live := l\<rparr>"
  by (simp add: give_back_def)

lemma have_native_same:
  assumes "have_native w = (ok, w')"
  shows "fault w' = fault w \<and> heap w' = heap w \<and> live w' = live w \<and> locks w' = locks w \<and>
     installed (trace w') = installed (trace w) \<and> outside w' = outside w \<and> mem w' = mem w \<and>
     contexts w' = contexts w \<and> scopes w' = scopes w"
  using assms
  by (auto simp: have_native_def initialize_native_def allocate_memory_def free_memory_def emit_def
      free_tag_def alloc_tag_def give_back_def fun_eq_iff Let_def split: if_splits)

lemma sym_have_native:
  "sym w0 a Y X c L I w \<Longrightarrow> have_native w = (ok, w') \<Longrightarrow> sym w0 a Y X c L I w'"
  using have_native_same [of w ok w'] by (simp add: sym_def)

lemma installed_other: "(\<And>sc config. ev \<noteq> SetConfig sc config) \<Longrightarrow> installed (ev # tr) = installed tr"
  by (cases ev) (auto simp: fun_eq_iff)

end
