(* ===== verification/Fg_Steps.thy ===== *)
theory Fg_Steps
  imports Fg_Sym
begin

text \<open>
  The bookkeeping operations of \<open>Fg_Frames\<close> followed symbolically: what each does to the context, to
  what is alive and to the locks.
\<close>

definition tags_ok :: "fg_context \<Rightarrow> bool" where
  "tags_ok c \<longleftrightarrow> alloc_tag (context_allocator c) = tag_of c"

definition snaps_ok :: "frame_config_snapshot list \<Rightarrow> bool" where
  "snaps_ok l \<longleftrightarrow> distinct (frame_ids l) \<and> length l \<le> 64"

lemma snaps_ok_Nil [simp]: "snaps_ok []"
  by (simp add: snaps_ok_def)

lemma snaps_ok_filter: "snaps_ok l \<Longrightarrow> snaps_ok (filter P l)"
  by (auto simp: snaps_ok_def distinct_map_filter intro: le_trans [OF length_filter_le])

lemma sym_release_frame_config:
  assumes "sym w0 a Y (snap_owned (tag_of c) s + X) c L I w"
  shows "sym w0 a Y X c L I (release_frame_config a s w)"
proof -
  have "sym w0 a Y (res_owned (fs_hudless s) + (block_owned (tag_of c) (fs_block s) + X)) c L I w"
    using assms by (simp add: snap_owned_def ac_simps)
  from sym_release_resource [OF this]
  have s: "sym w0 a Y (block_owned (tag_of c) (fs_block s) + X) c L I (release_resource (fs_hudless s) w)" .
  from sym_free_memory [OF this] show ?thesis
    by (simp add: release_frame_config_def Let_def sym_ctx [OF s])
qed

lemma sym_fold_release:
  assumes "sym w0 a Y (snaps_owned (tag_of c) l + X) c L I w"
  shows "sym w0 a Y X c L I (fold (release_frame_config a) l w)"
  using assms
proof (induction l arbitrary: w)
  case (Cons s l)
  then have "sym w0 a Y (snap_owned (tag_of c) s + (snaps_owned (tag_of c) l + X)) c L I w" by (simp add: ac_simps)
  from sym_release_frame_config [OF this] Cons show ?case by simp
qed simp

lemma sym_snapshot_frame_config:
  assumes s: "sym w0 a Y X c L I w" and L: "DispatchLock a \<notin> set L" and t: "tags_ok c"
    and run: "snapshot_frame_config a desc w = (r, w')"
  obtains l where "sym w0 a Y X (c\<lparr>frame_configs := l\<rparr>) L I w'"
    and "r \<noteq> FFX_OK \<or> \<not> cg_frameGenerationEnabled desc \<Longrightarrow> l = frame_configs c"
    and "snaps_ok (frame_configs c) \<Longrightarrow> snaps_ok l"
    and "r = FFX_OK \<Longrightarrow> cg_frameGenerationEnabled desc \<Longrightarrow>
      \<exists>p. \<lparr>fs_block = p, fs_frame_id = cg_frameID desc, fs_hudless = cg_HUDLessColor desc\<rparr> \<in> set l \<and>
          set l \<subseteq> insert \<lparr>fs_block = p, fs_frame_id = cg_frameID desc, fs_hudless = cg_HUDLessColor desc\<rparr>
                         (set (frame_configs c)) \<and>
          {x \<in> set (frame_configs c). fs_frame_id x \<noteq> cg_frameID desc} \<subseteq> set l"
proof (cases "cg_frameGenerationEnabled desc")
  case False
  with s run show ?thesis using that [of "frame_configs c"] by (simp add: snapshot_frame_config_def)
next
  case en: True
  obtain p w1 where p: "allocate_memory (context_allocator c) w = (p, w1)" by force
  note s1 = sym_allocate_memory [OF s p]
  show ?thesis
  proof (cases "p = 0")
    case True
    with run en p s1 sym_ctx [OF s] show ?thesis
      using that [of "frame_configs c"] by (auto simp: snapshot_frame_config_def Let_def)
  next
    case False
    let ?n = "\<lparr>fs_block = p, fs_frame_id = cg_frameID desc, fs_hudless = cg_HUDLessColor desc\<rparr>"
    let ?w = "acquire (DispatchLock a) (retain_resource (cg_HUDLessColor desc) w1)"
    have n: "snap_owned (tag_of c) ?n = add_mset (Block p (alloc_tag (context_allocator c))) (res_owned (cg_HUDLessColor desc))"
      using t False by (simp add: snap_owned_def block_owned_def tags_ok_def)
    have s2: "sym w0 a Y (snap_owned (tag_of c) ?n + X) c (DispatchLock a # L) I ?w"
      using sym_acquire [OF sym_retain_resource [OF s1, of "cg_HUDLessColor desc"] L] False
      by (simp add: n ac_simps)
    show ?thesis
    proof (cases "replace_snapshot ?n (frame_configs c)")
      case (Some x)
      obtain old l where x: "x = (old, l)" by force
      from replace_snapshot_Some [OF Some [unfolded x]] obtain xs ys where
        l: "frame_configs c = xs @ old # ys" "l = xs @ ?n # ys" "fs_frame_id old = cg_frameID desc" by auto
      let ?c = "c\<lparr>frame_configs := l\<rparr>"
      have "sym w0 a Y (snap_owned (tag_of ?c) old + X) ?c (DispatchLock a # L) I (upd a (\<lambda>c. c\<lparr>frame_configs := l\<rparr>) ?w)"
        by (rule sym_upd [OF s2]) (simp add: owned_def l ac_simps)
      from sym_release_frame_config [OF sym_release [OF this]]
      have "sym w0 a Y X ?c L I w'" and "r = FFX_OK"
        using run en p False Some x sym_ctx [OF s] sym_ctx [OF s2]
        by (auto simp: snapshot_frame_config_def Let_def)
      moreover have "snaps_ok (frame_configs c) \<Longrightarrow> snaps_ok l" using l by (auto simp: snaps_ok_def)
      moreover have "?n \<in> set l" "set l \<subseteq> insert ?n (set (frame_configs c))"
        "{x \<in> set (frame_configs c). fs_frame_id x \<noteq> cg_frameID desc} \<subseteq> set l" using l by auto
      ultimately show ?thesis using that [of l] en by (metis (no_types, lifting))
    next
      case None
      show ?thesis
      proof (cases "length (frame_configs c) \<ge> 64")
        case True
        have "sym w0 a Y X c L I w'" "r \<noteq> FFX_OK"
          using sym_release_frame_config [OF sym_release [OF s2]] run en p False None True
            sym_ctx [OF s] sym_ctx [OF s2]
          by (auto simp: snapshot_frame_config_def Let_def)
        with that [of "frame_configs c"] show ?thesis by simp
      next
        case len: False
        let ?l = "?n # frame_configs c"
        have "sym w0 a Y X (c\<lparr>frame_configs := ?l\<rparr>) (DispatchLock a # L) I
            (upd a (\<lambda>c. c\<lparr>frame_configs := ?n # frame_configs c\<rparr>) ?w)"
          by (rule sym_upd [OF s2]) (simp add: owned_def ac_simps)
        from sym_release [OF this] have "sym w0 a Y X (c\<lparr>frame_configs := ?l\<rparr>) L I w'" "r = FFX_OK"
          using run en p False None len sym_ctx [OF s] sym_ctx [OF s2]
          by (auto simp: snapshot_frame_config_def Let_def)
        moreover have "snaps_ok (frame_configs c) \<Longrightarrow> snaps_ok ?l"
          using None len by (auto simp: snaps_ok_def replace_snapshot_None)
        ultimately show ?thesis using that [of ?l] en by auto
      qed
    qed
  qed
qed

lemma sym_retire_frame_configs:
  assumes s: "sym w0 a Y X c L I w" and L: "DispatchLock a \<notin> set L"
    and r: "retire_configs f (frame_configs c) = (kept, discard)"
  shows "sym w0 a Y X (c\<lparr>frame_configs := kept\<rparr>) L I (retire_frame_configs a f w)"
proof -
  let ?c = "c\<lparr>frame_configs := kept\<rparr>"
  have m: "snaps_owned (tag_of c) (frame_configs c) =
      snaps_owned (tag_of c) discard + snaps_owned (tag_of c) kept"
    using snaps_owned_mset [of "frame_configs c" "discard @ kept" "tag_of c"] retire_configs_parts(1) [OF r]
    by (simp add: ac_simps)
  note s1 = sym_acquire [OF s L]
  have "sym w0 a Y (snaps_owned (tag_of ?c) discard + X) ?c (DispatchLock a # L) I
      (upd a (\<lambda>c. c\<lparr>frame_configs := kept\<rparr>) (acquire (DispatchLock a) w))"
    by (rule sym_upd [OF s1]) (simp add: owned_def m ac_simps)
  from sym_fold_release [OF sym_release [OF this]] show ?thesis
    by (simp add: retire_frame_configs_def Let_def r sym_ctx [OF s1])
qed

lemma sym_clear_frame_configs:
  assumes s: "sym w0 a Y X c L I w" and L: "DispatchLock a \<notin> set L"
  shows "sym w0 a Y X (c\<lparr>frame_configs := [], have_last_prepare_frame_id := False\<rparr>) L I
     (clear_frame_configs a w)"
proof -
  let ?c = "c\<lparr>frame_configs := [], have_last_prepare_frame_id := False\<rparr>"
  note s1 = sym_acquire [OF s L]
  have "sym w0 a Y (snaps_owned (tag_of ?c) (frame_configs c) + X) ?c (DispatchLock a # L) I
      (upd a (\<lambda>c. c\<lparr>frame_configs := [], have_last_prepare_frame_id := False\<rparr>) (acquire (DispatchLock a) w))"
    by (rule sym_upd [OF s1]) (simp add: owned_def ac_simps)
  from sym_fold_release [OF sym_release [OF this]] show ?thesis
    by (simp add: clear_frame_configs_def Let_def sym_ctx [OF s1])
qed

text \<open>Where the code gives a thing back before it clears the pointer to it, the two steps commute.\<close>

lemma upd_give_back: "upd a f (give_back r w) = give_back r (upd a f w)"
  by (auto simp: upd_def give_back_def set_fault_def split: option.splits)

lemma upd_release_resource: "upd a f (release_resource r w) = release_resource r (upd a f w)"
  by (simp add: release_resource_def com_release_def upd_give_back)

lemma upd_free_memory: "upd a f (free_memory cb p w) = free_memory cb p (upd a f w)"
  by (simp add: free_memory_def upd_give_back)

lemma sym_store_native_config:
  assumes s: "sym w0 a Y X c L I w"
  shows "sym w0 a Y X (c\<lparr>hudless := cg_HUDLessColor desc, native_config := desc,
                          native_config_valid := True\<rparr>) L I (store_native_config a desc w)"
proof -
  let ?f = "\<lambda>c. c\<lparr>hudless := cg_HUDLessColor desc, native_config := desc, native_config_valid := True\<rparr>"
  let ?w = "retain_resource (cg_HUDLessColor desc) w"
  have s1: "sym w0 a Y (res_owned (cg_HUDLessColor desc) + X) c L I ?w"
    using s by (rule sym_retain_resource)
  have "sym w0 a Y (res_owned (hudless c) + X) (?f c) L I (upd a ?f ?w)"
    by (rule sym_upd [OF s1]) (simp add: owned_def ac_simps)
  from sym_release_resource [OF this] show ?thesis
    by (simp add: store_native_config_def Let_def sym_ctx [OF s1] upd_release_resource)
qed

end
