(* ===== verification/Fg_Inv.thy ===== *)
theory Fg_Inv
  imports Fg_Steps
begin

text \<open>
  The invariant of a frame-generation context and that detaching and configuring keep it. \<open>ctx_ok\<close> is
  about one context; \<open>wfc\<close> adds how it relates to the others: no two contexts claim one swapchain, and a
  callback binding installed in a swapchain is a live binding of the context that claims the swapchain.
\<close>

definition ctx_ok :: "addr \<Rightarrow> fg_context \<Rightarrow> bool" where
  "ctx_ok a c \<longleftrightarrow>
     a \<noteq> 0 \<and> tags_ok c \<and> snaps_ok (frame_configs c) \<and>
     (\<forall>p b. binding c = Some (p, b) \<longrightarrow>
        p \<noteq> 0 \<and> cb_context b = a \<and> swapchain c \<noteq> 0 \<and> mode c = CONTEXT_METALFX) \<and>
     (mode c = MODE_PENDING \<or> mode c = CONTEXT_SWAPCHAIN \<longrightarrow> swapchain c = 0) \<and>
     (frame_configs c \<noteq> [] \<longrightarrow> mode c = CONTEXT_METALFX) \<and>
     (native_config_valid c \<longrightarrow> cg_HUDLessColor (native_config c) = hudless c)"

text \<open>The other contexts, as \<open>w0\<close> has them.\<close>

definition others :: "fg_world \<Rightarrow> addr \<Rightarrow> fg_context set" where
  "others w0 a = {d. \<exists>b. b \<noteq> a \<and> heap w0 b = Some d}"

definition wfc :: "fg_world \<Rightarrow> addr \<Rightarrow> fg_context \<Rightarrow> (addr \<Rightarrow> addr) \<Rightarrow> bool" where
  "wfc w0 a c I \<longleftrightarrow>
     ctx_ok a c \<and>
     (swapchain c \<noteq> 0 \<longrightarrow> (\<forall>d \<in> others w0 a. swapchain d \<noteq> swapchain c)) \<and>
     (\<forall>sc. I sc \<noteq> 0 \<longrightarrow>
        (\<exists>d \<in> insert c (others w0 a). swapchain d = sc \<and> binding_addr (binding d) = I sc))"

text \<open>What no operation after creation changes, and how the mode may change.\<close>

definition mode_step :: "context_mode \<Rightarrow> context_mode \<Rightarrow> bool" where
  "mode_step m m' \<longleftrightarrow> m' = m \<or> m = MODE_PENDING \<and> (m' = CONTEXT_NATIVE \<or> m' = CONTEXT_METALFX)"

definition keeps :: "fg_context \<Rightarrow> fg_context \<Rightarrow> bool" where
  "keeps c c' \<longleftrightarrow>
     allocation c' = allocation c \<and> custom_allocation c' = custom_allocation c \<and>
     original c' = original c \<and> translated c' = translated c \<and> device c' = device c \<and>
     references c' = references c \<and> closing c' = closing c \<and>
     display_width c' = display_width c \<and> display_height c' = display_height c \<and>
     max_render_width c' = max_render_width c \<and> max_render_height c' = max_render_height c \<and>
     hudless_format c' = hudless_format c \<and> mode_step (mode c) (mode c')"

lemma keeps_refl [simp, intro]: "keeps c c"
  by (simp add: keeps_def mode_step_def)

lemma keeps_update [simp]:
  "keeps c (c'\<lparr>frame_configs := l\<rparr>) = keeps c c'"
  "keeps c (c'\<lparr>swapchain := p\<rparr>) = keeps c c'"
  "keeps c (c'\<lparr>binding := bnd\<rparr>) = keeps c c'"
  "keeps c (c'\<lparr>hudless := r\<rparr>) = keeps c c'"
  "keeps c (c'\<lparr>native_config := d\<rparr>) = keeps c c'"
  "keeps c (c'\<lparr>native_config_valid := b\<rparr>) = keeps c c'"
  "keeps c (c'\<lparr>enabled := b\<rparr>) = keeps c c'"
  "keeps c (c'\<lparr>have_last_prepare_frame_id := b\<rparr>) = keeps c c'"
  "keeps c (c'\<lparr>last_prepare_frame_id := f\<rparr>) = keeps c c'"
  by (simp_all add: keeps_def)

lemma keeps_trans: "keeps c c' \<Longrightarrow> keeps c' c'' \<Longrightarrow> keeps c c''"
  by (auto simp: keeps_def mode_step_def)

lemma wfc_ctx_ok: "wfc w0 a c I \<Longrightarrow> ctx_ok a c"
  by (simp add: wfc_def)

text \<open>An update of fields the invariant does not mention.\<close>

lemma wfc_same:
  assumes "wfc w0 a c I" and "ctx_ok a c'" and "swapchain c' = swapchain c"
    and "binding_addr (binding c') = binding_addr (binding c)"
  shows "wfc w0 a c' I"
  using assms by (auto simp: wfc_def)

subsection \<open>Claims\<close>

lemma sym_claim_swapchain:
  assumes s: "sym w0 a Y (com_owned sc + X) c L I w" and L: "ContextsLock \<notin> set L"
    and c: "swapchain c = 0" and run: "claim_swapchain a sc w = (ok, w')"
  shows "sym w0 a Y (if ok then X else com_owned sc + X) (if ok then c\<lparr>swapchain := sc\<rparr> else c) L I w'"
    and "ok \<longleftrightarrow> \<not> (\<exists>b \<in> set (contexts w0). b \<noteq> a \<and> mode (ctx w0 b) \<noteq> CONTEXT_SWAPCHAIN \<and>
                                         swapchain (ctx w0 b) = sc)"
proof -
  note s1 = sym_acquire [OF s L]
  let ?w = "acquire ContextsLock w"
  have u: "sym w0 a Y X (c\<lparr>swapchain := sc\<rparr>) (ContextsLock # L) I (upd a (\<lambda>c. c\<lparr>swapchain := sc\<rparr>) ?w)"
    by (rule sym_upd [OF s1]) (simp add: owned_def c ac_simps)
  show "sym w0 a Y (if ok then X else com_owned sc + X) (if ok then c\<lparr>swapchain := sc\<rparr> else c) L I w'"
    using run sym_release [OF s1] sym_release [OF u]
    by (auto simp: claim_swapchain_def Let_def split: if_splits)
  have "\<And>b. b \<noteq> a \<Longrightarrow> ctx ?w b = ctx w0 b" using sym_other [OF s1] by simp
  then show "ok \<longleftrightarrow> \<not> (\<exists>b \<in> set (contexts w0). b \<noteq> a \<and> mode (ctx w0 b) \<noteq> CONTEXT_SWAPCHAIN \<and>
                                         swapchain (ctx w0 b) = sc)"
    using run sym_fields(2) [OF s1]
    by (auto simp: claim_swapchain_def Let_def list_ex_iff split: if_splits)
qed

lemma sym_clear_swapchain_claim:
  assumes s: "sym w0 a Y X c L I w" and L: "ContextsLock \<notin> set L"
  shows "sym w0 a Y (com_owned (swapchain c) + X) (c\<lparr>swapchain := 0\<rparr>) L I (clear_swapchain_claim a w)"
proof -
  have "sym w0 a Y (com_owned (swapchain c) + X) (c\<lparr>swapchain := 0\<rparr>) (ContextsLock # L) I
      (upd a (\<lambda>c. c\<lparr>swapchain := 0\<rparr>) (acquire ContextsLock w))"
    by (rule sym_upd [OF sym_acquire [OF s L]]) (simp add: owned_def ac_simps)
  from sym_release [OF this] show ?thesis by (simp add: clear_swapchain_claim_def Let_def)
qed

lemma free_binding_eq:
  "sym w0 a Y X c L I w \<Longrightarrow>
     free_binding a bnd w = free_memory (context_allocator c) (binding_addr bnd) w"
  by (simp add: free_binding_def binding_addr_def sym_ctx)

lemma sym_native_configure:
  "sym w0 a Y X c L I w \<Longrightarrow> native_configure a descs w = (r, w') \<Longrightarrow> sym w0 a Y X c L I w'"
  by (auto simp: native_configure_def split: prod.splits intro: sym_native_call)

subsection \<open>Detaching\<close>

text \<open>The context after a successful detach.\<close>

definition detached :: "fg_context \<Rightarrow> fg_context" where
  "detached c = c\<lparr>swapchain := 0, binding := None, native_config_valid := False,
                  hudless := zero_resource, frame_configs := [], have_last_prepare_frame_id := False,
                  enabled := False, native_config := zero_configure_fg\<rparr>"

lemma sym_detach_tail:
  assumes s: "sym w0 a Y X c L I w" and L: "free_of L"
  shows "sym w0 a Y X (detached c\<lparr>enabled := enabled c, native_config := native_config c\<rparr>) L I
    (let w = clear_swapchain_claim a w;
         w = release_swapchain (swapchain c) w;
         w = free_binding a (binding (ctx w a)) w;
         w = upd a (\<lambda>c. c\<lparr>binding := None, native_config_valid := False\<rparr>) w;
         w = release_resource (hudless (ctx w a)) w;
         w = upd a (\<lambda>c. c\<lparr>hudless := zero_resource\<rparr>) w
     in clear_frame_configs a w)"
proof -
  let ?c1 = "c\<lparr>swapchain := 0\<rparr>"
  let ?w1 = "release_swapchain (swapchain c) (clear_swapchain_claim a w)"
  have s1: "sym w0 a Y X ?c1 L I ?w1"
    by (rule sym_release_swapchain [OF sym_clear_swapchain_claim [OF s free_of_notin(1) [OF L]]])
  let ?f = "\<lambda>c. c\<lparr>binding := None, native_config_valid := False\<rparr>"
  let ?w2 = "free_memory (context_allocator c) (binding_addr (binding c)) (upd a ?f ?w1)"
  have "sym w0 a Y (block_owned (tag_of (?f ?c1)) (binding_addr (binding c)) + X) (?f ?c1) L I (upd a ?f ?w1)"
    by (rule sym_upd [OF s1]) (simp add: owned_def ac_simps)
  from sym_free_memory [OF this] have s2: "sym w0 a Y X (?f ?c1) L I ?w2" by simp
  let ?g = "\<lambda>c. c\<lparr>hudless := zero_resource\<rparr>"
  have "sym w0 a Y (res_owned (hudless c) + X) (?g (?f ?c1)) L I (upd a ?g ?w2)"
    by (rule sym_upd [OF s2]) (simp add: owned_def ac_simps)
  from sym_clear_frame_configs [OF sym_release_resource [OF this] free_of_notin(2) [OF L]]
  have s3: "sym w0 a Y X ((?g (?f ?c1))\<lparr>frame_configs := [], have_last_prepare_frame_id := False\<rparr>) L I
      (clear_frame_configs a (upd a ?g (release_resource (hudless c) ?w2)))"
    by (simp add: upd_release_resource)
  have e: "upd a ?f (free_binding a (binding (ctx ?w1 a)) ?w1) = ?w2"
    by (simp add: free_binding_eq [OF s1] sym_ctx [OF s1] upd_free_memory)
  have h: "hudless (ctx ?w2 a) = hudless c" by (simp add: sym_ctx [OF s2])
  show ?thesis using s3 by (simp add: Let_def e h detached_def)
qed

lemma detached_ok:
  assumes ok: "wfc w0 a c I" and I: "I (swapchain c) = 0 \<or> swapchain c = 0"
  shows "wfc w0 a (detached c) I"
proof -
  have "ctx_ok a (detached c)"
    using ok by (simp add: wfc_def ctx_ok_def detached_def tags_ok_def)
  moreover have "\<exists>d \<in> others w0 a. swapchain d = sc \<and> binding_addr (binding d) = I sc" if "I sc \<noteq> 0" for sc
  proof -
    from ok that obtain d where d: "d \<in> insert c (others w0 a)" "swapchain d = sc"
      "binding_addr (binding d) = I sc" by (auto simp: wfc_def)
    moreover have "d \<noteq> c"
    proof
      assume "d = c"
      with d that obtain p b where "binding c = Some (p, b)" by (cases "binding c") auto
      with wfc_ctx_ok [OF ok] I \<open>d = c\<close> d that show False by (auto simp: ctx_ok_def)
    qed
    ultimately show ?thesis by auto
  qed
  ultimately show ?thesis by (auto simp: wfc_def detached_def)
qed

lemma keeps_detached [simp]: "keeps c (detached c') = keeps c c'"
  by (simp add: detached_def)

lemma wfc_uninstall: "wfc w0 a c I \<Longrightarrow> wfc w0 a c (I(sc := 0))"
  by (simp add: wfc_def)

lemma sym_detach_swapchain:
  assumes s: "sym w0 a Y X c L I w" and L: "free_of L" and ok: "wfc w0 a c I"
    and run: "detach_swapchain a w = (r, w')"
  obtains c' I' where "sym w0 a Y X c' L I' w'" and "wfc w0 a c' I'"
    and "c' = c \<and> (r = FFX_OK \<longrightarrow> swapchain c = 0) \<and>
             (swapchain c = 0 \<or> (\<exists>t. \<not> o_presents (outside w0) t)) \<or> c' = detached c"
proof (cases "swapchain c = 0")
  case True
  with run s that [of c I] ok show ?thesis by (simp add: detach_swapchain_def sym_ctx [OF s])
next
  case sc: False
  let ?sc = "swapchain c"
  obtain r1 w1 where w1: "(if mode c = CONTEXT_NATIVE \<and> native_config_valid c then
       native_configure a [ConfigureFG (native_off_config (native_config c))] w
     else (FFX_OK, w)) = (r1, w1)" by force
  have s1: "sym w0 a Y X c L I w1"
    using w1 s by (auto split: if_splits intro: sym_native_configure)
  let ?I = "I(?sc := 0)"
  have s2: "sym w0 a Y X c L ?I (set_config ?sc (disabled_config ?sc) w1)"
    using sym_set_config [OF s1 L, of ?sc "disabled_config ?sc"]
    by (simp add: disabled_config_def build_swapchain_config_def Let_def)
  obtain waited w2 where w2: "wait_for_presents ?sc (set_config ?sc (disabled_config ?sc) w1) = (waited, w2)"
    by force
  note s3 = sym_wait_for_presents [OF s2 L w2]
  show ?thesis
  proof (cases waited)
    case False
    then have "\<not> o_presents (outside w0) (trace w2)"
      using w2 s3 by (auto simp: wait_for_presents_def Let_def sym_def)
    with False run sc w1 w2 s s3 ok that [of c ?I] show ?thesis
      by (auto simp: detach_swapchain_def sym_ctx [OF s] Let_def wfc_uninstall cong: if_cong)
  next
    case True
    let ?c = "detached c\<lparr>enabled := enabled c, native_config := native_config c\<rparr>"
    let ?w3 = "let w = clear_swapchain_claim a w2;
         w = release_swapchain (swapchain c) w;
         w = free_binding a (binding (ctx w a)) w;
         w = upd a (\<lambda>c. c\<lparr>binding := None, native_config_valid := False\<rparr>) w;
         w = release_resource (hudless (ctx w a)) w;
         w = upd a (\<lambda>c. c\<lparr>hudless := zero_resource\<rparr>) w
     in clear_frame_configs a w"
    note s4 = sym_detach_tail [OF s3 L]
    obtain r4 w4 where w4: "(if mode c = CONTEXT_METALFX then
           let (r, w) = configure_translation (translated c) False ?w3
           in (if r \<noteq> FFX_OK then r else r1, w) else (r1, ?w3)) = (r4, w4)" by force
    have s5: "sym w0 a Y X ?c L ?I w4"
      using w4 s4 by (auto split: if_splits prod.splits intro: sym_configure_translation)
    have w': "w' = upd a (\<lambda>c. c\<lparr>enabled := False, native_config := zero_configure_fg\<rparr>) w4"
      using run sc w1 w2 True w4 sym_ctx [OF s] sym_ctx [OF s4]
      by (auto simp: detach_swapchain_def Let_def detached_def split: if_splits prod.splits)
    have "sym w0 a Y X (detached c) L ?I w'"
      unfolding w' using sym_upd_same [OF s5, of "\<lambda>c. c\<lparr>enabled := False, native_config := zero_configure_fg\<rparr>"]
      by (simp add: owned_def detached_def)
    moreover have "wfc w0 a (detached c) ?I" by (rule detached_ok [OF wfc_uninstall [OF ok]]) simp
    ultimately show ?thesis using that by blast
  qed
qed

end
