(* ===== verification/Fg_Config_Inv.thy ===== *)
theory Fg_Config_Inv
  imports Fg_Inv
begin

text \<open>
  Configuring a frame-generation context keeps the invariant on every path: each early return gives back
  what was acquired on the way, the binding handed to the swapchain is the one the context keeps, and the
  retired binding is freed only after the swapchain has the new one.

  \<open>safe w0 a Y L c0 X f X'\<close> is the contract of a step \<open>f\<close>: from a state with the invariant and \<open>X\<close> in
  local variables it goes to one with the invariant and \<open>X'\<close> in local variables, and the context changes
  only in ways \<open>keeps\<close> allows. Steps compose by the rules below.
\<close>

named_theorems safe_rules \<open>contracts of the steps and of their composition\<close>

text \<open>The state an operation leaves: the invariant holds for some context that has changed only as allowed.\<close>

definition post :: "fg_world \<Rightarrow> addr \<Rightarrow> live_res multiset \<Rightarrow> lock list \<Rightarrow>
    fg_context \<Rightarrow> live_res multiset \<Rightarrow> fg_world \<Rightarrow> bool" where
  "post w0 a Y L c X w' \<longleftrightarrow> (\<exists>c' I'. sym w0 a Y X c' L I' w' \<and> wfc w0 a c' I' \<and> keeps c c')"

lemma postI: "sym w0 a Y X c' L I' w' \<Longrightarrow> wfc w0 a c' I' \<Longrightarrow> keeps c c' \<Longrightarrow> post w0 a Y L c X w'"
  by (auto simp: post_def)

definition safe :: "fg_world \<Rightarrow> addr \<Rightarrow> live_res multiset \<Rightarrow> lock list \<Rightarrow> fg_context \<Rightarrow>
    live_res multiset \<Rightarrow> (fg_world \<Rightarrow> u32 \<times> fg_world) \<Rightarrow> live_res multiset \<Rightarrow> bool" where
  "safe w0 a Y L c0 X f X' \<longleftrightarrow>
     (\<forall>c I w r w'. sym w0 a Y X c L I w \<longrightarrow> wfc w0 a c I \<longrightarrow> keeps c0 c \<longrightarrow> f w = (r, w') \<longrightarrow>
        post w0 a Y L c0 X' w')"

lemma safeI:
  assumes "\<And>c I w r w'. sym w0 a Y X c L I w \<Longrightarrow> wfc w0 a c I \<Longrightarrow> keeps c0 c \<Longrightarrow> f w = (r, w') \<Longrightarrow>
    post w0 a Y L c0 X' w'"
  shows "safe w0 a Y L c0 X f X'"
  using assms by (auto simp: safe_def)

lemma safeD:
  "safe w0 a Y L c0 X f X' \<Longrightarrow> sym w0 a Y X c L I w \<Longrightarrow> wfc w0 a c I \<Longrightarrow> keeps c0 c \<Longrightarrow>
     f w = (r, w') \<Longrightarrow> post w0 a Y L c0 X' w'"
  by (auto simp: safe_def)

lemma safe_return [safe_rules]: "safe w0 a Y L c0 X (\<lambda>w. (r w, w)) X"
  by (rule safeI) (auto intro: postI)

lemma safe_and_ok [safe_rules]:
  assumes "safe w0 a Y L c0 X f X" and "safe w0 a Y L c0 X k X"
  shows "safe w0 a Y L c0 X (\<lambda>w. and_ok (f w) k) X"
proof (rule safeI)
  fix c I w r w'
  assume s: "sym w0 a Y X c L I w" "wfc w0 a c I" "keeps c0 c" and run: "and_ok (f w) k = (r, w')"
  obtain r1 w1 where f: "f w = (r1, w1)" by force
  from safeD [OF assms(1) s f] obtain c1 I1 where
    1: "sym w0 a Y X c1 L I1 w1" "wfc w0 a c1 I1" "keeps c0 c1" by (auto simp: post_def)
  show "post w0 a Y L c0 X w'"
  proof (cases "r1 = FFX_OK")
    case True
    with run f safeD [OF assms(2) 1] show ?thesis by simp
  next
    case False
    with run f 1 show ?thesis by (auto intro: postI)
  qed
qed

lemma safe_if [safe_rules]:
  assumes "safe w0 a Y L c0 X f X'" and "safe w0 a Y L c0 X g X'"
  shows "safe w0 a Y L c0 X (\<lambda>w. if b w then f w else g w) X'"
  using assms by (auto simp: safe_def)

text \<open>A step that cannot fail, then another.\<close>

lemma safe_seq:
  assumes "safe w0 a Y L c0 X (\<lambda>w. (FFX_OK, g w)) X1" and "safe w0 a Y L c0 X1 f X'"
  shows "safe w0 a Y L c0 X (\<lambda>w. f (g w)) X'"
proof (rule safeI)
  fix c I w r w'
  assume s: "sym w0 a Y X c L I w" "wfc w0 a c I" "keeps c0 c" and run: "f (g w) = (r, w')"
  from safeD [OF assms(1) s refl] obtain c1 I1 where
    "sym w0 a Y X1 c1 L I1 (g w)" "wfc w0 a c1 I1" "keeps c0 c1" by (auto simp: post_def)
  from safeD [OF assms(2) this run] show "post w0 a Y L c0 X' w'" .
qed

text \<open>An update of fields that own nothing and that the invariant does not relate to others.\<close>

lemma safe_upd:
  assumes "\<And>c. keeps c0 c \<Longrightarrow> ctx_ok a c \<Longrightarrow>
      ctx_ok a (f c) \<and> owned a (f c) = owned a c \<and> swapchain (f c) = swapchain c \<and>
      binding (f c) = binding c \<and> keeps c0 (f c)"
  shows "safe w0 a Y L c0 X (\<lambda>w. (r w, upd a f w)) X"
proof (rule safeI)
  fix c I w ra w'
  assume s: "sym w0 a Y X c L I w" "wfc w0 a c I" "keeps c0 c" and run: "(r w, upd a f w) = (ra, w')"
  note f = assms [OF s(3) wfc_ctx_ok [OF s(2)]]
  show "post w0 a Y L c0 X w'"
    using sym_upd_same [OF s(1), of f] wfc_same [OF s(2), of "f c"] f run by (auto intro: postI)
qed

lemma safe_native_configure [safe_rules]: "safe w0 a Y L c0 X (native_configure a descs) X"
  by (rule safeI) (auto intro: postI sym_native_configure)

lemma safe_configure_translation [safe_rules]:
  "safe w0 a Y L c0 X (\<lambda>w. configure_translation (t w) (b w) w) X"
  by (rule safeI) (auto intro: postI sym_configure_translation)

lemma safe_enable_translation [safe_rules]: "safe w0 a Y L c0 X (enable_translation a desc) X"
  unfolding enable_translation_def by (intro safe_rules)

lemma keeps_metal: "keeps c0 c \<Longrightarrow> mode c0 = CONTEXT_METALFX \<Longrightarrow> mode c = CONTEXT_METALFX"
  by (auto simp: keeps_def mode_step_def)

lemma safe_snapshot_frame_config [safe_rules]:
  assumes "free_of L" and "mode c0 = CONTEXT_METALFX"
  shows "safe w0 a Y L c0 X (snapshot_frame_config a desc) X"
proof (rule safeI)
  fix c I w r w'
  assume s: "sym w0 a Y X c L I w" "wfc w0 a c I" "keeps c0 c" and run: "snapshot_frame_config a desc w = (r, w')"
  note ok = wfc_ctx_ok [OF s(2)]
  from ok have t: "tags_ok c" "snaps_ok (frame_configs c)" by (simp_all add: ctx_ok_def)
  show "post w0 a Y L c0 X w'"
  proof (rule sym_snapshot_frame_config [OF s(1) free_of_notin(2) [OF assms(1)] t(1) run])
    fix l
    assume l: "sym w0 a Y X (c\<lparr>frame_configs := l\<rparr>) L I w'" "snaps_ok (frame_configs c) \<Longrightarrow> snaps_ok l"
    have "wfc w0 a (c\<lparr>frame_configs := l\<rparr>) I"
      by (rule wfc_same [OF s(2)])
        (use ok t l(2) keeps_metal [OF s(3) assms(2)] in \<open>simp_all add: ctx_ok_def tags_ok_def\<close>)
    with l(1) s(3) show ?thesis by (auto intro: postI)
  qed
qed

lemma safe_clear_frame_configs [safe_rules]:
  assumes "free_of L"
  shows "safe w0 a Y L c0 X (\<lambda>w. (r w, clear_frame_configs a w)) X"
proof (rule safeI)
  fix c I w ra w'
  assume s: "sym w0 a Y X c L I w" "wfc w0 a c I" "keeps c0 c"
    and run: "(r w, clear_frame_configs a w) = (ra, w')"
  have "wfc w0 a (c\<lparr>frame_configs := [], have_last_prepare_frame_id := False\<rparr>) I"
    by (rule wfc_same [OF s(2)]) (use wfc_ctx_ok [OF s(2)] in \<open>simp_all add: ctx_ok_def tags_ok_def\<close>)
  with sym_clear_frame_configs [OF s(1) free_of_notin(2) [OF assms]] s(3) run
  show "post w0 a Y L c0 X w'" by (auto intro: postI)
qed

lemma safe_retire_frame_configs [safe_rules]:
  assumes "free_of L"
  shows "safe w0 a Y L c0 X (\<lambda>w. (r w, retire_frame_configs a f w)) X"
proof (rule safeI)
  fix c I w ra w'
  assume s: "sym w0 a Y X c L I w" "wfc w0 a c I" "keeps c0 c"
    and run: "(r w, retire_frame_configs a f w) = (ra, w')"
  obtain kept discard where k: "retire_configs f (frame_configs c) = (kept, discard)" by force
  from retire_configs_parts(2) [OF k] obtain P where P: "kept = filter P (frame_configs c)" by blast
  have "wfc w0 a (c\<lparr>frame_configs := kept\<rparr>) I"
    by (rule wfc_same [OF s(2)])
      (use wfc_ctx_ok [OF s(2)] in \<open>auto simp: ctx_ok_def tags_ok_def P snaps_ok_filter\<close>)
  with sym_retire_frame_configs [OF s(1) free_of_notin(2) [OF assms] k] s(3) run
  show "post w0 a Y L c0 X w'" by (auto intro: postI)
qed

lemma safe_store_native_config [safe_rules]: "safe w0 a Y L c0 X (\<lambda>w. (r w, store_native_config a desc w)) X"
proof (rule safeI)
  fix c I w ra w'
  assume s: "sym w0 a Y X c L I w" "wfc w0 a c I" "keeps c0 c"
    and run: "(r w, store_native_config a desc w) = (ra, w')"
  have "wfc w0 a (c\<lparr>hudless := cg_HUDLessColor desc, native_config := desc, native_config_valid := True\<rparr>) I"
    by (rule wfc_same [OF s(2)]) (use wfc_ctx_ok [OF s(2)] in \<open>simp_all add: ctx_ok_def tags_ok_def\<close>)
  with sym_store_native_config [OF s(1), of desc] s(3) run show "post w0 a Y L c0 X w'"
    by (auto intro: postI)
qed

lemma safe_store_enabled [safe_rules]:
  "safe w0 a Y L c0 X (\<lambda>w. (FFX_OK, upd a (\<lambda>c. c\<lparr>enabled := e\<rparr>) (store_native_config a desc w))) X"
  by (rule safe_seq [OF safe_store_native_config safe_upd])
    (auto simp: ctx_ok_def tags_ok_def owned_def)

lemma safe_snapshot_or_restore [safe_rules]:
  assumes "free_of L" and "mode c0 = CONTEXT_METALFX"
  shows "safe w0 a Y L c0 X (snapshot_or_restore a desc) X"
proof (rule safeI)
  fix c I w r w'
  assume s: "sym w0 a Y X c L I w" "wfc w0 a c I" "keeps c0 c" and run: "snapshot_or_restore a desc w = (r, w')"
  obtain r1 w1 where 1: "snapshot_frame_config a desc w = (r1, w1)" by force
  from safeD [OF safe_snapshot_frame_config [OF assms] s 1] obtain c1 I1 where
    s1: "sym w0 a Y X c1 L I1 w1" "wfc w0 a c1 I1" "keeps c0 c1" by (auto simp: post_def)
  obtain r2 w2 where 2: "configure_translation (translated c1) (enabled c1) w1 = (r2, w2)" by force
  from run 1 2 sym_configure_translation [OF s1(1) 2] s1 show "post w0 a Y L c0 X w'"
    by (auto simp: snapshot_or_restore_def Let_def sym_ctx [OF s1(1)] split: if_splits intro: postI)
qed

text \<open>A choice by the mode of the context is a choice by the mode it had, once the mode is selected.\<close>

lemma safe_mode:
  assumes "safe w0 a Y L c0 X (\<lambda>w. if mode c0 = m then f w else g w) X'" and "mode c0 \<noteq> MODE_PENDING"
  shows "safe w0 a Y L c0 X (\<lambda>w. if mode (ctx w a) = m then f w else g w) X'"
proof (rule safeI)
  fix c I w r w'
  assume s: "sym w0 a Y X c L I w" "wfc w0 a c I" "keeps c0 c"
    and run: "(if mode (ctx w a) = m then f w else g w) = (r, w')"
  have "mode c = mode c0" using s(3) assms(2) by (auto simp: keeps_def mode_step_def)
  with run sym_ctx [OF s(1)] have "(if mode c0 = m then f w else g w) = (r, w')" by simp
  from safeD [OF assms(1) s this] show "post w0 a Y L c0 X' w'" .
qed

definition selected :: "fg_context \<Rightarrow> bool" where
  "selected c \<longleftrightarrow> mode c = CONTEXT_NATIVE \<or> mode c = CONTEXT_METALFX"

lemma safe_configure_direct [safe_rules]:
  assumes "free_of L" and "selected c0"
  shows "safe w0 a Y L c0 X (configure_direct a desc rest) X"
  unfolding configure_direct_def
proof (rule safe_mode)
  show "safe w0 a Y L c0 X (\<lambda>w. if mode c0 = CONTEXT_NATIVE then native_configure a (ConfigureFG desc # rest) w
      else and_ok (enable_translation a desc w) (\<lambda>w. and_ok (snapshot_or_restore a desc w) (\<lambda>w.
        and_ok (if \<not> cg_frameGenerationEnabled desc then
                  and_ok (configure_translation (translated (ctx w a)) False w)
                    (\<lambda>w. (FFX_OK, clear_frame_configs a w))
                else (FFX_OK, w)) (\<lambda>w.
        (FFX_OK, upd a (\<lambda>c. c\<lparr>enabled := cg_frameGenerationEnabled desc\<rparr>)
                   (store_native_config a desc w)))))) X"
  proof (cases "mode c0 = CONTEXT_NATIVE")
    case True
    then show ?thesis by (simp add: safe_native_configure)
  next
    case False
    with assms(2) have "mode c0 = CONTEXT_METALFX" by (simp add: selected_def)
    with assms(1) show ?thesis by (simp, intro safe_rules) auto
  qed
qed (use assms(2) in \<open>auto simp: selected_def\<close>)

subsection \<open>Publishing a binding\<close>

lemma safe_wait_for_presents [safe_rules]:
  assumes "free_of L" and "safe w0 a Y L c0 X f X"
  shows "safe w0 a Y L c0 X
     (\<lambda>w. let (waited, w) = wait_for_presents sc w in if \<not> waited then (r, w) else f w) X"
proof (rule safeI)
  fix c I w ra w'
  assume s: "sym w0 a Y X c L I w" "wfc w0 a c I" "keeps c0 c"
    and run: "(let (waited, w) = wait_for_presents sc w in if \<not> waited then (r, w) else f w) = (ra, w')"
  obtain ok w1 where 1: "wait_for_presents sc w = (ok, w1)" by force
  note s1 = sym_wait_for_presents [OF s(1) assms(1) 1]
  from run 1 s safeD [OF assms(2) s1 s(2,3)] s1 show "post w0 a Y L c0 X w'"
    by (auto split: if_splits intro: postI)
qed

text \<open>What the local variables still own of a binding that has not been handed to the context.\<close>

definition pending_block :: "fg_context \<Rightarrow> bool \<Rightarrow> (addr \<times> callback_binding) option \<Rightarrow> live_res multiset" where
  "pending_block c binding_changed bnd =
     (if binding_changed then block_owned (tag_of c) (binding_addr bnd) else {#})"

lemma pending_block_update [simp]:
  "pending_block (c\<lparr>frame_configs := l\<rparr>) ch bnd = pending_block c ch bnd"
  "pending_block (c\<lparr>swapchain := p\<rparr>) ch bnd = pending_block c ch bnd"
  by (simp_all add: pending_block_def)

text \<open>The binding the code works with: in MetalFX mode one for this context, the old one if unchanged.\<close>

definition binding_for :: "addr \<Rightarrow> fg_context \<Rightarrow> bool \<Rightarrow> (addr \<times> callback_binding) option \<Rightarrow> bool" where
  "binding_for a c binding_changed bnd \<longleftrightarrow>
     (if mode c = CONTEXT_METALFX
      then (\<exists>p b. bnd = Some (p, b) \<and> p \<noteq> 0 \<and> cb_context b = a) \<and> (\<not> binding_changed \<longrightarrow> binding c = bnd)
      else bnd = None \<and> \<not> binding_changed)"

lemma wfc_install:
  assumes ok: "wfc w0 a c I" and "ctx_ok a c'" and "swapchain c' = swapchain c"
    and "swapchain c \<noteq> 0" and "binding_addr (binding c') = p"
  shows "wfc w0 a c' (I(swapchain c := p))"
proof -
  have "\<exists>d \<in> insert c' (others w0 a). swapchain d = sc \<and> binding_addr (binding d) = (I(swapchain c := p)) sc"
    if "(I(swapchain c := p)) sc \<noteq> 0" for sc
  proof (cases "sc = swapchain c")
    case True
    with assms show ?thesis by auto
  next
    case False
    with that ok obtain d where "d \<in> insert c (others w0 a)" "swapchain d = sc"
      "binding_addr (binding d) = I sc" by (auto simp: wfc_def)
    with False show ?thesis by auto
  qed
  with assms show ?thesis by (auto simp: wfc_def)
qed

lemma publish_tail_safe:
  assumes "free_of L"
  shows "safe w0 a Y L c0 X (\<lambda>w. if \<not> en then
           let (waited, w) = wait_for_presents sc w in
           if \<not> waited then (r, w) else
           configure_translation (translated (ctx (clear_frame_configs a w) a)) False (clear_frame_configs a w)
         else if ch then (FFX_OK, retire_frame_configs a f w) else (FFX_OK, w)) X"
proof -
  have "safe w0 a Y L c0 X (\<lambda>w. configure_translation (translated (ctx (clear_frame_configs a w) a)) False
      (clear_frame_configs a w)) X"
    by (rule safe_seq [OF safe_clear_frame_configs [OF assms]]) (rule safe_configure_translation)
  then show ?thesis using assms by (intro safe_rules)
qed

lemma configure_publish_post:
  assumes s: "sym w0 a Y (pending_block c ch bnd + X) c L I w" and ok: "wfc w0 a c I" and k: "keeps c0 c"
    and L: "free_of L" and m: "mode c = CONTEXT_METALFX" and b: "binding_for a c ch bnd"
    and sc: "swapchain c \<noteq> 0"
    and run: "configure_publish a desc (swapchain c) bnd ch w = (r, w')"
  shows "post w0 a Y L c0 X w'"
proof -
  let ?en = "cg_frameGenerationEnabled desc"
  from b m obtain p cb where bnd: "bnd = Some (p, cb)" "p \<noteq> 0" "cb_context cb = a"
    and same: "\<not> ch \<Longrightarrow> binding c = bnd" by (auto simp: binding_for_def)
  let ?I = "I(swapchain c := p)"
  let ?w1 = "set_config (swapchain c) (build_swapchain_config desc bnd) w"
  have s1: "sym w0 a Y (pending_block c ch bnd + X) c L ?I ?w1"
    using sym_set_config [OF s L, of "swapchain c" "build_swapchain_config desc bnd"]
    by (simp add: bnd build_swapchain_config_def Let_def)
  let ?f = "\<lambda>c. c\<lparr>binding := bnd, enabled := ?en\<rparr>"
  have s2: "sym w0 a Y (pending_block c ch (binding c) + X) (?f c) L ?I (upd a ?f ?w1)"
    by (rule sym_upd [OF s1]) (use same in \<open>auto simp: owned_def pending_block_def ac_simps\<close>)
  let ?g = "\<lambda>c. c\<lparr>hudless := cg_HUDLessColor desc, native_config := desc, native_config_valid := True\<rparr>"
  let ?w3 = "store_native_config a desc (upd a ?f ?w1)"
  note s3 = sym_store_native_config [OF s2, of desc]
  let ?w4 = "if ch then free_binding a (binding c) ?w3 else ?w3"
  have s4: "sym w0 a Y X (?g (?f c)) L ?I ?w4"
  proof (cases ch)
    case True
    with s3 have "sym w0 a Y (block_owned (tag_of (?g (?f c))) (binding_addr (binding c)) + X) (?g (?f c)) L ?I ?w3"
      by (simp add: pending_block_def)
    from sym_free_memory [OF this] True show ?thesis by (simp add: free_binding_eq [OF s3])
  next
    case False
    with s3 show ?thesis by (simp add: pending_block_def)
  qed
  have "ctx_ok a (?g (?f c))"
    using wfc_ctx_ok [OF ok] m sc bnd by (simp add: ctx_ok_def tags_ok_def)
  then have ok4: "wfc w0 a (?g (?f c)) ?I"
    using wfc_install [OF ok, of "?g (?f c)" p] sc bnd by simp
  have "(if \<not> ?en then
           let (waited, w) = wait_for_presents (swapchain c) ?w4 in
           if \<not> waited then (FFX_ERROR_RUNTIME_ERROR, w) else
           configure_translation (translated (ctx (clear_frame_configs a w) a)) False (clear_frame_configs a w)
         else if ch then (FFX_OK, retire_frame_configs a (cg_frameID desc) ?w4) else (FFX_OK, ?w4)) = (r, w')"
    using run by (simp only: configure_publish_def Let_def sym_ctx [OF s])
  from safeD [OF publish_tail_safe [OF L] s4 ok4 _ this] k show ?thesis by simp
qed

subsection \<open>Claiming\<close>

text \<open>The other contexts are registered and well-formed.\<close>

definition registered :: "fg_world \<Rightarrow> addr \<Rightarrow> bool" where
  "registered w0 a \<longleftrightarrow> (\<forall>b d. b \<noteq> a \<longrightarrow> heap w0 b = Some d \<longrightarrow> b \<in> set (contexts w0) \<and> ctx_ok b d)"

lemma undo_configure_post:
  assumes s: "sym w0 a Y (pending_block c ch bnd + X) c L I w" and ok: "wfc w0 a c I" and k: "keeps c0 c"
    and L: "free_of L" and new: "newly \<Longrightarrow> binding c = None"
  shows "post w0 a Y L c0 X (undo_configure a ch bnd newly (swapchain c) w)"
proof -
  let ?w = "if ch then free_binding a bnd w else w"
  have s1: "sym w0 a Y X c L I ?w"
    using s by (auto simp: pending_block_def free_binding_eq [OF s] intro: sym_free_memory)
  show ?thesis
  proof (cases newly)
    case False
    with s1 ok k show ?thesis by (simp add: undo_configure_def Let_def postI)
  next
    case True
    have s2: "sym w0 a Y X (c\<lparr>swapchain := 0\<rparr>) L I (release_swapchain (swapchain c) (clear_swapchain_claim a ?w))"
      by (rule sym_release_swapchain [OF sym_clear_swapchain_claim [OF s1 free_of_notin(1) [OF L]]])
    have "ctx_ok a (c\<lparr>swapchain := 0\<rparr>)"
      using wfc_ctx_ok [OF ok] new [OF True] by (simp add: ctx_ok_def tags_ok_def)
    then have "wfc w0 a (c\<lparr>swapchain := 0\<rparr>) I"
      using ok new [OF True] by (auto simp: wfc_def)
    with s2 k True show ?thesis by (auto simp: undo_configure_def Let_def intro: postI)
  qed
qed

lemma prepare_publish:
  assumes s: "sym w0 a Y X c L I w" and ok: "ctx_ok a c" and L: "free_of L"
    and run: "and_ok (enable_translation a desc w) (snapshot_or_restore a desc) = (r, w')"
  obtains l where "sym w0 a Y X (c\<lparr>frame_configs := l\<rparr>) L I w'" and "snaps_ok l"
proof -
  from ok have t: "tags_ok c" "snaps_ok (frame_configs c)" by (simp_all add: ctx_ok_def)
  obtain r1 w1 where 1: "enable_translation a desc w = (r1, w1)" by force
  then have s1: "sym w0 a Y X c L I w1"
    using s by (auto simp: enable_translation_def split: if_splits intro: sym_configure_translation)
  show ?thesis
  proof (cases "r1 = FFX_OK")
    case False
    with run 1 s1 t that [of "frame_configs c"] show ?thesis by simp
  next
    case True
    obtain r2 w2 where 2: "snapshot_frame_config a desc w1 = (r2, w2)" by force
    show ?thesis
    proof (rule sym_snapshot_frame_config [OF s1 free_of_notin(2) [OF L] t(1) 2])
      fix l
      assume l: "sym w0 a Y X (c\<lparr>frame_configs := l\<rparr>) L I w2" "snaps_ok (frame_configs c) \<Longrightarrow> snaps_ok l"
      obtain r3 w3 where 3: "configure_translation (translated c) (enabled c) w2 = (r3, w3)" by force
      from sym_configure_translation [OF l(1) 3] l t(2) run 1 2 3 True sym_ctx [OF l(1)]
      show ?thesis using that [of l] by (auto simp: snapshot_or_restore_def split: if_splits)
    qed
  qed
qed

lemma configure_claimed_post:
  assumes s: "sym w0 a Y (pending_block c ch bnd + X) c L I w" and ok: "wfc w0 a c I" and k: "keeps c0 c"
    and L: "free_of L" and m: "selected c" and b: "binding_for a c ch bnd" and sc: "swapchain c \<noteq> 0"
    and new: "newly \<Longrightarrow> binding c = None"
    and run: "configure_claimed a desc rest (swapchain c) bnd ch newly w = (r, w')"
  shows "post w0 a Y L c0 X w'"
proof (cases "mode c = CONTEXT_NATIVE")
  case True
  then have "pending_block c ch bnd = {#}" using b by (simp add: binding_for_def pending_block_def)
  with s have s': "sym w0 a Y X c L I w" by simp
  have "safe w0 a Y L c0 X (\<lambda>w. and_ok (native_configure a (ConfigureFG desc # rest) w) (\<lambda>w.
        (FFX_OK, upd a (\<lambda>c. c\<lparr>enabled := cg_frameGenerationEnabled desc\<rparr>) (store_native_config a desc w)))) X"
    by (intro safe_rules)
  from safeD [OF this s' ok k] run True show ?thesis by (simp add: configure_claimed_def sym_ctx [OF s])
next
  case False
  with m have metal: "mode c = CONTEXT_METALFX" by (simp add: selected_def)
  note c_ok = wfc_ctx_ok [OF ok]
  obtain r1 w1 where 1: "and_ok (enable_translation a desc w) (snapshot_or_restore a desc) = (r1, w1)" by force
  show ?thesis
  proof (rule prepare_publish [OF s c_ok L 1])
    fix l
    let ?c = "c\<lparr>frame_configs := l\<rparr>"
    assume l: "sym w0 a Y (pending_block c ch bnd + X) ?c L I w1" "snaps_ok l"
    have ok1: "wfc w0 a ?c I"
      by (rule wfc_same [OF ok]) (use c_ok l(2) metal in \<open>simp_all add: ctx_ok_def tags_ok_def\<close>)
    have s1: "sym w0 a Y (pending_block ?c ch bnd + X) ?c L I w1" using l(1) by simp
    have b1: "binding_for a ?c ch bnd" using b by (simp add: binding_for_def)
    show ?thesis
    proof (cases "r1 = FFX_OK")
      case True
      with run 1 False have "configure_publish a desc (swapchain ?c) bnd ch w1 = (r, w')"
        by (simp add: configure_claimed_def sym_ctx [OF s])
      from configure_publish_post [OF s1 ok1 _ L _ b1 _ this] k metal sc show ?thesis by simp
    next
      case fail: False
      with run 1 False have "w' = undo_configure a ch bnd newly (swapchain ?c) w1"
        by (simp add: configure_claimed_def sym_ctx [OF s])
      with undo_configure_post [OF s1 ok1 _ L] k new show ?thesis by simp
    qed
  qed
qed

lemma configure_claim_post:
  assumes s: "sym w0 a Y (com_owned sc + (pending_block c ch bnd + X)) c L I w" and ok: "wfc w0 a c I"
    and k: "keeps c0 c" and L: "free_of L" and m: "selected c" and b: "binding_for a c ch bnd"
    and sc: "sc \<noteq> 0" and reg: "registered w0 a"
    and run: "configure_claim a desc rest sc bnd ch w = (r, w')"
  shows "post w0 a Y L c0 X w'"
proof (cases "swapchain c = 0")
  case False
  let ?w = "release_swapchain sc w"
  have s1: "sym w0 a Y (pending_block c ch bnd + X) c L I ?w" by (rule sym_release_swapchain [OF s])
  from run False have "configure_claimed a desc rest (swapchain c) bnd ch False ?w = (r, w')"
    by (simp add: configure_claim_def sym_ctx [OF s] sym_ctx [OF s1])
  from configure_claimed_post [OF s1 ok k L m b False _ this] show ?thesis by simp
next
  case True
  then have nb: "binding c = None" using wfc_ctx_ok [OF ok] by (cases "binding c") (auto simp: ctx_ok_def)
  obtain av w1 where 1: "claim_swapchain a sc w = (av, w1)" by force
  note cl = sym_claim_swapchain [OF s free_of_notin(1) [OF L] True 1]
  show ?thesis
  proof (cases av)
    case False
    with cl(1) have s1: "sym w0 a Y (pending_block c ch bnd + (com_owned sc + X)) c L I w1"
      by (simp add: ac_simps)
    have "sym w0 a Y (com_owned sc + X) c L I (if ch then free_binding a bnd w1 else w1)"
      using s1 by (auto simp: pending_block_def free_binding_eq [OF s1] intro: sym_free_memory)
    from sym_release_swapchain [OF this] run 1 True False ok k show ?thesis
      by (auto simp: configure_claim_def sym_ctx [OF s] intro: postI)
  next
    case av: True
    let ?c = "c\<lparr>swapchain := sc\<rparr>"
    from cl(1) av have s1: "sym w0 a Y (pending_block ?c ch bnd + X) ?c L I w1" by simp
    have "ctx_ok a ?c" using wfc_ctx_ok [OF ok] m nb by (auto simp: ctx_ok_def tags_ok_def selected_def)
    moreover have "swapchain d \<noteq> sc" if d: "d \<in> others w0 a" for d
    proof
      assume "swapchain d = sc"
      with d reg sc obtain e where "e \<noteq> a" "e \<in> set (contexts w0)" "heap w0 e = Some d" "mode d \<noteq> CONTEXT_SWAPCHAIN"
        by (auto simp: others_def registered_def ctx_ok_def)
      with cl(2) av \<open>swapchain d = sc\<close> show False by (auto simp: ctx_def)
    qed
    ultimately have ok1: "wfc w0 a ?c I" using ok nb by (auto simp: wfc_def)
    from run True 1 av have "configure_claimed a desc rest (swapchain ?c) bnd ch True w1 = (r, w')"
      by (simp add: configure_claim_def sym_ctx [OF s])
    moreover have "binding_for a ?c ch bnd" using b by (auto simp: binding_for_def)
    moreover have "selected ?c" using m by (simp add: selected_def)
    ultimately show ?thesis using configure_claimed_post [OF s1 ok1 _ L _ _ _ _] k sc nb by simp
  qed
qed

lemma configure_swapchain_post:
  assumes s: "sym w0 a Y (com_owned sc + X) c L I w" and ok: "wfc w0 a c I"
    and k: "keeps c0 c" and L: "free_of L" and m: "selected c" and sc: "sc \<noteq> 0" and reg: "registered w0 a"
    and run: "configure_swapchain a desc rest sc w = (r, w')"
  shows "post w0 a Y L c0 X w'"
proof (cases "mode c = CONTEXT_METALFX \<and> \<not> binding_matches (binding c) desc")
  case True
  obtain p w1 where 1: "allocate_memory (context_allocator c) w = (p, w1)" by force
  note s1 = sym_allocate_memory [OF s 1]
  show ?thesis
  proof (cases "p = 0")
    case zero: True
    with s1 have "sym w0 a Y (com_owned sc + X) c L I w1" by simp
    from sym_release_swapchain [OF this] run True zero 1 ok k show ?thesis
      by (auto simp: configure_swapchain_def sym_ctx [OF s] intro: postI)
  next
    case False
    define b where "b = \<lparr>cb_context = a, cb_present = cg_presentCallback desc,
                     cb_present_user = cg_presentCallbackUserContext desc,
                     cb_generate = cg_frameGenerationCallback desc,
                     cb_generate_user = cg_frameGenerationCallbackUserContext desc\<rparr>"
    have "pending_block c True (Some (p, b)) = {#Block p (alloc_tag (context_allocator c))#}"
      using False wfc_ctx_ok [OF ok] by (simp add: pending_block_def block_owned_def ctx_ok_def tags_ok_def)
    with s1 False have s2: "sym w0 a Y (com_owned sc + (pending_block c True (Some (p, b)) + X)) c L I w1"
      by (simp add: ac_simps)
    have "binding_for a c True (Some (p, b))" using True False by (simp add: binding_for_def b_def)
    moreover have "configure_claim a desc rest sc (Some (p, b)) True w1 = (r, w')"
      using run True 1 False by (simp add: configure_swapchain_def sym_ctx [OF s] b_def)
    ultimately show ?thesis using configure_claim_post [OF s2 ok k L m _ sc reg] by blast
  qed
next
  case False
  let ?bnd = "if mode c = CONTEXT_METALFX then binding c else None"
  have "binding_for a c False ?bnd"
  proof (cases "mode c = CONTEXT_METALFX")
    case True
    with False obtain p b where "binding c = Some (p, b)"
      by (auto simp: binding_matches_def split: option.splits)
    with True wfc_ctx_ok [OF ok] show ?thesis by (auto simp: binding_for_def ctx_ok_def)
  qed (simp add: binding_for_def)
  moreover have "sym w0 a Y (com_owned sc + (pending_block c False ?bnd + X)) c L I w"
    using s by (simp add: pending_block_def)
  moreover have "configure_claim a desc rest sc ?bnd False w = (r, w')"
    using run False by (auto simp: configure_swapchain_def sym_ctx [OF s])
  ultimately show ?thesis using configure_claim_post [OF _ ok k L m _ sc reg] by blast
qed

lemma selected_keeps: "keeps c0 c \<Longrightarrow> selected c0 \<Longrightarrow> selected c"
  by (auto simp: keeps_def mode_step_def selected_def)

lemma configure_notify_post:
  assumes s: "sym w0 a Y (com_owned sc + X) c L I w" and ok: "wfc w0 a c I"
    and k: "keeps c0 c" and L: "free_of L" and m: "selected c" and sc: "sc \<noteq> 0" and reg: "registered w0 a"
    and run: "(let (result, w) = detach_swapchain a w in
               if result \<noteq> FFX_OK then (result, release_swapchain sc w)
               else configure_swapchain a desc rest sc w) = (r, w')"
  shows "post w0 a Y L c0 X w'"
proof -
  obtain r1 w1 where 1: "detach_swapchain a w = (r1, w1)" by force
  show ?thesis
  proof (rule sym_detach_swapchain [OF s L ok 1])
    fix c' I'
    assume s1: "sym w0 a Y (com_owned sc + X) c' L I' w1" and ok1: "wfc w0 a c' I'"
      and "c' = c \<and> (r1 = FFX_OK \<longrightarrow> swapchain c = 0) \<and>
             (swapchain c = 0 \<or> (\<exists>t. \<not> o_presents (outside w0) t)) \<or> c' = detached c"
    then have k1: "keeps c0 c'" and m1: "selected c'" using k m by (auto simp: selected_def detached_def)
    show ?thesis
    proof (cases "r1 = FFX_OK")
      case True
      with run 1 configure_swapchain_post [OF s1 ok1 k1 L m1 sc reg] show ?thesis by simp
    next
      case False
      with run 1 sym_release_swapchain [OF s1] ok1 k1 show ?thesis by (auto intro: postI)
    qed
  qed
qed

lemma safe_configure_selected [safe_rules]:
  assumes L: "free_of L" and m0: "selected c0" and reg: "registered w0 a"
  shows "safe w0 a Y L c0 X (configure_selected a desc rest) X"
proof (rule safeI)
  fix c I w r w'
  assume s: "sym w0 a Y X c L I w" and ok: "wfc w0 a c I" and k: "keeps c0 c"
    and run: "configure_selected a desc rest w = (r, w')"
  note m = selected_keeps [OF k m0]
  obtain sc w1 where 1: "get_stable_swapchain (cg_swapChain desc) w = (sc, w1)" by force
  note s1 = sym_get_stable_swapchain [OF s 1]
  have rel: "post w0 a Y L c0 X (release_swapchain sc w1)"
    by (rule postI [OF sym_release_swapchain [OF s1] ok k])
  have direct: "post w0 a Y L c0 X w''" if "configure_direct a desc rest w = (r, w'')" for w''
    using safeD [OF safe_configure_direct [OF L m0] s ok k that] .
  have zero: "sc = 0 \<Longrightarrow> post w0 a Y L c0 X w1" using s1 ok k by (auto intro: postI)
  show "post w0 a Y L c0 X w'"
    using run 1 direct zero rel postI [OF s ok k]
      configure_swapchain_post [OF s1 ok k L m _ reg, of desc rest r w']
      configure_notify_post [OF s1 ok k L m _ reg, of desc rest r w']
    by (auto simp: configure_selected_def Let_def sym_ctx [OF s] sym_ctx [OF s1] split: if_splits)
qed

lemma safe_set_mode:
  assumes "mode c0 = MODE_PENDING" and "m = CONTEXT_NATIVE \<or> m = CONTEXT_METALFX"
    and s: "sym w0 a Y X c L I w" "wfc w0 a c I" "keeps c0 c" and p: "mode c = MODE_PENDING"
  shows "sym w0 a Y X (c\<lparr>mode := m\<rparr>) L I (set_mode a m w)" and "wfc w0 a (c\<lparr>mode := m\<rparr>) I"
    and "keeps c0 (c\<lparr>mode := m\<rparr>)" and "keeps c (c\<lparr>mode := m\<rparr>)"
proof -
  show "sym w0 a Y X (c\<lparr>mode := m\<rparr>) L I (set_mode a m w)"
    unfolding set_mode_def by (rule sym_upd_same [OF s(1)]) (simp add: owned_def)
  have nb: "binding c = None" using wfc_ctx_ok [OF s(2)] p by (cases "binding c") (auto simp: ctx_ok_def)
  show "wfc w0 a (c\<lparr>mode := m\<rparr>) I"
    by (rule wfc_same [OF s(2)]) (use wfc_ctx_ok [OF s(2)] p nb assms(2) in \<open>auto simp: ctx_ok_def tags_ok_def\<close>)
  show "keeps c0 (c\<lparr>mode := m\<rparr>)" "keeps c (c\<lparr>mode := m\<rparr>)"
    using s(3) assms(1,2) p by (auto simp: keeps_def mode_step_def)
qed

lemma select_native_post:
  assumes s: "sym w0 a Y X c L I w" "wfc w0 a c I" and L: "free_of L" and reg: "registered w0 a"
    and p: "mode c = MODE_PENDING" and run: "select_native a w = (r, w')"
  shows "post w0 a Y L (c\<lparr>mode := CONTEXT_NATIVE\<rparr>) X w'"
proof -
  let ?c = "c\<lparr>mode := CONTEXT_NATIVE\<rparr>"
  note s1 = safe_set_mode [OF p disjI1 [OF refl] s keeps_refl p]
  have "selected ?c" by (simp add: selected_def)
  from safeD [OF safe_configure_selected [OF L this reg] s1(1,2) keeps_refl] run s1(1,2) show ?thesis
    by (auto simp: select_native_def Let_def sym_ctx [OF s1(1)] split: if_splits intro: postI)
qed

lemma post_weaken: "post w0 a Y L c X w \<Longrightarrow> keeps c0 c \<Longrightarrow> post w0 a Y L c0 X w"
  unfolding post_def using keeps_trans by blast

lemma configure_frame_generation_post:
  assumes s: "sym w0 a Y X c L I w" "wfc w0 a c I" and L: "free_of L" and reg: "registered w0 a"
    and m: "mode c \<noteq> CONTEXT_SWAPCHAIN"
    and run: "configure_frame_generation a desc rest w = (r, w')"
  shows "post w0 a Y L c X w'"
proof (cases "mode c = MODE_PENDING")
  case False
  with m have "selected c" by (cases "mode c") (auto simp: selected_def)
  from safeD [OF safe_configure_selected [OF L this reg] s keeps_refl] s run False show ?thesis
    by (auto simp: configure_frame_generation_def sym_ctx [OF s(1)] split: if_splits intro: postI)
next
  case p: True
  let ?c = "c\<lparr>mode := CONTEXT_NATIVE\<rparr>"
  have sel: "selected ?c" by (simp add: selected_def)
  have native: "post w0 a Y L c X w''" if "and_ok (select_native a w) (configure_selected a desc rest) = (r, w'')" for w''
  proof -
    obtain r1 w1 where 1: "select_native a w = (r1, w1)" by force
    note p1 = select_native_post [OF s L reg p 1]
    then obtain c1 I1 where s1: "sym w0 a Y X c1 L I1 w1" "wfc w0 a c1 I1" "keeps ?c c1"
      by (auto simp: post_def)
    have "post w0 a Y L ?c X w''"
      using that 1 p1 safeD [OF safe_configure_selected [OF L sel reg] s1] by (cases "r1 = FFX_OK") auto
    then show ?thesis by (rule post_weaken) (use p in \<open>simp add: keeps_def mode_step_def\<close>)
  qed
  show ?thesis
    using run p native s safeD [OF safe_store_native_config s keeps_refl]
    by (auto simp: configure_frame_generation_def sym_ctx [OF s(1)] split: if_splits intro: postI)
qed

end
