(* ===== verification/Fg_World.thy ===== *)
theory Fg_World
  imports Fg_Config_Inv
begin

text \<open>
  The invariant of the whole frame-generation DLL between calls, and how it is opened into a symbolic
  state of one context and closed again. \<open>fg_inv e w\<close>: nothing went wrong; the registered contexts are
  exactly the live ones; what is alive is exactly what they own; every context is well-formed; claims are
  unique; installed bindings are live; and the reference count of each context is one, plus its callback
  scopes, plus \<open>e\<close>, the references of calls in progress.
\<close>

definition live_of :: "(addr \<Rightarrow> fg_context option) \<Rightarrow> live_res multiset" where
  "live_of h = (\<Sum>a \<in> dom h. owned a (the (h a)))"

definition fg_inv :: "(addr \<Rightarrow> int) \<Rightarrow> fg_world \<Rightarrow> bool" where
  "fg_inv e w \<longleftrightarrow>
     \<not> fault w \<and> locks w = [] \<and>
     distinct (contexts w) \<and> dom (heap w) = set (contexts w) \<and> set (scopes w) \<subseteq> set (contexts w) \<and>
     mset (live w) = live_of (heap w) \<and>
     (\<forall>a c. heap w a = Some c \<longrightarrow>
        ctx_ok a c \<and> \<not> closing c \<and> references c = 1 + int (count_list (scopes w) a) + e a) \<and>
     (\<forall>a b c d. heap w a = Some c \<longrightarrow> heap w b = Some d \<longrightarrow> a \<noteq> b \<longrightarrow>
        swapchain c = swapchain d \<longrightarrow> swapchain c = 0) \<and>
     (\<forall>sc. installed (trace w) sc \<noteq> 0 \<longrightarrow>
        (\<exists>a c. heap w a = Some c \<and> swapchain c = sc \<and>
               binding_addr (binding c) = installed (trace w) sc))"

text \<open>What the other contexts own.\<close>

definition rest_of :: "(addr \<Rightarrow> fg_context option) \<Rightarrow> addr \<Rightarrow> live_res multiset" where
  "rest_of h a = live_of (h(a := None))"

lemma live_of_upd:
  assumes "finite (dom h)"
  shows "live_of (h(a \<mapsto> c)) = rest_of h a + owned a c"
proof -
  have "(\<Sum>b \<in> dom h - {a}. owned b (the ((h(a \<mapsto> c)) b))) = (\<Sum>b \<in> dom h - {a}. owned b (the (h b)))"
    by (rule sum.cong) auto
  moreover have "(\<Sum>b \<in> dom h - {a}. owned b (the ((h(a := None)) b))) = (\<Sum>b \<in> dom h - {a}. owned b (the (h b)))"
    by (rule sum.cong) auto
  ultimately show ?thesis
    using assms by (simp add: live_of_def rest_of_def sum.insert_remove ac_simps)
qed

lemma live_of_split: "finite (dom h) \<Longrightarrow> h a = Some c \<Longrightarrow> live_of h = rest_of h a + owned a c"
  using live_of_upd [of h a c] by (simp add: fun_upd_idem)

lemma rest_of_absent: "h a = None \<Longrightarrow> rest_of h a = live_of h"
  by (simp add: rest_of_def fun_upd_idem)

lemma fg_inv_finite: "fg_inv e w \<Longrightarrow> finite (dom (heap w))"
  by (simp add: fg_inv_def)

text \<open>Opening the invariant at one context.\<close>

lemma fg_inv_open:
  assumes i: "fg_inv e w" and a: "heap w a = Some c"
  shows "sym w a (rest_of (heap w) a) {#} c [] (installed (trace w)) w"
    and "wfc w a c (installed (trace w))" and "registered w a"
proof -
  show "sym w a (rest_of (heap w) a) {#} c [] (installed (trace w)) w"
    using i live_of_split [OF fg_inv_finite [OF i] a] a by (auto simp: fg_inv_def sym_def)
  have "\<exists>d \<in> insert c (others w a). swapchain d = sc \<and> binding_addr (binding d) = installed (trace w) sc"
    if "installed (trace w) sc \<noteq> 0" for sc
  proof -
    from i that obtain b d where "heap w b = Some d" "swapchain d = sc"
      "binding_addr (binding d) = installed (trace w) sc" unfolding fg_inv_def by blast
    with a show ?thesis by (cases "b = a") (auto simp: others_def)
  qed
  moreover have "ctx_ok a c" using i a unfolding fg_inv_def by blast
  moreover have "swapchain d \<noteq> swapchain c" if "swapchain c \<noteq> 0" "d \<in> others w a" for d
    using i a that unfolding fg_inv_def others_def by fastforce
  ultimately show "wfc w a c (installed (trace w))" unfolding wfc_def by blast
  show "registered w a" using i unfolding registered_def fg_inv_def by blast
qed

text \<open>Closing it again after an operation.\<close>

lemma fg_inv_close:
  assumes i: "fg_inv e w0" and a: "heap w0 a = Some c0 \<or> heap w0 a = None"
    and s: "sym w0' a (rest_of (heap w0) a) {#} c [] I w" and ok: "wfc w0 a c I"
    and w0': "heap w0' = heap w0" "contexts w0' = (if heap w0 a = None then a # contexts w0 else contexts w0)"
      "scopes w0' = scopes w0"
    and r: "references c = 1 + int (count_list (scopes w0) a) + e' a" "\<not> closing c"
    and e: "\<And>b. b \<noteq> a \<Longrightarrow> e' b = e b"
  shows "fg_inv e' w"
proof -
  note sd = s [unfolded sym_def]
  have h: "heap w = (heap w0)(a \<mapsto> c)" using sd w0' by simp
  have "mset (live w) = live_of (heap w)"
    unfolding h live_of_upd [OF fg_inv_finite [OF i]] using sd by simp
  moreover have "distinct (contexts w)" "dom (heap w) = set (contexts w)" "set (scopes w) \<subseteq> set (contexts w)"
    using i sd h w0' unfolding fg_inv_def by auto
  moreover have "ctx_ok b d \<and> \<not> closing d \<and> references d = 1 + int (count_list (scopes w) b) + e' b"
    if "heap w b = Some d" for b d
  proof (cases "b = a")
    case True
    with that h r sd w0' wfc_ctx_ok [OF ok] show ?thesis by simp
  next
    case False
    with that h i sd w0' e show ?thesis unfolding fg_inv_def by auto
  qed
  moreover have "swapchain d = 0" if "heap w b = Some d" "heap w b' = Some d'" "b \<noteq> b'" "swapchain d = swapchain d'"
    for b b' d d'
  proof (cases "b = a \<or> b' = a")
    case True
    with that h ok show ?thesis by (fastforce simp: wfc_def others_def)
  next
    case False
    with that h i show ?thesis unfolding fg_inv_def by auto
  qed
  moreover have "\<exists>b d. heap w b = Some d \<and> swapchain d = sc \<and> binding_addr (binding d) = installed (trace w) sc"
    if nz: "installed (trace w) sc \<noteq> 0" for sc
  proof -
    have "installed (trace w) = I" using sd by simp
    with ok nz obtain d where d: "d \<in> insert c (others w0 a)" "swapchain d = sc" "binding_addr (binding d) = I sc"
      by (auto simp: wfc_def)
    moreover have "\<exists>b. heap w b = Some d"
      using d(1) h by (cases "d = c") (auto simp: others_def intro: exI [of _ a])
    ultimately obtain b where "heap w b = Some d" by blast
    with d \<open>installed (trace w) = I\<close> show ?thesis by blast
  qed
  ultimately show ?thesis using sd unfolding fg_inv_def by blast
qed

text \<open>The usual case: a registered context, changed only as \<open>keeps\<close> allows.\<close>

lemma fg_inv_post:
  assumes i: "fg_inv e w0" and a: "heap w0 a = Some c"
    and p: "post w0 a (rest_of (heap w0) a) [] c {#} w"
  shows "fg_inv e w" and "heap w a \<noteq> None" and "scopes w = scopes w0" and "mem w = mem w0"
    and "keeps c (ctx w a)"
proof -
  from p obtain c' I where s: "sym w0 a (rest_of (heap w0) a) {#} c' [] I w" "wfc w0 a c' I" "keeps c c'"
    by (auto simp: post_def)
  have "references c' = 1 + int (count_list (scopes w0) a) + e a" "\<not> closing c'"
    using i a s(3) unfolding fg_inv_def keeps_def by auto
  then show "fg_inv e w" using a by (intro fg_inv_close [OF i disjI1 s(1,2)]) simp_all
  show "heap w a \<noteq> None" "scopes w = scopes w0" "mem w = mem w0" using s(1) by (simp_all add: sym_def)
  show "keeps c (ctx w a)" using s(3) by (simp add: sym_ctx [OF s(1)])
qed

text \<open>A step that leaves everything the invariant speaks of alone.\<close>

lemma fg_inv_same:
  assumes "fg_inv e w" and "fault w' = fault w" "locks w' = locks w" "contexts w' = contexts w"
    "heap w' = heap w" "scopes w' = scopes w" "mset (live w') = mset (live w)"
    "installed (trace w') = installed (trace w)"
  shows "fg_inv e w'"
  using assms unfolding fg_inv_def by simp

lemma fg_inv_emit:
  assumes "fg_inv e w" and "\<And>sc config. ev \<noteq> SetConfig sc config"
  shows "fg_inv e (emit ev w)"
  by (rule fg_inv_same [OF assms(1)]) (simp_all add: emit_def installed_other assms(2) del: installed.simps)

end
