(* ===== verification/Fg_Calls.thy ===== *)
theory Fg_Calls
  imports Fg_World
begin

text \<open>
  The entry points other than creation and destruction keep the invariant of the frame-generation DLL.
\<close>

definition add_ref :: "(addr \<Rightarrow> int) \<Rightarrow> addr \<Rightarrow> int \<Rightarrow> addr \<Rightarrow> int" where
  "add_ref e a n = e(a := e a + n)"

lemma add_ref_back [simp]: "add_ref (add_ref e a n) a (- n) = e"
  by (simp add: add_ref_def)

lemma fg_inv_have_native: "fg_inv e w \<Longrightarrow> have_native w = (ok, w') \<Longrightarrow> fg_inv e w'"
  using have_native_same [of w ok w'] by (auto intro: fg_inv_same)

lemma fg_inv_native_call:
  "fg_inv e w \<Longrightarrow> native_call ev w = (ans, w') \<Longrightarrow> (\<And>sc config. ev \<noteq> SetConfig sc config) \<Longrightarrow> fg_inv e w'"
  by (auto simp: native_call_def Let_def intro: fg_inv_emit)

lemma native_call_fields:
  assumes "native_call ev w = (ans, w')"
  shows "heap w' = heap w" "scopes w' = scopes w" "mem w' = mem w" "outside w' = outside w"
  using assms by (auto simp: native_call_def emit_def Let_def)

subsection \<open>References\<close>

lemma lock_pair: "locks w = [] \<Longrightarrow> release l (upd a f (acquire l w)) = upd a f w"
  by (cases "heap w a") (auto simp: acquire_def release_def upd_def set_fault_def)

lemma fg_inv_references:
  assumes i: "fg_inv e w" and a: "heap w a = Some c"
  shows "fg_inv (add_ref e a n) (upd a (\<lambda>c. c\<lparr>references := references c + n\<rparr>) w)"
proof -
  let ?f = "\<lambda>c. c\<lparr>references := references c + n\<rparr>"
  note o = fg_inv_open [OF i a]
  have s: "sym w a (rest_of (heap w) a) {#} (?f c) [] (installed (trace w)) (upd a ?f w)"
    by (rule sym_upd_same [OF o(1)]) (simp add: owned_def)
  have ok: "wfc w a (?f c) (installed (trace w))"
    by (rule wfc_same [OF o(2)]) (use wfc_ctx_ok [OF o(2)] in \<open>auto simp: ctx_ok_def tags_ok_def\<close>)
  have "references c = 1 + int (count_list (scopes w) a) + e a" "\<not> closing c"
    using i a unfolding fg_inv_def by auto
  then show ?thesis using a by (intro fg_inv_close [OF i disjI1 s ok]) (simp_all add: add_ref_def)
qed

lemma acquire_context_ok:
  assumes i: "fg_inv e w" and run: "acquire_context handle w = (r, w')"
  shows "scopes w' = scopes w" and "mem w' = mem w"
    and "r = None \<Longrightarrow> fg_inv e w'"
    and "r = Some a \<Longrightarrow> handle = Some a \<and> heap w' a \<noteq> None \<and> fg_inv (add_ref e a 1) w'"
proof -
  have l: "locks w = []" using i by (simp add: fg_inv_def)
  then have null: "release ContextsLock (acquire ContextsLock w) = w"
    by (simp add: acquire_def release_def)
  have dom: "h \<in> set (contexts w) \<longleftrightarrow> heap w h \<noteq> None" for h using i unfolding fg_inv_def by blast
  have c: "contexts (acquire ContextsLock w) = contexts w" "closing (ctx (acquire ContextsLock w) h) = closing (ctx w h)" for h
    by (auto simp: acquire_def ctx_def set_fault_def)
  show "scopes w' = scopes w" "mem w' = mem w" using run
    by (auto simp: acquire_context_def acquire_def release_def upd_def set_fault_def Let_def
        split: option.splits if_splits)
  show "r = None \<Longrightarrow> fg_inv e w'"
    using run i null by (auto simp: acquire_context_def Let_def split: option.splits if_splits)
  assume r: "r = Some a"
  with run have h: "handle = Some a" "heap w a \<noteq> None"
    and w': "w' = upd a (\<lambda>c. c\<lparr>references := references c + 1\<rparr>) w"
    by (auto simp: acquire_context_def Let_def c dom lock_pair [OF l] split: option.splits if_splits)
  then obtain d where d: "heap w a = Some d" by auto
  show "handle = Some a \<and> heap w' a \<noteq> None \<and> fg_inv (add_ref e a 1) w'"
    using fg_inv_references [OF i d, of 1] h d by (simp add: w' upd_def)
qed

lemma release_context_ok:
  assumes i: "fg_inv (add_ref e a 1) w" and a: "heap w a \<noteq> None"
  shows "fg_inv e (release_context a w)" and "scopes (release_context a w) = scopes w"
    and "mem (release_context a w) = mem w"
proof -
  from a obtain c where c: "heap w a = Some c" by auto
  have l: "locks w = []" using i by (simp add: fg_inv_def)
  have e: "release_context a w = upd a (\<lambda>c. c\<lparr>references := references c + - 1\<rparr>) w"
    using lock_pair [OF l] by (simp add: release_context_def Let_def)
  show "fg_inv e (release_context a w)" unfolding e using fg_inv_references [OF i c, of "- 1"] by simp
  show "scopes (release_context a w) = scopes w" "mem (release_context a w) = mem w"
    unfolding e by (simp_all add: upd_def c)
qed

lemma report_validation_ok:
  assumes "fg_inv e w"
  shows "fg_inv e (report_validation a w)" and "heap (report_validation a w) = heap w"
    and "scopes (report_validation a w) = scopes w"
proof -
  have l: "locks w = []" using assms by (simp add: fg_inv_def)
  have "release DebugLock (acquire DebugLock w) = w" using l by (simp add: acquire_def release_def)
  then show "fg_inv e (report_validation a w)" "heap (report_validation a w) = heap w"
    "scopes (report_validation a w) = scopes w"
    using assms by (auto simp: report_validation_def Let_def emit_def [symmetric] intro: fg_inv_emit)
      (simp_all add: emit_def)
qed

subsection \<open>Dispatch\<close>

lemma sym_translated_dispatch:
  "sym w0 a Y X c L I w \<Longrightarrow> translated_dispatch a d rest w = (r, w') \<Longrightarrow> sym w0 a Y X c L I w'"
  by (auto simp: translated_dispatch_def Let_def split: if_splits prod.splits dest: sym_bridge_call)

lemma sym_native_dispatch:
  "sym w0 a Y X c L I w \<Longrightarrow> native_dispatch a d rest w = (r, w') \<Longrightarrow> sym w0 a Y X c L I w'"
  by (auto simp: native_dispatch_def split: prod.splits intro: sym_native_call)

lemma sym_translated_prepare:
  assumes s: "sym w0 a Y X c L I w" and ok: "wfc w0 a c I"
    and run: "translated_prepare a d rest w = (r, w')"
  obtains c' where "sym w0 a Y X c' L I w'" and "wfc w0 a c' I" and "keeps c c'" and "mode c' = mode c"
    and "native_config c' = native_config c"
proof (cases "make_prepare_packet True d rest")
  case (Inl err)
  with s ok run that [of c] show ?thesis by (simp add: translated_prepare_def)
next
  case (Inr p0)
  let ?p = "if have_last_prepare_frame_id c \<and> kp_frame_id p0 \<noteq> last_prepare_frame_id c + 1
            then p0\<lparr>kp_reset := True\<rparr> else p0"
  show ?thesis
  proof (cases "prepare_invalid c p0 \<or> camera_invalid p0")
    case True
    with Inr s ok run that [of c] show ?thesis
      by (auto simp: translated_prepare_def Let_def sym_ctx [OF s] split: if_splits)
  next
    case False
    obtain r1 x w1 where 1: "bridge_call (initialize_packet (PreparePacket ?p) YAAGL_FSR_FG_PREPARE (translated c)) w
        = (r1, x, w1)" by (metis prod_cases3)
    note s1 = sym_bridge_call [OF s 1]
    let ?f = "\<lambda>c. c\<lparr>last_prepare_frame_id := kp_frame_id ?p, have_last_prepare_frame_id := True\<rparr>"
    have w': "w' = (if r1 = FFX_OK then upd a ?f w1 else w1)"
      using run Inr False 1 by (auto simp: translated_prepare_def Let_def sym_ctx [OF s] split: if_splits)
    have s2: "sym w0 a Y X (?f c) L I (upd a ?f w1)"
      by (rule sym_upd_same [OF s1]) (simp add: owned_def)
    have "wfc w0 a (?f c) I"
      by (rule wfc_same [OF ok]) (use wfc_ctx_ok [OF ok] in \<open>simp_all add: ctx_ok_def tags_ok_def\<close>)
    with that [of c] that [of "?f c"] s1 s2 ok w' show ?thesis by (cases "r1 = FFX_OK") auto
  qed
qed

lemma dispatch_pending_post:
  assumes s: "sym w0 a Y X c L I w" "wfc w0 a c I" and L: "free_of L" and reg: "registered w0 a"
    and p: "mode c = MODE_PENDING" and run: "dispatch_pending a d rest w = (r, w')"
  shows "post w0 a Y L c X w'"
proof -
  let ?n = "\<lambda>c. c\<lparr>mode := CONTEXT_NATIVE\<rparr>"
  have native: "post w0 a Y L c X w''"
    if "and_ok (select_native a w1) (native_dispatch a d rest) = (r1, w'')"
      and s1: "sym w0 a Y X c1 L I w1" "wfc w0 a c1 I" and k: "keeps c c1" and p1: "mode c1 = MODE_PENDING"
    for c1 w1 w'' r1
  proof -
    obtain r2 w2 where 2: "select_native a w1 = (r2, w2)" by force
    from select_native_post [OF s1 L reg p1 2] obtain c2 I2 where
      s2: "sym w0 a Y X c2 L I2 w2" "wfc w0 a c2 I2" "keeps (?n c1) c2" by (auto simp: post_def)
    have "keeps c c2" using keeps_trans [OF keeps_trans [OF k] s2(3)] p1 by (simp add: keeps_def mode_step_def)
    with that(1) 2 s2 show ?thesis
      by (cases "r2 = FFX_OK") (auto intro: postI sym_native_dispatch)
  qed
  show ?thesis
  proof (cases "is_prepare d \<and> \<not> (prepare_has_native_only_flags (prepare_flags d) \<or> prepare_requires_native d rest)")
    case False
    with run native [OF _ s keeps_refl p, of r w'] s show ?thesis
      by (auto simp: dispatch_pending_def intro: postI split: if_splits)
  next
    case True
    obtain r1 w1 where 1: "translated_prepare a d rest (acquire (DispatchLock a) w) = (r1, w1)" by force
    note s0 = sym_acquire [OF s(1) free_of_notin(2) [OF L], of a]
    show ?thesis
    proof (rule sym_translated_prepare [OF s0 s(2) 1])
      fix c1
      let ?w1 = "release (DispatchLock a) w1"
      assume "sym w0 a Y X c1 (DispatchLock a # L) I w1" and c1: "wfc w0 a c1 I" "keeps c c1" "mode c1 = mode c"
      then have s1: "sym w0 a Y X c1 L I ?w1" by (intro sym_release)
      let ?m = "c1\<lparr>mode := CONTEXT_METALFX\<rparr>"
      note s2 = safe_set_mode [OF p disjI2 [OF refl] s1 c1(1,2)]
      have metal: "post w0 a Y L c X w''"
        if "(if native_config_valid ?m then configure_frame_generation a (native_config ?m) [] (set_mode a CONTEXT_METALFX ?w1)
             else (FFX_OK, set_mode a CONTEXT_METALFX ?w1)) = (r, w'')" for w''
        using that configure_frame_generation_post [OF s2(1,2) L reg] s2 c1(3) p
        by (auto split: if_splits intro: postI post_weaken [where c = ?m])
      show ?thesis
        using run True 1 native [OF _ s1 c1(1,2)] metal c1 p s1 sym_ctx [OF s2(1)]
        by (auto simp: dispatch_pending_def Let_def split: if_splits intro: postI)
    qed
  qed
qed

lemma dispatch_selected_post:
  assumes s: "sym w0 a Y X c L I w" "wfc w0 a c I" and run: "dispatch_selected a d rest w = (r, fr, w')"
  shows "post w0 a Y L c X w'"
proof (cases "mode c = CONTEXT_METALFX")
  case False
  with run s show ?thesis
    by (auto simp: dispatch_selected_def sym_ctx [OF s(1)] split: prod.splits intro: postI sym_native_dispatch)
next
  case metal: True
  show ?thesis
  proof (cases "is_prepare d")
    case True
    obtain r1 w1 where 1: "translated_prepare a d rest w = (r1, w1)" by force
    have "post w0 a Y L c X w1" by (rule sym_translated_prepare [OF s 1]) (auto intro: postI)
    with run metal True 1 s show ?thesis
      by (auto simp: dispatch_selected_def sym_ctx [OF s(1)] split: if_splits intro: postI)
  next
    case False
    with run metal s show ?thesis
      by (auto simp: dispatch_selected_def sym_ctx [OF s(1)] split: desc_body.splits prod.splits
          intro: postI sym_translated_dispatch)
  qed
qed

lemma dispatch_context_post:
  assumes s: "sym w0 a Y X c [] I w" "wfc w0 a c I" and reg: "registered w0 a"
    and run: "dispatch_context a d rest w = (r, w')"
  shows "post w0 a Y [] c X w'"
proof (cases "\<not> in_callback w \<and> mode c = MODE_PENDING")
  case True
  obtain r1 w1 where 1: "dispatch_pending a d rest (acquire (ConfigureLock a) w) = (r1, w1)" by force
  have "sym w0 a Y X c [ConfigureLock a] I (acquire (ConfigureLock a) w)"
    using sym_acquire [OF s(1)] by simp
  from dispatch_pending_post [OF this s(2) _ reg _ 1] True
  have "post w0 a Y [ConfigureLock a] c X w1" by simp
  then have "post w0 a Y [] c X (release (ConfigureLock a) w1)" by (auto simp: post_def intro: sym_release)
  with run True 1 show ?thesis by (auto simp: dispatch_context_def sym_ctx [OF s(1)])
next
  case False
  let ?w = "if \<not> in_callback w then release (ConfigureLock a) (acquire (ConfigureLock a) w) else w"
  have s1: "sym w0 a Y X c [] I ?w"
    using s(1) sym_release [OF sym_acquire [OF s(1), of "ConfigureLock a"]] by simp
  have s2: "sym w0 a Y X c [DispatchLock a] I (acquire (DispatchLock a) ?w)"
    using sym_acquire [OF s1] by simp
  obtain r1 fr w1 where 1: "dispatch_selected a d rest (acquire (DispatchLock a) ?w) = (r1, fr, w1)"
    by (metis prod_cases3)
  from dispatch_selected_post [OF s2 s(2) 1] obtain c1 I1 where
    c1: "sym w0 a Y X c1 [] I1 (release (DispatchLock a) w1)" "wfc w0 a c1 I1" "keeps c c1"
    by (auto simp: post_def intro: sym_release)
  from run False 1 have "w' = (case fr of None \<Rightarrow> release (DispatchLock a) w1
      | Some f \<Rightarrow> retire_frame_configs a f (release (DispatchLock a) w1))"
    by (auto simp: dispatch_context_def Let_def sym_ctx [OF s(1)] split: if_splits)
  with c1 safeD [OF safe_retire_frame_configs [OF free_of_simps(1)] c1 refl] show ?thesis
    by (auto split: option.splits intro: postI)
qed

text \<open>Running an operation on an acquired context.\<close>

lemma fg_inv_run:
  assumes i: "fg_inv e w" and a: "heap w a \<noteq> None"
    and op: "\<And>c I Y. sym w a Y {#} c [] I w \<Longrightarrow> wfc w a c I \<Longrightarrow> registered w a \<Longrightarrow> post w a Y [] c {#} w'"
  shows "fg_inv e w'" and "heap w' a \<noteq> None" and "scopes w' = scopes w"
proof -
  from a obtain c where c: "heap w a = Some c" by auto
  note p = fg_inv_post [OF i c op [OF fg_inv_open [OF i c]]]
  then show "fg_inv e w'" "heap w' a \<noteq> None" "scopes w' = scopes w" by simp_all
qed

lemma ffxDispatch_ok:
  assumes i: "fg_inv e w" and run: "ffxDispatch handle desc w = (r, w')"
  shows "fg_inv e w' \<and> scopes w' = scopes w"
proof (cases "desc = 0 \<or> \<not> valid_chain (mem w) desc")
  case True
  with run i show ?thesis by (simp add: ffxDispatch_def)
next
  case False
  obtain ac w1 where 1: "acquire_context handle w = (ac, w1)" by force
  note aq = acquire_context_ok [OF i 1]
  show ?thesis
  proof (cases ac)
    case None
    with run False 1 aq show ?thesis by (simp add: ffxDispatch_def)
  next
    case (Some a)
    let ?d = "hd (bodies (mem w1) desc)" and ?rest = "tl (bodies (mem w1) desc)"
    let ?v = "validate_public_dispatch (ctx w1 a) ?d ?rest"
    from aq(4) [OF Some] have i1: "fg_inv (add_ref e a 1) w1" "heap w1 a \<noteq> None" by simp_all
    obtain r2 w2 where 2: "(if ?v = FFX_OK then
          if in_callback w1 \<and> ?d = WaitForPresentsDX12 then (FFX_ERROR_PARAMETER, w1)
          else dispatch_context a ?d ?rest w1 else (?v, w1)) = (r2, w2)" by force
    have p: "post w1 a Y [] c {#} w2" if "sym w1 a Y {#} c [] I w1" "wfc w1 a c I" "registered w1 a" for c I Y
      using 2 that dispatch_context_post [OF that] by (auto split: if_splits intro: postI)
    have i2: "fg_inv (add_ref e a 1) w2" "heap w2 a \<noteq> None" "scopes w2 = scopes w1"
      by (rule fg_inv_run [OF i1 p]; assumption)+
    let ?w3 = "if r2 \<noteq> FFX_OK then report_validation a w2 else w2"
    have i3: "fg_inv (add_ref e a 1) ?w3" "heap ?w3 a \<noteq> None" "scopes ?w3 = scopes w2"
      using i2 report_validation_ok [OF i2(1), of a] by auto
    from run False 1 Some 2 have "w' = release_context a ?w3"
      by (auto simp: ffxDispatch_def Let_def split: if_splits prod.splits)
    with release_context_ok [OF i3(1,2)] i3(3) i2(3) aq(1) show ?thesis by simp
  qed
qed

subsection \<open>Configure\<close>

lemma configure_context_post:
  assumes s: "sym w0 a Y X c L I w" "wfc w0 a c I" and L: "free_of L" and reg: "registered w0 a"
    and run: "configure_context a d rest w = (r, w')"
  shows "post w0 a Y L c X w'"
proof -
  obtain r1 w1 where 1: "native_configure a (d # rest) w = (r1, w1)" by force
  note s1 = sym_native_configure [OF s(1) 1]
  have native: "post w0 a Y L c X w''"
    if "and_ok (native_configure a (d # rest) w) (\<lambda>w.
          if mode (ctx w a) = MODE_PENDING then select_native a w else (FFX_OK, w)) = (r, w'')" for w''
  proof (cases "r1 = FFX_OK \<and> mode c = MODE_PENDING")
    case True
    with that 1 have "select_native a w1 = (r, w'')" by (simp add: sym_ctx [OF s1])
    from select_native_post [OF s1 s(2) L reg _ this] True show ?thesis
      by (auto intro!: post_weaken [of _ _ _ _ "c\<lparr>mode := CONTEXT_NATIVE\<rparr>"] simp: keeps_def mode_step_def)
  next
    case False
    with that 1 s1 s(2) show ?thesis by (cases "r1 = FFX_OK") (auto simp: sym_ctx [OF s1] intro: postI)
  qed
  have swap: "post w0 a Y L c X w1" using s1 s(2) by (auto intro: postI)
  have unchanged: "post w0 a Y L c X w" using s by (auto intro: postI)
  show ?thesis
  proof (cases "closing c \<or> mode c = CONTEXT_SWAPCHAIN")
    case True
    with run 1 swap unchanged show ?thesis
      by (auto simp: configure_context_def sym_ctx [OF s(1)] split: if_splits)
  next
    case False
    with run 1 native unchanged configure_frame_generation_post [OF s L reg] show ?thesis
      by (auto simp: configure_context_def sym_ctx [OF s(1)] split: desc_body.splits if_splits)
  qed
qed

lemma store_debug_ok:
  assumes i: "fg_inv e w" and a: "\<And>b. context = Some b \<Longrightarrow> heap w b \<noteq> None"
  shows "fg_inv e (store_debug context m l w) \<and> scopes (store_debug context m l w) = scopes w \<and>
    (\<forall>b. heap w b \<noteq> None \<longrightarrow> heap (store_debug context m l w) b \<noteq> None)"
proof (cases "context")
  case None
  have "locks w = []" using i by (simp add: fg_inv_def)
  with None have "store_debug context m l w = w\<lparr>global_message := m, global_debug_level := l\<rparr>"
    by (simp add: store_debug_def acquire_def release_def)
  then show ?thesis by (auto intro: fg_inv_same [OF i])
next
  case (Some a)
  let ?f = "\<lambda>c. c\<lparr>message := m, debug_level := l\<rparr>"
  from a [OF Some] obtain c where c: "heap w a = Some c" by auto
  have l: "locks w = []" using i by (simp add: fg_inv_def)
  note o = fg_inv_open [OF i c]
  have s: "sym w a (rest_of (heap w) a) {#} (?f c) [] (installed (trace w)) (upd a ?f w)"
    by (rule sym_upd_same [OF o(1)]) (simp add: owned_def)
  have "wfc w a (?f c) (installed (trace w))"
    by (rule wfc_same [OF o(2)]) (use wfc_ctx_ok [OF o(2)] in \<open>auto simp: ctx_ok_def tags_ok_def\<close>)
  moreover have "keeps c (?f c)" by (simp add: keeps_def mode_step_def)
  ultimately have "fg_inv e (upd a ?f w)" using fg_inv_post(1) [OF i c] postI [OF s] by blast
  moreover have "store_debug context m l w = upd a ?f w"
    using Some by (simp add: store_debug_def Let_def lock_pair [OF l])
  ultimately show ?thesis by (simp add: upd_def c)
qed

lemma configure_debug_ok:
  assumes i: "fg_inv e w" and run: "configure_debug handle m l rest w = (r, w')"
  shows "fg_inv e w' \<and> scopes w' = scopes w"
proof (cases "rest \<noteq> [] \<or> \<not> valid_debug_level l")
  case True
  with run i show ?thesis by (simp add: configure_debug_def)
next
  case False
  obtain ac w1 where 1: "(if handle \<noteq> None then acquire_context handle w else (None, w)) = (ac, w1)" by force
  define e1 where "e1 = (case ac of None \<Rightarrow> e | Some a \<Rightarrow> add_ref e a 1)"
  have i1: "fg_inv e1 w1" "scopes w1 = scopes w" "\<And>b. ac = Some b \<Longrightarrow> heap w1 b \<noteq> None"
    using 1 i acquire_context_ok [OF i, of handle ac w1] unfolding e1_def
    by (auto split: if_splits option.splits)
  show ?thesis
  proof (cases "handle \<noteq> None \<and> ac = None")
    case True
    with run False 1 i1 show ?thesis by (auto simp: configure_debug_def e1_def)
  next
    case acq: False
    obtain ok w2 where 2: "have_native w1 = (ok, w2)" by force
    note n2 = have_native_same [OF 2] fg_inv_have_native [OF i1(1) 2]
    obtain r3 w3 where 3: "(if ok then
           let (ans, w) = native_call (NativeConfigure (map_option (\<lambda>a. original (ctx w2 a)) ac)
                                         (GlobalDebug1 m l # rest)) w2
           in (na_code ans, w) else (FFX_OK, w2)) = (r3, w3)" by force
    have i3: "fg_inv e1 w3" "heap w3 = heap w1" "scopes w3 = scopes w1"
      using 3 n2 by (auto split: if_splits prod.splits intro: fg_inv_native_call dest: native_call_fields)
    define w4 where "w4 = (if r3 = FFX_OK then store_debug ac m l w3 else w3)"
    have i4: "fg_inv e1 w4" "scopes w4 = scopes w3" "\<And>b. heap w3 b \<noteq> None \<Longrightarrow> heap w4 b \<noteq> None"
      using store_debug_ok [OF i3(1), of ac m l] i3 i1(3) unfolding w4_def by auto
    have "w' = (case ac of Some a \<Rightarrow> release_context a w4 | None \<Rightarrow> w4)"
      using run False acq 1 2 3 unfolding w4_def
      by (auto simp: configure_debug_def Let_def split: if_splits option.splits prod.splits)
    with release_context_ok [of e _ w4] i4 i3 i1 show ?thesis
      by (cases ac) (auto simp: e1_def)
  qed
qed

lemma ffxConfigure_ok:
  assumes i: "fg_inv e w" and run: "ffxConfigure handle desc w = (r, w')"
  shows "fg_inv e w' \<and> scopes w' = scopes w"
proof -
  let ?d = "hd (bodies (mem w) desc)" and ?rest = "tl (bodies (mem w) desc)"
  have global: "fg_inv e w'' \<and> scopes w'' = scopes w"
    if "(let (ok, w) = have_native w in
         if \<not> ok then (FFX_NO_PROVIDER, w)
         else let (ans, w) = native_call (NativeConfigure None (?d # ?rest)) w in (na_code ans, w)) = (r, w'')" for w''
  proof -
    obtain ok w1 where 1: "have_native w = (ok, w1)" by force
    from that 1 have_native_same [OF 1] fg_inv_have_native [OF i 1] show ?thesis
      by (auto split: if_splits prod.splits intro: fg_inv_native_call dest: native_call_fields)
  qed
  have local: "fg_inv e w'' \<and> scopes w'' = scopes w"
    if "(case acquire_context handle w of
           (None, w) \<Rightarrow> (FFX_ERROR_PARAMETER, w)
         | (Some a, w) \<Rightarrow>
             let w = acquire (ConfigureLock a) w;
                 (result, w) = configure_context a ?d ?rest w;
                 w = release (ConfigureLock a) w;
                 w = (if result \<noteq> FFX_OK then report_validation a w else w)
             in (result, release_context a w)) = (r, w'')" for w''
  proof -
    obtain ac w1 where 1: "acquire_context handle w = (ac, w1)" by force
    note aq = acquire_context_ok [OF i 1]
    show ?thesis
    proof (cases ac)
      case None
      with that 1 aq show ?thesis by simp
    next
      case (Some a)
      from aq(4) [OF Some] have i1: "fg_inv (add_ref e a 1) w1" "heap w1 a \<noteq> None" by simp_all
      obtain r2 w2 where 2: "configure_context a ?d ?rest (acquire (ConfigureLock a) w1) = (r2, w2)" by force
      have p: "post w1 a Y [] c {#} (release (ConfigureLock a) w2)"
        if "sym w1 a Y {#} c [] I w1" "wfc w1 a c I" "registered w1 a" for c I Y
      proof -
        have "sym w1 a Y {#} c [ConfigureLock a] I (acquire (ConfigureLock a) w1)"
          using sym_acquire [OF that(1)] by simp
        from configure_context_post [OF this that(2) _ that(3) 2] show ?thesis
          by (auto simp: post_def intro: sym_release)
      qed
      let ?w2 = "release (ConfigureLock a) w2"
      have i2: "fg_inv (add_ref e a 1) ?w2" "heap ?w2 a \<noteq> None" "scopes ?w2 = scopes w1"
        by (rule fg_inv_run [OF i1 p]; assumption)+
      let ?w3 = "if r2 \<noteq> FFX_OK then report_validation a ?w2 else ?w2"
      have i3: "fg_inv (add_ref e a 1) ?w3" "heap ?w3 a \<noteq> None" "scopes ?w3 = scopes ?w2"
        using i2 report_validation_ok [OF i2(1), of a] by auto
      from that 1 Some 2 have "w'' = release_context a ?w3" by (auto simp: Let_def split: if_splits)
      with release_context_ok [OF i3(1,2)] i3(3) i2(3) aq(1) show ?thesis by simp
    qed
  qed
  show ?thesis
    using run i global local configure_debug_ok [OF i]
    unfolding ffxConfigure_def Let_def
    by (auto split: if_splits desc_body.splits)
qed

subsection \<open>Query\<close>

text \<open>Queries write to the application's descriptor only.\<close>

definition quiet :: "fg_world \<Rightarrow> fg_world \<Rightarrow> bool" where
  "quiet w w' \<longleftrightarrow> (\<forall>e. fg_inv e w \<longrightarrow> fg_inv e w') \<and> heap w' = heap w \<and> scopes w' = scopes w"

lemma quiet_refl [simp, intro]: "quiet w w"
  by (simp add: quiet_def)

lemma quiet_trans: "quiet w w' \<Longrightarrow> quiet w' w'' \<Longrightarrow> quiet w w''"
  by (simp add: quiet_def)

lemma quiet_set_body: "quiet w (set_body p b w)"
  by (auto simp: quiet_def set_body_def intro: fg_inv_same)

lemma quiet_have_native: "have_native w = (ok, w') \<Longrightarrow> quiet w w'"
  using have_native_same [of w ok w'] by (auto simp: quiet_def intro: fg_inv_have_native)

lemma quiet_native_call:
  "native_call ev w = (ans, w') \<Longrightarrow> (\<And>sc config. ev \<noteq> SetConfig sc config) \<Longrightarrow> quiet w w'"
  by (auto simp: quiet_def intro: fg_inv_native_call dest: native_call_fields)

lemma quiet_native_query: "native_query c desc w = (r, w') \<Longrightarrow> quiet w w'"
  by (auto simp: native_query_def split: prod.splits
      intro: quiet_trans [OF quiet_native_call quiet_set_body])

lemma quiet_query_versions:
  assumes "query_versions desc q rest w = (r, w')"
  shows "quiet w w'"
proof -
  obtain ok w1 where 1: "have_native w = (ok, w1)" by force
  note q1 = quiet_have_native [OF 1]
  have answer: "quiet w (set_body desc b w2)" if "native_call (NativeQuery c ds) w1 = (ans, w2)" for c ds ans w2 b
    by (rule quiet_trans [OF quiet_trans [OF q1 quiet_native_call [OF that]] quiet_set_body]) simp
  show ?thesis
    using assms 1 q1 answer quiet_trans [OF q1 quiet_native_query]
    by (auto simp: query_versions_def Let_def split: if_splits option.splits prod.splits)
qed

lemma quiet_query_context: "query_context a desc w = (r, w') \<Longrightarrow> quiet w w'"
  by (auto simp: query_context_def Let_def split: if_splits desc_body.splits
      intro: quiet_native_query quiet_query_versions quiet_set_body)

lemma ffxQuery_ok:
  assumes i: "fg_inv e w" and run: "ffxQuery handle desc w = (r, w')"
  shows "fg_inv e w' \<and> scopes w' = scopes w"
proof (cases "desc = 0 \<or> \<not> valid_chain (mem w) desc \<or> handle = None")
  case True
  obtain ok w1 where 1: "have_native w = (ok, w1)" by force
  have "quiet w w'"
    using run True 1 quiet_have_native [OF 1] quiet_trans [OF quiet_have_native [OF 1] quiet_native_query]
    by (auto simp: ffxQuery_def split: if_splits desc_body.splits intro: quiet_query_versions)
  with i show ?thesis by (simp add: quiet_def)
next
  case False
  obtain ac w1 where 1: "acquire_context handle w = (ac, w1)" by force
  note aq = acquire_context_ok [OF i 1]
  show ?thesis
  proof (cases ac)
    case None
    with run False 1 aq show ?thesis by (auto simp: ffxQuery_def split: if_splits)
  next
    case (Some a)
    obtain r2 w2 where 2: "query_context a desc w1 = (r2, w2)" by force
    from quiet_query_context [OF 2] aq(4) [OF Some] have
      i2: "fg_inv (add_ref e a 1) w2" "heap w2 a \<noteq> None" "scopes w2 = scopes w1"
      by (auto simp: quiet_def)
    from run False 1 Some 2 have "w' = release_context a w2" by (auto simp: ffxQuery_def split: if_splits)
    with release_context_ok [OF i2(1,2)] i2(3) aq(1) show ?thesis by simp
  qed
qed

subsection \<open>Callbacks\<close>

text \<open>Application code run inside a callback: it may call the API, so it keeps the invariant, and it
  returns from the scopes it enters.\<close>

abbreviation fg_ok :: "fg_world \<Rightarrow> bool" where
  "fg_ok \<equiv> fg_inv (\<lambda>_. 0)"

definition app_ok :: "(fg_world \<Rightarrow> fg_world) \<Rightarrow> bool" where
  "app_ok g \<longleftrightarrow> (\<forall>w. fg_ok w \<longrightarrow> scopes w \<noteq> [] \<longrightarrow> fg_ok (g w) \<and> scopes (g w) = scopes w)"

lemma enter_callback_ok:
  assumes i: "fg_inv e w" and a: "heap w a \<noteq> None"
  shows "fg_inv e (enter_callback a w)" and "scopes (enter_callback a w) = a # scopes w"
    and "heap (enter_callback a w) a \<noteq> None"
proof -
  let ?v = "w\<lparr>scopes := a # scopes w\<rparr>" and ?f = "\<lambda>c. c\<lparr>references := references c + 1\<rparr>"
  have l: "locks ?v = []" using i by (simp add: fg_inv_def)
  have e: "enter_callback a w = upd a ?f ?v" by (simp add: enter_callback_def Let_def lock_pair [OF l])
  from a obtain c where c: "heap ?v a = Some c" by auto
  have "fg_inv (add_ref e a (- 1)) ?v"
    using i a unfolding fg_inv_def by (auto simp: add_ref_def)
  from fg_inv_references [OF this c, of 1] show "fg_inv e (enter_callback a w)"
    unfolding e using add_ref_back [of e a "- 1"] by simp
  show "scopes (enter_callback a w) = a # scopes w" "heap (enter_callback a w) a \<noteq> None"
    unfolding e using c by (simp_all add: upd_def)
qed

lemma leave_callback_ok:
  assumes i: "fg_inv e w" and sc: "scopes w = a # ss"
  shows "fg_inv e (leave_callback w)" and "scopes (leave_callback w) = ss"
proof -
  let ?v = "w\<lparr>scopes := ss\<rparr>"
  have "a \<in> dom (heap w)" using i sc unfolding fg_inv_def by auto
  then have a: "heap ?v a \<noteq> None" by auto
  have "fg_inv (add_ref e a 1) ?v" using i sc unfolding fg_inv_def by (auto simp: add_ref_def)
  from release_context_ok [OF this a] show "fg_inv e (leave_callback w)" "scopes (leave_callback w) = ss"
    by (simp_all add: leave_callback_def sc)
qed

lemma find_binding_ok:
  assumes i: "fg_inv e w" and u: "user = installed (trace w) sc" "user \<noteq> 0"
  obtains b where "find_binding w user = Some b" and "heap w (cb_context b) \<noteq> None"
proof -
  let ?P = "\<lambda>a. map_option fst (binding (ctx w a)) = Some user"
  from i u obtain a c where a: "heap w a = Some c" "binding_addr (binding c) = user"
    unfolding fg_inv_def by blast
  with u have "?P a" by (cases "binding c") (auto simp: ctx_def)
  moreover have "a \<in> set (contexts w)" using i a unfolding fg_inv_def by blast
  ultimately have "List.find ?P (contexts w) \<noteq> None" by (auto simp: find_None_iff)
  then obtain a' where f: "List.find ?P (contexts w) = Some a'" by auto
  then have a': "?P a'" "a' \<in> set (contexts w)" by (auto simp: find_Some_iff)
  moreover from a'(2) i obtain c' where c': "heap w a' = Some c'" unfolding fg_inv_def by blast
  ultimately obtain b where b: "binding c' = Some (user, b)" by (auto simp: ctx_def)
  have "ctx_ok a' c'" using i c' unfolding fg_inv_def by blast
  with b have "cb_context b = a'" by (simp add: ctx_ok_def)
  with that [of b] f b c' show ?thesis by (simp add: find_binding_def ctx_def)
qed

lemma generation_callback_ok:
  assumes i: "fg_ok w" and u: "user = installed (trace w) sc" "user \<noteq> 0"
    and app: "app_ok (\<lambda>w. snd (snd (app desc w)))"
    and run: "generation_callback app desc rest user w = (r, desc', w')"
  shows "fg_ok w' \<and> scopes w' = scopes w"
proof -
  obtain b where b: "find_binding w user = Some b" "heap w (cb_context b) \<noteq> None"
    by (rule find_binding_ok [OF i u])
  let ?a = "cb_context b"
  let ?w1 = "enter_callback ?a w"
  note i1 = enter_callback_ok [OF i b(2)]
  obtain r2 d2 w2 where 2: "(if cb_generate b \<noteq> 0
       then app desc (emit (AppGenerate (cb_generate b) (cb_generate_user b) desc) ?w1)
       else let (r, w) = dispatch_context ?a (DispatchFG desc) rest ?w1 in (r, desc, w)) = (r2, d2, w2)"
    by (metis prod_cases3)
  have i2: "fg_ok w2 \<and> scopes w2 = ?a # scopes w"
  proof (cases "cb_generate b \<noteq> 0")
    case True
    let ?v = "emit (AppGenerate (cb_generate b) (cb_generate_user b) desc) ?w1"
    have "fg_ok ?v" "scopes ?v = ?a # scopes w"
      using fg_inv_emit [OF i1(1)] i1(2) by (simp_all add: emit_def)
    with app have "fg_ok (snd (snd (app desc ?v))) \<and> scopes (snd (snd (app desc ?v))) = ?a # scopes w"
      unfolding app_ok_def by (metis list.distinct(1))
    with 2 True show ?thesis by simp
  next
    case False
    have "fg_ok w2" "scopes w2 = scopes ?w1"
      by (rule fg_inv_run [OF i1(1,3) dispatch_context_post [of _ _ _ _ _ _ _ "DispatchFG desc" rest r2]];
          (assumption | use 2 False in \<open>simp split: prod.splits\<close>))+
    with i1 show ?thesis by simp
  qed
  let ?d = "if r2 \<noteq> FFX_OK then d2\<lparr>dg_numGeneratedFrames := 0\<rparr> else d2"
  let ?w3 = "retire_frame_configs ?a (dg_frameID ?d) w2"
  have "?a \<in> dom (heap w2)" using i2 unfolding fg_inv_def by auto
  then have a2: "heap w2 ?a \<noteq> None" by auto
  have p: "post w2 ?a Y [] c {#} ?w3" if "sym w2 ?a Y {#} c [] I w2" "wfc w2 ?a c I" "registered w2 ?a" for c I Y
    by (rule safeD [OF safe_retire_frame_configs that(1,2)]) simp_all
  have "fg_ok ?w3" "scopes ?w3 = scopes w2"
    by (rule fg_inv_run [OF conjunct1 [OF i2] a2 p]; assumption)+
  moreover have "w' = leave_callback ?w3"
    using run u b 2 by (auto simp: generation_callback_def Let_def split: prod.splits)
  ultimately show ?thesis using leave_callback_ok [of "\<lambda>_. 0" ?w3 ?a "scopes w"] i2 by simp
qed

lemma present_callback_ok:
  assumes i: "fg_ok w" and u: "user = installed (trace w) sc" "user \<noteq> 0"
    and app: "app_ok (\<lambda>w. snd (app w))" and run: "present_callback app user w = (r, w')"
  shows "fg_ok w' \<and> scopes w' = scopes w"
proof -
  obtain b where b: "find_binding w user = Some b" "heap w (cb_context b) \<noteq> None"
    by (rule find_binding_ok [OF i u])
  let ?v = "emit (AppPresent (cb_present b) (cb_present_user b)) (enter_callback (cb_context b) w)"
  note i1 = enter_callback_ok [OF i b(2)]
  have "fg_ok ?v" "scopes ?v = cb_context b # scopes w"
    using fg_inv_emit [OF i1(1)] i1(2) by (simp_all add: emit_def)
  with app have "fg_ok (snd (app ?v))" "scopes (snd (app ?v)) = cb_context b # scopes w"
    unfolding app_ok_def by (metis list.distinct(1))+
  from leave_callback_ok [OF this] run u b i show ?thesis
    by (auto simp: present_callback_def Let_def split: if_splits prod.splits)
qed

end
