(* ===== verification/Fg_Life.thy ===== *)
theory Fg_Life
  imports Fg_Calls
begin

text \<open>
  Creation and destruction of frame-generation contexts keep the invariant. A context under construction
  is not yet registered: it owns its block and its device only, so that a failure on the way gives back
  exactly what was acquired. Destruction runs outside callbacks, hence with one reference: it never waits
  for another user, and a provider that refuses leaves a context that is still well-formed.
\<close>

subsection \<open>Giving the storage of a context back\<close>

text \<open>The state left when context \<open>a\<close> is gone.\<close>

definition gone :: "fg_world \<Rightarrow> addr \<Rightarrow> live_res multiset \<Rightarrow> (addr \<Rightarrow> addr) \<Rightarrow> fg_world \<Rightarrow> bool" where
  "gone w0 a Y I w \<longleftrightarrow>
     \<not> fault w \<and> locks w = [] \<and> heap w = (heap w0)(a := None) \<and> mset (live w) = Y \<and>
     installed (trace w) = I \<and> mem w = mem w0 \<and> contexts w = contexts w0 \<and> scopes w = scopes w0"

lemma give_back_heap: "give_back r (w\<lparr>heap := h\<rparr>) = (give_back r w)\<lparr>heap := h\<rparr>"
  by (simp add: give_back_def set_fault_def)

lemma free_context_storage_gone:
  assumes s: "sym w0 a Y {#} c [] I w" and c: "swapchain c = 0" "binding c = None" and a: "a \<noteq> 0"
  shows "gone w0 a Y I (free_context_storage a w)"
proof -
  let ?f = "\<lambda>c. c\<lparr>hudless := zero_resource, device := 0\<rparr>"
  let ?c1 = "c\<lparr>frame_configs := [], have_last_prepare_frame_id := False\<rparr>" and ?w1 = "clear_frame_configs a w"
  have s1: "sym w0 a Y {#} ?c1 [] I ?w1" by (rule sym_clear_frame_configs [OF s]) simp
  let ?w2 = "release_resource (hudless c) ?w1"
  let ?w3 = "if device c \<noteq> 0 then com_release (device c) ?w2 else ?w2"
  have "sym w0 a Y (res_owned (hudless c) + com_owned (device c)) (?f ?c1) [] I (upd a ?f ?w1)"
    by (rule sym_upd [OF s1]) (simp add: owned_def ac_simps)
  from sym_release_resource [OF this] have
    s2: "sym w0 a Y (com_owned (device c) + {#}) (?f ?c1) [] I (upd a ?f ?w2)" by (simp add: upd_release_resource)
  from sym_release_swapchain [OF this] have s3: "sym w0 a Y {#} (?f ?c1) [] I (upd a ?f ?w3)"
    by (simp add: release_swapchain_def com_release_def upd_give_back split: if_splits)
  have h: "heap ?w1 a = Some ?c1" using s1 by (simp add: sym_def)
  then have h3: "heap ?w2 a = Some ?c1" "heap ?w3 a = Some ?c1"
    by (simp_all add: release_resource_def com_release_def give_back_def set_fault_def)
  have fields: "mset (live ?w3) = add_mset (Block a (tag_of c)) Y" "\<not> fault ?w3" "locks ?w3 = []"
    "heap ?w3 = (heap w0)(a \<mapsto> ?c1)" "installed (trace ?w3) = I" "mem ?w3 = mem w0"
    "contexts ?w3 = contexts w0" "scopes ?w3 = scopes w0"
  proof -
    note d = s3 [unfolded sym_def]
    show "mset (live ?w3) = add_mset (Block a (tag_of c)) Y"
      using d h3(2) a by (simp add: upd_def owned_def c block_owned_def cong: if_cong)
    show "heap ?w3 = (heap w0)(a \<mapsto> ?c1)"
    proof -
      have "heap ?w3 = heap ?w1"
        by (simp add: release_resource_def com_release_def give_back_def set_fault_def)
      then show ?thesis using s1 by (simp add: sym_def)
    qed
    show "\<not> fault ?w3" "locks ?w3 = []" "installed (trace ?w3) = I" "mem ?w3 = mem w0"
      "contexts ?w3 = contexts w0" "scopes ?w3 = scopes w0"
      using d h3(2) by (simp_all add: upd_def cong: if_cong)
  qed
  have c2: "ctx ?w2 a = ?c1" using h3(1) by (simp add: ctx_def)
  have "free_context_storage a w =
      (give_back (Block a (tag_of c)) ?w3)\<lparr>heap := (heap ?w3)(a := None)\<rparr>"
    using a c2 by (simp add: free_context_storage_def Let_def sym_ctx [OF s] sym_ctx [OF s1] free_memory_def give_back_heap)
  moreover have "Block a (tag_of c) \<in> set (live ?w3)"
    using fields(1) by (metis set_mset_mset union_single_eq_member)
  ultimately show ?thesis using fields by (simp add: gone_def give_back_def)
qed

text \<open>The invariant without the context: a failed creation and a finished destruction end here.\<close>

lemma fg_inv_gone:
  assumes i: "fg_inv e w0" and g: "gone w0' a (rest_of (heap w0) a) I w"
    and w0': "heap w0' = heap w0" "contexts w0' = remove1 a (contexts w0)" "scopes w0' = scopes w0"
    and a: "a \<notin> set (scopes w0)" and ok: "wfc w0 a c I" and c: "swapchain c = 0"
  shows "fg_inv e w"
proof -
  note gd = g [unfolded gone_def w0']
  have "distinct (contexts w)" "dom (heap w) = set (contexts w)" "set (scopes w) \<subseteq> set (contexts w)"
    using i gd a unfolding fg_inv_def by auto
  moreover have "mset (live w) = live_of (heap w)" using gd by (simp add: rest_of_def)
  moreover have "ctx_ok b d \<and> \<not> closing d \<and> references d = 1 + int (count_list (scopes w) b) + e b"
    if "heap w b = Some d" for b d
    using that i gd unfolding fg_inv_def by (auto split: if_splits)
  moreover have "swapchain d = 0" if "heap w b = Some d" "heap w b' = Some d'" "b \<noteq> b'" "swapchain d = swapchain d'"
    for b b' d d'
    using that i gd unfolding fg_inv_def by (auto split: if_splits)
  moreover have "\<exists>b d. heap w b = Some d \<and> swapchain d = sc \<and> binding_addr (binding d) = installed (trace w) sc"
    if "installed (trace w) sc \<noteq> 0" for sc
  proof -
    from ok that gd obtain d where d: "d \<in> insert c (others w0 a)" "swapchain d = sc" "binding_addr (binding d) = I sc"
      by (auto simp: wfc_def)
    have "binding c = None" using wfc_ctx_ok [OF ok] c by (cases "binding c") (auto simp: ctx_ok_def)
    with d that gd have "d \<in> others w0 a" by auto
    with d gd show ?thesis by (auto simp: others_def)
  qed
  ultimately show ?thesis using gd unfolding fg_inv_def by blast
qed

subsection \<open>Destruction\<close>

lemma sym_references:
  assumes "fg_inv e w" and "heap w a = Some c" and "e a = 0" and "scopes w = []"
  shows "references c = 1"
  using assms unfolding fg_inv_def by auto

lemma destroy_providers_sym:
  assumes s: "sym w0 a Y {#} c [] I w" and r: "references c = 1" and run: "destroy_providers a w = (res, w')"
  obtains t p where "sym w0 a Y {#} (c\<lparr>translated := t, original := p\<rparr>) [] I w'"
proof -
  have s1: "sym w0 a Y {#} c [] I (release ContextsLock (acquire ContextsLock w))" (is "sym _ _ _ _ _ _ _ ?w1")
    by (rule sym_release [OF sym_acquire [OF s]]) simp
  obtain r2 w2 where 2: "(if translated c \<noteq> 0 then
       let (r, w) = destroy_translation (translated c) ?w1
       in (r, if r = FFX_OK then upd a (\<lambda>c. c\<lparr>translated := 0\<rparr>) w else w)
     else (FFX_OK, ?w1)) = (r2, w2)" by force
  have "\<exists>t. sym w0 a Y {#} (c\<lparr>translated := t\<rparr>) [] I w2"
  proof (cases "translated c \<noteq> 0")
    case False
    with 2 have "w2 = ?w1" by auto
    with s1 have "sym w0 a Y {#} (c\<lparr>translated := translated c\<rparr>) [] I w2" by simp
    then show ?thesis ..
  next
    case True
    obtain r3 w3 where 3: "destroy_translation (translated c) ?w1 = (r3, w3)" by force
    note s3 = sym_destroy_translation [OF s1 3]
    have "sym w0 a Y {#} (c\<lparr>translated := 0\<rparr>) [] I (upd a (\<lambda>c. c\<lparr>translated := 0\<rparr>) w3)"
      by (rule sym_upd_same [OF s3]) (simp add: owned_def)
    moreover have "\<exists>t. sym w0 a Y {#} (c\<lparr>translated := t\<rparr>) [] I w3"
      using s3 by (intro exI [of _ "translated c"]) simp
    ultimately show ?thesis using 2 True 3 by (cases "r3 = FFX_OK") auto
  qed
  then obtain t where s2: "sym w0 a Y {#} (c\<lparr>translated := t\<rparr>) [] I w2" ..
  show ?thesis
  proof (cases "r2 = FFX_OK \<and> original c \<noteq> 0")
    case True
    obtain ans w3 where 3: "native_call (NativeDestroy (original c) (context_allocator c)) w2 = (ans, w3)" by force
    have "sym w0 a Y {#} (c\<lparr>translated := t\<rparr>) [] I w3" by (rule sym_native_call [OF s2 3]) simp
    from sym_upd_same [OF this, of "\<lambda>c. c\<lparr>original := na_context ans\<rparr>"]
    have "sym w0 a Y {#} (c\<lparr>translated := t, original := na_context ans\<rparr>) [] I
        (upd a (\<lambda>c. c\<lparr>original := na_context ans\<rparr>) w3)" by (simp add: owned_def)
    moreover have "w' = upd a (\<lambda>c. c\<lparr>original := na_context ans\<rparr>) w3"
      using run r 2 3 True
      by (simp add: destroy_providers_def Let_def sym_ctx [OF s1] sym_ctx [OF s2] split: prod.splits cong: if_cong)
    ultimately show ?thesis using that by blast
  next
    case False
    have "w' = w2"
      using run r 2 False
      by (auto simp: destroy_providers_def Let_def sym_ctx [OF s1] sym_ctx [OF s2] split: prod.splits if_splits)
    with s2 have "sym w0 a Y {#} (c\<lparr>translated := t, original := original c\<rparr>) [] I w'" by simp
    then show ?thesis by (rule that)
  qed
qed

text \<open>The invariant does not depend on the providers' handles.\<close>

lemma wfc_handles [simp]:
  "wfc w0 a (c\<lparr>translated := t, original := p\<rparr>) I = wfc w0 a c I"
  "wfc w0 a (c\<lparr>closing := b\<rparr>) I = wfc w0 a c I"
  by (simp_all add: wfc_def ctx_ok_def tags_ok_def)

lemma sym_set_closing:
  assumes "sym w0 a Y X c [] I w"
  shows "sym w0 a Y X (c\<lparr>closing := b\<rparr>) [] I (set_closing a b w)"
proof -
  have "sym w0 a Y X (c\<lparr>closing := b\<rparr>) [ContextsLock] I
      (upd a (\<lambda>c. c\<lparr>closing := b\<rparr>) (acquire ContextsLock w))"
    by (rule sym_upd_same [OF sym_acquire [OF assms]]) (simp_all add: owned_def)
  from sym_release [OF this] show ?thesis by (simp add: set_closing_def)
qed

lemma fg_inv_reopen:
  assumes i: "fg_inv e w0" and a: "heap w0 a = Some c0"
    and s: "sym w0 a (rest_of (heap w0) a) {#} c [] I w" and ok: "wfc w0 a c I" and r: "references c = references c0"
  shows "fg_inv e (set_closing a False w)"
proof (rule fg_inv_close [OF i disjI1 [OF a] sym_set_closing [OF s]])
  have "references c0 = 1 + int (count_list (scopes w0) a) + e a" using i a unfolding fg_inv_def by blast
  with r show "references (c\<lparr>closing := False\<rparr>) = 1 + int (count_list (scopes w0) a) + e a" by simp
qed (use ok a in simp_all)

text \<open>What detaching the swapchain of a context being destroyed leaves.\<close>

lemma destroy_detach:
  assumes i: "fg_ok w" and a: "heap w a = Some c" and sc: "scopes w = []"
    and run: "detach_swapchain a (acquire (ConfigureLock a) (set_closing a True w)) = (r, w')"
  obtains c' I where "sym w a (rest_of (heap w) a) {#} c' [] I (release (ConfigureLock a) w')"
    and "wfc w a c' I" and "references c' = 1" and "swapchain c' = 0 \<or> (\<exists>t. \<not> o_presents (outside w) t)"
proof -
  note op = fg_inv_open [OF i a]
  note s1 = sym_set_closing [OF op(1), of True]
  have s2: "sym w a (rest_of (heap w) a) {#} (c\<lparr>closing := True\<rparr>) [ConfigureLock a] (installed (trace w))
      (acquire (ConfigureLock a) (set_closing a True w))"
    by (rule sym_acquire [OF s1]) simp
  have ok: "wfc w a (c\<lparr>closing := True\<rparr>) (installed (trace w))" using op(2) by simp
  obtain c' I where c': "sym w a (rest_of (heap w) a) {#} c' [ConfigureLock a] I w'" "wfc w a c' I"
    and or: "c' = c\<lparr>closing := True\<rparr> \<and> (swapchain c = 0 \<or> (\<exists>t. \<not> o_presents (outside w) t)) \<or>
             c' = detached (c\<lparr>closing := True\<rparr>)"
    by (rule sym_detach_swapchain [OF s2 _ ok run]) auto
  moreover have "references c = 1" by (rule sym_references [OF i a]) (simp_all add: sc)
  ultimately have "references c' = 1" by (auto simp: detached_def)
  then show ?thesis by (rule that [OF sym_release [OF c'(1)] c'(2)]) (use or in \<open>auto simp: detached_def\<close>)
qed

lemma ffxDestroyContext_ok:
  assumes i: "fg_ok w" and run: "ffxDestroyContext handle cb w = (r, handle', w')"
  shows "fg_ok w' \<and> scopes w' = scopes w"
proof (cases "handle = None \<or> handle = Some 0 \<or> in_callback w")
  case True
  with run i show ?thesis by (simp add: ffxDestroyContext_def)
next
  case False
  then obtain a where a: "handle = Some a" "a \<noteq> 0" and sc: "scopes w = []" by (auto simp: in_callback_def)
  have l: "locks w = []" using i by (simp add: fg_inv_def)
  let ?w1 = "acquire ContextsLock w"
  have pair: "release ContextsLock ?w1 = w" using l by (simp add: acquire_def release_def)
  show ?thesis
  proof (cases "a \<notin> set (contexts ?w1) \<or> closing (ctx ?w1 a) \<or> \<not> matching_allocator (ctx ?w1 a) cb")
    case True
    with run False a pair i show ?thesis by (simp add: ffxDestroyContext_def)
  next
    case ok: False
    with l have "a \<in> set (contexts w)" by (simp add: acquire_def)
    then have "a \<in> dom (heap w)" using i by (simp add: fg_inv_def)
    then obtain c where c: "heap w a = Some c" by auto
    obtain dr w2 where 2: "detach_swapchain a (acquire (ConfigureLock a) (set_closing a True w)) = (dr, w2)" by force
    let ?w3 = "release (ConfigureLock a) w2"
    obtain c2 I where s2: "sym w a (rest_of (heap w) a) {#} c2 [] I ?w3" and ok2: "wfc w a c2 I"
      and r2: "references c2 = 1" by (rule destroy_detach [OF i c sc 2])
    have rc: "references c = 1" by (rule sym_references [OF i c]) (simp_all add: sc)
    note reopen = fg_inv_reopen [OF i c s2 ok2]
    have fields: "scopes (set_closing a False v) = scopes w" if "sym w a Y {#} d [] I v" for Y d v
      using sym_set_closing [OF that, of False] by (simp add: sym_def)
    show ?thesis
    proof (cases "swapchain c2 \<noteq> 0")
      case True
      with run False ok a 2 reopen rc r2 fields [OF s2] show ?thesis
        by (auto simp: ffxDestroyContext_def Let_def set_closing_def sym_ctx [OF s2] split: prod.splits)
    next
      case sw: False
      obtain res w4 where 4: "destroy_providers a ?w3 = (res, w4)" by force
      obtain t p where s4: "sym w a (rest_of (heap w) a) {#} (c2\<lparr>translated := t, original := p\<rparr>) [] I w4"
        by (rule destroy_providers_sym [OF s2 r2 4])
      let ?c4 = "c2\<lparr>translated := t, original := p\<rparr>"
      have ok4: "wfc w a ?c4 I" using ok2 by simp
      let ?w5 = "release ContextsLock
        ((acquire ContextsLock w4)\<lparr>contexts := remove1 a (contexts (acquire ContextsLock w4))\<rparr>)"
      let ?w0 = "w\<lparr>contexts := remove1 a (contexts w)\<rparr>"
      have w': "w' = (if res \<noteq> FFX_OK then set_closing a False w4 else free_context_storage a ?w5)"
        using run False ok a 2 4 sw s4
        by (auto simp: ffxDestroyContext_def Let_def set_closing_def sym_ctx [OF s2] split: prod.splits if_splits)
      have "sym ?w0 a (rest_of (heap w) a) {#} ?c4 [] I ?w5"
        using s4 by (simp add: sym_def acquire_def release_def)
      from free_context_storage_gone [OF this _ _ a(2)] have
        g: "gone ?w0 a (rest_of (heap w) a) I (free_context_storage a ?w5)"
        using sw wfc_ctx_ok [OF ok2] by (cases "binding c2") (auto simp: ctx_ok_def)
      have "fg_ok (free_context_storage a ?w5)"
        by (rule fg_inv_gone [OF i g _ _ _ _ ok2]) (use sw sc in simp_all)
      moreover have "fg_ok (set_closing a False w4)"
        by (rule fg_inv_reopen [OF i c s4 ok4]) (use r2 rc in simp)
      moreover have "scopes (free_context_storage a ?w5) = scopes w" using g by (simp add: gone_def)
      ultimately show ?thesis unfolding w' using fields [OF s4] by simp
    qed
  qed
qed

subsection \<open>Creation\<close>

text \<open>A context under construction.\<close>

definition fresh :: "fg_context \<Rightarrow> bool" where
  "fresh c \<longleftrightarrow>
     tags_ok c \<and> swapchain c = 0 \<and> binding c = None \<and> frame_configs c = [] \<and> hudless c = zero_resource \<and>
     \<not> native_config_valid c \<and> references c = 1 \<and> \<not> closing c"

definition made :: "fg_world \<Rightarrow> addr \<Rightarrow> live_res multiset \<Rightarrow> (addr \<Rightarrow> addr) \<Rightarrow> fg_world \<Rightarrow> bool" where
  "made w0 a Y I w \<longleftrightarrow> (\<exists>c. fresh c \<and> sym w0 a Y {#} c [] I w)"

lemma madeE:
  assumes "made w0 a Y I w"
  obtains c where "fresh c" and "sym w0 a Y {#} c [] I w" and "ctx w a = c"
  using assms by (auto simp: made_def sym_ctx)

lemma made_upd:
  assumes m: "made w0 a Y I w" and f: "\<And>c. fresh c \<Longrightarrow> fresh (f c)" "\<And>c. owned a (f c) = owned a c"
  shows "made w0 a Y I (upd a f w)"
proof (rule madeE [OF m])
  fix c assume "fresh c" and s: "sym w0 a Y {#} c [] I w"
  with f(1) sym_upd_same [OF s, of f] f(2) show ?thesis by (auto simp: made_def)
qed

lemma fresh_update [simp]:
  "fresh (c\<lparr>original := p\<rparr>) = fresh c" "fresh (c\<lparr>mode := m\<rparr>) = fresh c"
  "fresh (c\<lparr>translated := t\<rparr>) = fresh c"
  by (simp_all add: fresh_def tags_ok_def)

lemma made_native_destroy: "made w0 a Y I w \<Longrightarrow> made w0 a Y I (snd (native_call (NativeDestroy p cb) w))"
  by (auto simp: made_def native_call_def Let_def intro: sym_emit)

lemma made_native_create:
  assumes m: "made w0 a Y I w" and run: "native_create a desc cb w = (r, w')"
  shows "made w0 a Y I w'"
proof -
  obtain ans w1 where 1: "native_call (NativeCreate (bodies (mem w) desc) cb) w = (ans, w1)" by force
  have "made w0 a Y I w1"
    by (rule madeE [OF m]) (auto simp: made_def dest: sym_native_call [OF _ 1])
  from made_upd [OF this, of "\<lambda>c. c\<lparr>original := na_context ans\<rparr>"] run 1 show ?thesis
    by (simp add: native_create_def owned_def)
qed

lemma made_have_native: "made w0 a Y I w \<Longrightarrow> have_native w = (ok, w') \<Longrightarrow> made w0 a Y I w'"
  by (auto simp: made_def dest: sym_have_native)

text \<open>The override descriptor is unlinked for the call and linked again, so the chain is as before.\<close>

lemma made_mem: "made w0 a Y I w \<Longrightarrow> made (w0\<lparr>mem := m\<rparr>) a Y I (w\<lparr>mem := m\<rparr>)"
  by (auto simp: made_def sym_def)

lemma made_create_original:
  assumes m: "made w0 a Y I w" and vc: "valid_chain (mem w0) desc"
    and ov: "\<And>p v. override = Some (p, v) \<Longrightarrow> p \<in> set (entries (mem w0) desc)"
    and run: "create_original a desc override cb w = (r, w')"
  shows "made w0 a Y I w'"
proof -
  obtain ok w1 where 1: "have_native w = (ok, w1)" by force
  note m1 = made_have_native [OF m 1]
  have mem1: "mem w1 = mem w0" using m1 by (auto simp: made_def sym_def)
  show ?thesis
  proof (cases "\<exists>p v previous. ok \<and> override = Some (p, v) \<and> (v = AUTOMATIC_PROVIDER_ID \<or> v = METALFX_PROVIDER_ID) \<and>
      previous_of None (entries (mem w1) desc) p = Some previous")
    case True
    then obtain p v q where o: "ok" "override = Some (p, v)" "v = AUTOMATIC_PROVIDER_ID \<or> v = METALFX_PROVIDER_ID"
      "previous_of None (entries (mem w1) desc) p = Some q" by blast
    from ov [OF o(2)] obtain xs ys where e: "entries (mem w0) desc = xs @ p # ys" "p \<notin> set xs"
      by (meson split_list_first)
    with o(4) mem1 have q: "xs \<noteq> []" "q = last xs" by (auto simp: previous_of_append split: if_splits)
    have "xs @ p # ys = butlast xs @ q # p # ys"
      using q append_butlast_last_id [of xs] by (metis append.assoc append_Cons append_Nil)
    with valid_chain_entries [OF vc] e have "is_chain (mem w0) desc (butlast xs @ q # p # ys)" by simp
    note restore = splice_restore [OF this]
    obtain r2 w2 where 2: "native_create a desc cb (w1\<lparr>mem := set_next q (pNext (mem w1 p)) (mem w1)\<rparr>) = (r2, w2)"
      by force
    note m2 = made_native_create [OF made_mem [OF m1] 2]
    have "w' = w2\<lparr>mem := set_next q p (mem w2)\<rparr>"
      using run 1 o 2 by (auto simp: create_original_def Let_def split: prod.splits)
    moreover have "mem w2 = set_next q (pNext (mem w0 p)) (mem w0)"
      using m2 by (auto simp: made_def sym_def mem1)
    ultimately have "w' = w2\<lparr>mem := mem w0\<rparr>" by (simp add: restore)
    with made_mem [OF m2, of "mem w0"] show ?thesis by simp
  next
    case False
    then have "w' = w1 \<or> (\<exists>d. native_create a d cb w1 = (r, w'))"
      using run 1 by (auto simp: create_original_def Let_def split: option.splits if_splits)
    with m1 made_native_create [OF m1] show ?thesis by blast
  qed
qed

lemma made_select_translation:
  assumes m: "made w0 a Y I w" and run: "select_translation a fg dev w = (r, w')"
  shows "made w0 a Y I w'"
proof -
  obtain r1 t w1 where 1: "bridge_call (initialize_packet (CreatePacket (make_create_packet fg dev))
      YAAGL_FSR_FG_CREATE 0) w = (r1, t, w1)" by (metis prod_cases3)
  have m1: "made w0 a Y I w1" by (rule madeE [OF m]) (auto simp: made_def dest: sym_bridge_call [OF _ 1])
  obtain r2 w2 where 2: "destroy_translation t w1 = (r2, w2)" by force
  have m2: "made w0 a Y I w2" by (rule madeE [OF m1]) (auto simp: made_def dest: sym_destroy_translation [OF _ 2])
  from made_upd [OF m1, of "\<lambda>c. c\<lparr>translated := t, mode := MODE_PENDING\<rparr>"]
  have "made w0 a Y I (upd a (\<lambda>c. c\<lparr>translated := t, mode := MODE_PENDING\<rparr>) w1)" by (simp add: owned_def)
  with m1 m2 run 1 2 show ?thesis by (auto simp: select_translation_def split: if_splits)
qed

lemma made_create_fg_context:
  assumes m: "made w0 a Y I w" and d0: "device (ctx w a) = 0" and vc: "valid_chain (mem w0) desc"
    and ov: "\<And>p v. cs_override s = Some (p, v) \<Longrightarrow> p \<in> set (entries (mem w0) desc)" and dev: "dev \<noteq> 0"
    and run: "create_fg_context a desc fg s dev cb w = (r, w')"
  shows "made w0 a Y I w'"
proof -
  let ?f = "\<lambda>c. c\<lparr>device := dev,
                display_width := cf_display_width fg, display_height := cf_display_height fg,
                max_render_width := cf_max_render_width fg, max_render_height := cf_max_render_height fg,
                hudless_format := (case cs_hudless s of
                    Some f \<Rightarrow> if f \<noteq> 0 then f else cf_backBufferFormat fg
                  | None \<Rightarrow> cf_backBufferFormat fg),
                debug_checking := (cf_flags fg AND FG_ENABLE_DEBUG_CHECKING \<noteq> 0),
                depth_infinite := (cf_flags fg AND FG_ENABLE_DEPTH_INFINITE \<noteq> 0)\<rparr>"
  let ?w1 = "set_mode a CONTEXT_NATIVE (com_addref dev (upd a ?f w))"
  have comm: "com_addref dev (upd a ?f w) = upd a ?f (com_addref dev w)"
    by (simp add: com_addref_def upd_def set_fault_def split: option.splits)
  have "made w0 a Y I (com_addref dev (upd a ?f w))"
  proof (rule madeE [OF m])
    fix c assume c: "fresh c" "ctx w a = c" and s: "sym w0 a Y {#} c [] I w"
    have "sym w0 a Y {#} (?f c) [] I (upd a ?f (com_addref dev w))"
      by (rule sym_upd [OF sym_com_addref [OF s]]) (use c d0 dev in \<open>simp add: owned_def com_owned_def\<close>)
    moreover have "fresh (?f c)" using c by (simp add: fresh_def tags_ok_def)
    ultimately show ?thesis by (auto simp: made_def comm)
  qed
  from made_upd [OF this, of "\<lambda>c. c\<lparr>mode := CONTEXT_NATIVE\<rparr>"]
  have m1: "made w0 a Y I ?w1" by (simp add: set_mode_def owned_def)
  obtain r2 w2 where 2: "create_original a desc (cs_override s) cb ?w1 = (r2, w2)" by force
  have m2: "made w0 a Y I w2" by (rule made_create_original [OF m1 vc _ 2]) (rule ov)
  obtain r3 w3 where 3: "select_translation a fg dev w2 = (r3, w3)" by force
  have "w' = w2 \<or> w' = w3"
    using run unfolding create_fg_context_def Let_def 2 3 prod.case by (simp split: if_splits)
  with m2 made_select_translation [OF m2 3] show ?thesis by blast
qed

text \<open>The override the scan finds is an entry of the chain.\<close>

lemma scan_create_override:
  "scan_create es s = Inr s' \<Longrightarrow> cs_override s' = Some (p, v) \<Longrightarrow>
     cs_override s = Some (p, v) \<or> p \<in> fst ` set es"
proof (induction es arbitrary: s)
  case Nil
  then show ?case by simp
next
  case (Cons e es)
  obtain q entry where e: "e = (q, entry)" by force
  from Cons.prems(1) obtain t where t: "scan_create es t = Inr s'"
    and "cs_override t = cs_override s \<or> (\<exists>u. cs_override t = Some (q, u))"
    unfolding e by (cases entry) (auto split: if_splits)
  with Cons.IH [OF t Cons.prems(2)] show ?case by (auto simp: e)
qed


lemma fresh_wfc:
  assumes i: "fg_inv e w0" and a: "heap w0 a = None" "a \<noteq> 0" and c: "fresh c"
  shows "wfc w0 a c (installed (trace w0))"
proof -
  have "\<exists>d \<in> others w0 a. swapchain d = sc \<and> binding_addr (binding d) = installed (trace w0) sc"
    if "installed (trace w0) sc \<noteq> 0" for sc
  proof -
    from i that obtain b d where b: "heap w0 b = Some d" "swapchain d = sc"
      "binding_addr (binding d) = installed (trace w0) sc" unfolding fg_inv_def by blast
    with a have "b \<noteq> a" by auto
    with b show ?thesis by (auto simp: others_def)
  qed
  with a c show ?thesis by (auto simp: wfc_def ctx_ok_def fresh_def)
qed

lemma fg_inv_absent: "fg_inv e w \<Longrightarrow> heap w a = None \<Longrightarrow> a \<notin> set (contexts w) \<and> a \<notin> set (scopes w)"
  unfolding fg_inv_def by auto

lemma made_gone:
  assumes i: "fg_ok w0" and a: "heap w0 a = None" "a \<noteq> 0"
    and m: "made w0 a (live_of (heap w0)) (installed (trace w0)) w"
  shows "fg_ok (free_context_storage a w) \<and> scopes (free_context_storage a w) = scopes w0"
proof (rule madeE [OF m])
  fix c assume c: "fresh c" and s: "sym w0 a (live_of (heap w0)) {#} c [] (installed (trace w0)) w"
  from free_context_storage_gone [OF s _ _ a(2)] c
  have g: "gone w0 a (rest_of (heap w0) a) (installed (trace w0)) (free_context_storage a w)"
    by (simp add: fresh_def rest_of_absent [of "heap w0", OF a(1)])
  have "fg_ok (free_context_storage a w)"
    by (rule fg_inv_gone [OF i g refl _ refl _ fresh_wfc [OF i a c]])
      (use c fg_inv_absent [OF i a(1)] in \<open>simp_all add: remove1_idem fresh_def\<close>)
  then show ?thesis using g by (simp add: gone_def)
qed

lemma finish_create_ok:
  assumes i: "fg_ok w0" and a: "heap w0 a = None" "a \<noteq> 0"
    and m: "made w0 a (live_of (heap w0)) (installed (trace w0)) w"
    and run: "finish_create a cb r w = (r', handle, w')"
  shows "fg_ok w' \<and> scopes w' = scopes w0"
proof -
  let ?r = "if r = FFX_OK \<and> mode (ctx w a) \<noteq> CONTEXT_METALFX \<and> original (ctx w a) = 0
            then FFX_ERROR_RUNTIME_ERROR else r"
  show ?thesis
  proof (cases "?r = FFX_OK")
    case False
    let ?w1 = "if translated (ctx w a) \<noteq> 0 then snd (destroy_translation (translated (ctx w a)) w) else w"
    let ?w2 = "if original (ctx ?w1 a) \<noteq> 0 \<and> native_ready ?w1
               then snd (native_call (NativeDestroy (original (ctx ?w1 a)) cb) ?w1) else ?w1"
    have m1: "made w0 a (live_of (heap w0)) (installed (trace w0)) ?w1"
      using m by (auto simp: made_def dest: sym_destroy_translation [OF _ prod.collapse [symmetric]])
    then have "made w0 a (live_of (heap w0)) (installed (trace w0)) ?w2"
      using made_native_destroy [OF m1] by presburger
    moreover have "w' = free_context_storage a ?w2"
      using run False unfolding finish_create_def Let_def by (simp only: if_True not_False_eq_True prod.inject)
    ultimately show ?thesis using made_gone [OF i a] by blast
  next
    case True
    let ?w0 = "w0\<lparr>contexts := a # contexts w0\<rparr>"
    have w': "w' = release ContextsLock ((acquire ContextsLock w)\<lparr>contexts := a # contexts (acquire ContextsLock w)\<rparr>)"
      using run True unfolding finish_create_def Let_def by (simp only: if_False simp_thms prod.inject) metis
    show ?thesis
    proof (rule madeE [OF m])
      fix c assume c: "fresh c" and s: "sym w0 a (live_of (heap w0)) {#} c [] (installed (trace w0)) w"
      have s': "sym ?w0 a (rest_of (heap w0) a) {#} c [] (installed (trace w0)) w'"
        using s unfolding w' by (simp add: sym_def acquire_def release_def rest_of_absent [of "heap w0", OF a(1)])
      have "count_list (scopes w0) a = 0" using fg_inv_absent [OF i a(1)] by (simp add: count_list_0_iff)
      then have "fg_ok w'"
        by (intro fg_inv_close [OF i disjI2 [OF a(1)] s' fresh_wfc [OF i a c]])
          (use c a in \<open>simp_all add: fresh_def\<close>)
      then show ?thesis using s' by (simp add: sym_def)
    qed
  qed
qed

text \<open>A new block is not a context.\<close>

lemma owned_block: "a \<noteq> 0 \<Longrightarrow> Block a (tag_of c) \<in># owned a c"
  by (simp add: owned_def block_owned_def)

lemma allocated_fresh:
  assumes i: "fg_inv e w" and run: "allocate_memory cb w = (a, w1)" and a: "a \<noteq> 0"
  shows "heap w a = None"
proof (rule ccontr)
  assume "heap w a \<noteq> None"
  then obtain c where c: "heap w a = Some c" by auto
  have "mset (live w) = rest_of (heap w) a + owned a c"
    using i live_of_split [OF fg_inv_finite [OF i] c] unfolding fg_inv_def by simp
  with owned_block [OF a, of c] have "Block a (tag_of c) \<in># mset (live w)" by simp
  then have "list_ex (is_block a) (live w)" by (auto simp: list_ex_iff intro: bexI [of _ "Block a (tag_of c)"])
  with run a show False by (auto simp: allocate_memory_def Let_def split: if_splits)
qed

lemma made_new_context:
  assumes i: "fg_ok w" and run: "allocate_memory cb w = (a, w1)" and a: "a \<noteq> 0"
    and cb: "case cb of Some cb \<Rightarrow> (alloc cb \<noteq> 0) = (dealloc cb \<noteq> 0) | None \<Rightarrow> True"
  shows "made w a (live_of (heap w)) (installed (trace w)) (w1\<lparr>heap := (heap w1)(a \<mapsto> new_context cb)\<rparr>)"
proof -
  have w1: "w1 = (emit (Alloc (alloc_tag cb)) w)\<lparr>live := Block a (alloc_tag cb) # live w\<rparr>"
    using run a by (auto simp: allocate_memory_def Let_def split: if_splits)
  have al: "context_allocator (new_context cb) = cb"
    by (cases cb) (simp_all add: context_allocator_def new_context_def zero_context_def)
  have tag: "alloc_tag cb = free_tag cb" using cb by (auto simp: alloc_tag_def free_tag_def split: option.splits)
  have f: "fresh (new_context cb)"
    using al tag by (cases cb) (simp_all add: fresh_def tags_ok_def new_context_def zero_context_def)
  have "owned a (new_context cb) = {#Block a (alloc_tag cb)#}"
    using f a al tag by (cases cb) (simp_all add: owned_def fresh_def new_context_def zero_context_def block_owned_def)
  with i have "sym w a (live_of (heap w)) {#} (new_context cb) [] (installed (trace w))
      (w1\<lparr>heap := (heap w1)(a \<mapsto> new_context cb)\<rparr>)"
    unfolding w1 fg_inv_def by (auto simp: sym_def emit_def fun_eq_iff)
  with f show ?thesis by (auto simp: made_def)
qed

lemma ffxCreateContext_ok:
  assumes i: "fg_ok w" and run: "ffxCreateContext output desc cb w = (r, handle, w')"
  shows "fg_ok w' \<and> scopes w' = scopes w"
proof (cases "w' = w")
  case True
  with i show ?thesis by simp
next
  case neq: False
  let ?es = "map (\<lambda>p. (p, body (mem w p))) (entries (mem w) desc)"
  have vc: "valid_chain (mem w) desc" and
    cb: "case cb of Some cb \<Rightarrow> (alloc cb \<noteq> 0) = (dealloc cb \<noteq> 0) | None \<Rightarrow> True"
    using run neq by (auto simp: ffxCreateContext_def split: if_splits option.splits)
  obtain a w1 where 1: "allocate_memory cb w = (a, w1)" by force
  let ?w2 = "w1\<lparr>heap := (heap w1)(a \<mapsto> new_context cb)\<rparr>"
  show ?thesis
  proof (cases "a = 0")
    case True
    then have "w1 = emit (Alloc (alloc_tag cb)) w" using 1 by (auto simp: allocate_memory_def Let_def split: if_splits)
    then have "fg_ok w1" "scopes w1 = scopes w" using fg_inv_emit [OF i] by (simp_all add: emit_def)
    moreover have "w' = w1" using run neq 1 True
      by (auto simp: ffxCreateContext_def split: if_splits sum.splits option.splits)
    ultimately show ?thesis by simp
  next
    case a: False
    note fresh = allocated_fresh [OF i 1 a] and m = made_new_context [OF i 1 a cb]
    consider (swap) ok w3 where "have_native (set_mode a CONTEXT_SWAPCHAIN ?w2) = (ok, w3)"
        "\<not> ok \<and> w' = free_context_storage a w3 \<or>
         (\<exists>res w4. native_create a desc cb w3 = (res, w4) \<and> finish_create a cb res w4 = (r, handle, w'))"
      | (fg) fg s dev res w3 where "scan_create ?es empty_scan = Inr s" "dev \<noteq> 0"
        "create_fg_context a desc fg s dev cb ?w2 = (res, w3)" "finish_create a cb res w3 = (r, handle, w')"
      using run neq 1 a
      by (auto simp: ffxCreateContext_def Let_def create_invalid_def split: if_splits sum.splits option.splits prod.splits)
    then show ?thesis
    proof cases
      case swap
      from made_upd [OF m, of "\<lambda>c. c\<lparr>mode := CONTEXT_SWAPCHAIN\<rparr>"]
      have "made w a (live_of (heap w)) (installed (trace w)) (set_mode a CONTEXT_SWAPCHAIN ?w2)"
        by (simp add: set_mode_def owned_def)
      note m3 = made_have_native [OF this swap(1)]
      from swap(2) made_gone [OF i fresh a m3] finish_create_ok [OF i fresh a] made_native_create [OF m3]
      show ?thesis by blast
    next
      case fg
      have "made w a (live_of (heap w)) (installed (trace w)) w3"
      proof (rule made_create_fg_context [OF m _ vc _ fg(2,3)])
        show "device (ctx ?w2 a) = 0" by (cases cb) (simp_all add: ctx_def new_context_def zero_context_def)
        show "p \<in> set (entries (mem w) desc)" if "cs_override s = Some (p, v)" for p v
          using scan_create_override [OF fg(1) that] by (auto simp: empty_scan_def)
      qed
      from finish_create_ok [OF i fresh a this fg(4)] show ?thesis .
    qed
  qed
qed

end
