(* ===== verification/Fg_System.thy ===== *)
theory Fg_System
  imports Fg_Life
begin

text \<open>
  Everything an application can do with the frame-generation DLL: calls of the five entry points in any
  order and with any arguments, writes to its descriptors, and callbacks from a swapchain that has one of
  the DLL's bindings installed, in which the application may call the API again. \<open>fg_reach\<close> is the set of
  states this reaches from a freshly loaded DLL; all of them satisfy the invariant.
\<close>

datatype fg_call =
    CallCreate bool addr "ffx_callbacks option"
  | CallDestroy "addr option" "ffx_callbacks option"
  | CallConfigure "addr option" addr
  | CallQuery "addr option" addr
  | CallDispatch "addr option" addr
  | AppWrite addr ffx_desc

fun run_call :: "fg_call \<Rightarrow> fg_world \<Rightarrow> fg_world" where
  "run_call (CallCreate output desc cb) w = snd (snd (ffxCreateContext output desc cb w))"
| "run_call (CallDestroy handle cb) w = snd (snd (ffxDestroyContext handle cb w))"
| "run_call (CallConfigure handle desc) w = snd (ffxConfigure handle desc w)"
| "run_call (CallQuery handle desc) w = snd (ffxQuery handle desc w)"
| "run_call (CallDispatch handle desc) w = snd (ffxDispatch handle desc w)"
| "run_call (AppWrite p d) w = w\<lparr>mem := (mem w)(p := d)\<rparr>"

text \<open>An application callback: the calls it makes, the descriptor it leaves and what it returns.\<close>

definition app_generate :: "fg_call list \<Rightarrow> (dispatch_fg \<Rightarrow> dispatch_fg) \<Rightarrow> u32 \<Rightarrow>
    dispatch_fg \<Rightarrow> fg_world \<Rightarrow> u32 \<times> dispatch_fg \<times> fg_world" where
  "app_generate calls edit r desc w = (r, edit desc, fold run_call calls w)"

definition app_present :: "fg_call list \<Rightarrow> u32 \<Rightarrow> fg_world \<Rightarrow> u32 \<times> fg_world" where
  "app_present calls r w = (r, fold run_call calls w)"

definition loaded :: "outside \<Rightarrow> desc_mem \<Rightarrow> fg_world" where
  "loaded out m =
     \<lparr>outside = out, trace = [], mem = m, native_ready = False, sidecar_ready = False, contexts = [],
      heap = (\<lambda>_. None), live = [], locks = [], scopes = [], global_message = 0, global_debug_level = 0,
      fault = False\<rparr>"

inductive fg_reach :: "outside \<Rightarrow> fg_world \<Rightarrow> bool" for out where
  load: "fg_reach out (loaded out m)"
| call: "fg_reach out w \<Longrightarrow> fg_reach out (run_call c w)"
| generate: "fg_reach out w \<Longrightarrow> installed (trace w) sc \<noteq> 0 \<Longrightarrow>
    fg_reach out (snd (snd (generation_callback (app_generate calls edit r) desc rest
                              (installed (trace w) sc) w)))"
| present: "fg_reach out w \<Longrightarrow> installed (trace w) sc \<noteq> 0 \<Longrightarrow>
    fg_reach out (snd (present_callback (app_present calls r) (installed (trace w) sc) w))"

lemma loaded_ok: "fg_ok (loaded out m)"
  by (simp add: fg_inv_def loaded_def live_of_def)

lemma run_call_ok:
  assumes "fg_ok w"
  shows "fg_ok (run_call c w) \<and> scopes (run_call c w) = scopes w"
proof (cases c)
  case (CallCreate ptr desc cb)
  then show ?thesis using ffxCreateContext_ok [OF assms, of ptr desc cb] by (metis prod.collapse run_call.simps(1))
next
  case (CallDestroy handle cb)
  then show ?thesis using ffxDestroyContext_ok [OF assms, of handle cb] by (metis prod.collapse run_call.simps(2))
next
  case (CallConfigure handle desc)
  then show ?thesis using ffxConfigure_ok [OF assms, of handle desc] by (metis prod.collapse run_call.simps(3))
next
  case (CallQuery handle desc)
  then show ?thesis using ffxQuery_ok [OF assms, of handle desc] by (metis prod.collapse run_call.simps(4))
next
  case (CallDispatch handle desc)
  then show ?thesis using ffxDispatch_ok [OF assms, of handle desc] by (metis prod.collapse run_call.simps(5))
next
  case (AppWrite p d)
  then show ?thesis using assms by (auto intro: fg_inv_same)
qed

lemma run_calls_ok: "fg_ok w \<Longrightarrow> fg_ok (fold run_call calls w) \<and> scopes (fold run_call calls w) = scopes w"
  by (induction calls arbitrary: w) (auto simp: run_call_ok)

lemma app_ok_calls: "app_ok (fold run_call calls)"
  by (simp add: app_ok_def run_calls_ok)

lemma fg_reach_ok: "fg_reach out w \<Longrightarrow> fg_ok w \<and> scopes w = []"
proof (induction rule: fg_reach.induct)
  case (load m)
  show ?case using loaded_ok by (simp add: loaded_def)
next
  case (call w c)
  then show ?case using run_call_ok by simp
next
  case (generate w sc calls edit r desc rest)
  obtain r' d' w' where run: "generation_callback (app_generate calls edit r) desc rest
      (installed (trace w) sc) w = (r', d', w')" by (metis prod_cases3)
  have "app_ok (\<lambda>w. snd (snd (app_generate calls edit r desc w)))" by (simp add: app_generate_def app_ok_calls)
  from generation_callback_ok [OF conjunct1 [OF generate.IH] refl generate.hyps(2) this run] generate.IH run
  show ?case by simp
next
  case (present w sc calls r)
  obtain r' w' where run: "present_callback (app_present calls r) (installed (trace w) sc) w = (r', w')" by force
  have "app_ok (\<lambda>w. snd (app_present calls r w))" by (simp add: app_present_def app_ok_calls)
  from present_callback_ok [OF conjunct1 [OF present.IH] refl present.hyps(2) this run] present.IH run
  show ?case by simp
qed

subsection \<open>Destruction succeeds\<close>

text \<open>Providers that never refuse to be torn down and a swapchain whose presents complete.\<close>

definition obliging :: "outside \<Rightarrow> bool" where
  "obliging out \<longleftrightarrow>
     (\<forall>t. o_presents out t) \<and> (\<forall>t. o_sidecar out t) \<and> (\<forall>t. fst (o_sidecar_api out t) = FFX_OK) \<and>
     (\<forall>t. na_code (o_native out t) = FFX_OK)"

lemma destroy_translation_obliging:
  "obliging (outside w) \<Longrightarrow> fst (destroy_translation t w) = FFX_OK"
  by (auto simp: destroy_translation_def bridge_call_def fsr_fg_api_def load_sidecar_def obliging_def
      initialize_packet_def emit_def Let_def case_prod_beta)

lemma destroy_providers_obliging:
  assumes ob: "obliging (outside w0)" and s: "sym w0 a Y {#} c [] I w" and run: "destroy_providers a w = (res, w')"
  shows "res = FFX_OK"
proof -
  have s1: "sym w0 a Y {#} c [] I (release ContextsLock (acquire ContextsLock w))"
    by (rule sym_release [OF sym_acquire [OF s]]) simp
  define w1 where "w1 = (if references c \<noteq> 1 then set_fault (release ContextsLock (acquire ContextsLock w))
    else release ContextsLock (acquire ContextsLock w))"
  have w1: "outside w1 = outside w0" "ctx w1 a = c"
    using s1 by (simp_all add: w1_def sym_def ctx_def set_fault_def)
  obtain r2 w2 where 2: "(if translated c \<noteq> 0 then
       let (r, w) = destroy_translation (translated c) w1
       in (r, if r = FFX_OK then upd a (\<lambda>c. c\<lparr>translated := 0\<rparr>) w else w)
     else (FFX_OK, w1)) = (r2, w2)" by force
  have r2: "r2 = FFX_OK"
    using 2 destroy_translation_obliging [of w1 "translated c"] ob w1
    by (auto split: prod.splits if_splits)
  have out: "outside w2 = outside w0"
    using 2 w1(1) by (auto simp: destroy_translation_def bridge_call_def fsr_fg_api_def load_sidecar_def emit_def
        upd_def set_fault_def Let_def split: prod.splits if_splits option.splits)
  have "na_code ans = FFX_OK" if "native_call ev w2 = (ans, v)" for ev ans v
    using that ob out by (auto simp: native_call_def obliging_def emit_def Let_def)
  with run r2 2 show ?thesis
    unfolding destroy_providers_def Let_def sym_ctx [OF s1] w1_def [symmetric] w1(2)
    by (auto simp: Let_def split: prod.splits if_splits)
qed

lemma ffxDestroyContext_obliging:
  assumes i: "fg_ok w" and sc: "scopes w = []" and a: "a \<in> set (contexts w)"
    and m: "matching_allocator (ctx w a) cb" and ob: "obliging (outside w)"
  shows "\<exists>r w'. ffxDestroyContext (Some a) cb w = (r, Some 0, w') \<and> contexts w' = remove1 a (contexts w)"
proof -
  have "a \<in> dom (heap w)" using i a by (simp add: fg_inv_def)
  then obtain c where c: "heap w a = Some c" by auto
  have ok: "\<not> closing c" "a \<noteq> 0" using i c unfolding fg_inv_def ctx_ok_def by blast+
  have l: "locks w = []" using i by (simp add: fg_inv_def)
  obtain dr w2 where 2: "detach_swapchain a (acquire (ConfigureLock a) (set_closing a True w)) = (dr, w2)" by force
  let ?w3 = "release (ConfigureLock a) w2"
  obtain c2 I where s2: "sym w a (rest_of (heap w) a) {#} c2 [] I ?w3" and ok2: "wfc w a c2 I"
    and r2: "references c2 = 1" and sw: "swapchain c2 = 0 \<or> (\<exists>t. \<not> o_presents (outside w) t)"
    by (rule destroy_detach [OF i c sc 2])
  have sw: "swapchain c2 = 0" using sw ob by (simp add: obliging_def)
  obtain res w4 where 4: "destroy_providers a ?w3 = (res, w4)" by force
  obtain t p where s4: "sym w a (rest_of (heap w) a) {#} (c2\<lparr>translated := t, original := p\<rparr>) [] I w4"
    by (rule destroy_providers_sym [OF s2 r2 4])
  let ?w5 = "release ContextsLock
    ((acquire ContextsLock w4)\<lparr>contexts := remove1 a (contexts (acquire ContextsLock w4))\<rparr>)"
  let ?w0 = "w\<lparr>contexts := remove1 a (contexts w)\<rparr>"
  have "sym ?w0 a (rest_of (heap w) a) {#} (c2\<lparr>translated := t, original := p\<rparr>) [] I ?w5"
    using s4 by (simp add: sym_def acquire_def release_def)
  from free_context_storage_gone [OF this _ _ ok(2)] have
    g: "gone ?w0 a (rest_of (heap w) a) I (free_context_storage a ?w5)"
    using sw wfc_ctx_ok [OF ok2] by (cases "binding c2") (auto simp: ctx_ok_def)
  have guard: "\<not> (a \<notin> set (contexts (acquire ContextsLock w)) \<or> closing (ctx (acquire ContextsLock w) a) \<or>
      \<not> matching_allocator (ctx (acquire ContextsLock w) a) cb)" "\<not> in_callback w"
    using a m ok c l sc by (simp_all add: acquire_def ctx_def in_callback_def)
  have "ffxDestroyContext (Some a) cb w = (dr, Some 0, free_context_storage a ?w5)"
    using guard ok 2 4 sw destroy_providers_obliging [OF ob s2 4]
    by (auto simp: ffxDestroyContext_def Let_def set_closing_def sym_ctx [OF s2] split: prod.splits if_splits)
  with g show ?thesis by (auto simp: gone_def)
qed

text \<open>An operation on one context leaves the others alone and keeps what was fixed at creation.\<close>

lemma fg_inv_frame:
  assumes i: "fg_inv e w" and a: "heap w a \<noteq> None"
    and op: "\<And>c I Y. sym w a Y {#} c [] I w \<Longrightarrow> wfc w a c I \<Longrightarrow> registered w a \<Longrightarrow> post w a Y [] c {#} w'"
  shows "keeps (ctx w a) (ctx w' a)" and "\<And>b. b \<noteq> a \<Longrightarrow> heap w' b = heap w b"
proof -
  from a obtain c where c: "heap w a = Some c" by auto
  note p = op [OF fg_inv_open [OF i c]]
  show "keeps (ctx w a) (ctx w' a)" using fg_inv_post(5) [OF i c p] c by (simp add: ctx_def)
  show "heap w' b = heap w b" if "b \<noteq> a" for b
    using p that by (auto simp: post_def sym_def)
qed

end
