(* ===== verification/Fg_Demo.thy ===== *)
theory Fg_Demo
  imports Fg_System
begin

text \<open>
  A small application run against obliging providers, the concrete instance of the properties of
  \<open>Fg_Properties\<close>: it creates a context, stores a configuration, and prepares a frame, which selects the
  MetalFX provider, claims the swapchain and installs the callbacks there. Every state is evaluated to an
  explicit one.
\<close>

subsection \<open>A concrete application\<close>

definition demo_outside :: outside where
  "demo_outside =
     \<lparr>o_instance = 1, o_env = Some ''C:/native.dll'', o_load = (\<lambda>_. 2), o_proc = (\<lambda>_. 3),
      o_sidecar = (\<lambda>_. True), o_sidecar_api = (\<lambda>_. (FFX_OK, 0x77)),
      o_alloc = (\<lambda>tr. 0x1000 + 0x100 * of_nat (length tr)), o_interface = (\<lambda>_. 0x5000),
      o_presents = (\<lambda>_. True),
      o_native = (\<lambda>_. \<lparr>na_code = FFX_OK, na_context = 0x9000, na_body = OtherDesc 0\<rparr>)\<rparr>"

definition demo_resource :: "addr \<Rightarrow> ffx_resource" where
  "demo_resource p = zero_resource\<lparr>resource := p\<rparr>"

definition demo_config :: configure_fg where
  "demo_config = zero_configure_fg\<lparr>cg_swapChain := 0x6000, cg_frameGenerationEnabled := True,
     cg_HUDLessColor := demo_resource 0x700, cg_frameID := 5\<rparr>"

definition demo_prepare :: prepare_fg where
  "demo_prepare =
     \<lparr>pg_frameID = 5, pg_flags = 0, pg_commandList = 0x800, pg_render_width = 8, pg_render_height = 8,
      pg_jitter_x = 0, pg_jitter_y = 0, pg_motion_scale_x = 0, pg_motion_scale_y = 0,
      pg_frameTimeDelta = 0, pg_reset = False, pg_cameraNear = 0, pg_cameraFar = 0,
      pg_cameraFovAngleVertical = 0x3F800000, pg_viewSpaceToMetersFactor = 0,
      pg_depth = demo_resource 0x710, pg_motionVectors = demo_resource 0x720\<rparr>"

definition demo_dispatch :: dispatch_fg where
  "demo_dispatch =
     \<lparr>dg_commandList = 0x800, dg_presentColor = demo_resource 0x730,
      dg_outputs = [demo_resource 0x740, zero_resource, zero_resource, zero_resource],
      dg_numGeneratedFrames = 1, dg_reset = False, dg_backbufferTransferFunction = 0,
      dg_minLuminance = 0, dg_maxLuminance = 0, dg_generationRect = zero_rect, dg_frameID = 5\<rparr>"

definition demo_mem :: desc_mem where
  "demo_mem = (\<lambda>p.
     if p = 0x10 then \<lparr>pNext = 0x20, body = CreateFG \<lparr>cf_flags = 0, cf_display_width = 16,
        cf_display_height = 16, cf_max_render_width = 8, cf_max_render_height = 8,
        cf_backBufferFormat = 0\<rparr>\<rparr>
     else if p = 0x20 then \<lparr>pNext = 0, body = BackendDX12 0x4000\<rparr>
     else if p = 0x30 then \<lparr>pNext = 0, body = ConfigureFG demo_config\<rparr>
     else if p = 0x40 then \<lparr>pNext = 0, body = PrepareFGV2 demo_prepare zero_camera\<rparr>
     else if p = 0x50 then \<lparr>pNext = 0, body = DispatchFG demo_dispatch\<rparr>
     else \<lparr>pNext = 0, body = OtherDesc 0\<rparr>)"

definition demo_created :: fg_world where
  "demo_created = run_call (CallCreate True 0x10 None) (loaded demo_outside demo_mem)"

definition demo_configured :: fg_world where
  "demo_configured = run_call (CallConfigure (Some 0x1100) 0x30) demo_created"

definition demo_running :: fg_world where
  "demo_running = run_call (CallDispatch (Some 0x1100) 0x40) demo_configured"

named_theorems fg_eval \<open>definitions the concrete runs evaluate\<close>

lemma chain_numeral [fg_eval]:
  "chain (numeral k) m p = (if p = 0 then [] else p # chain (pred_numeral k) m (pNext (m p)))"
  by (simp add: numeral_eq_Suc)

lemma demo_mem_at [fg_eval]:
  "demo_mem 0x10 = \<lparr>pNext = 0x20, body = CreateFG \<lparr>cf_flags = 0, cf_display_width = 16,
     cf_display_height = 16, cf_max_render_width = 8, cf_max_render_height = 8, cf_backBufferFormat = 0\<rparr>\<rparr>"
  "demo_mem 0x20 = \<lparr>pNext = 0, body = BackendDX12 0x4000\<rparr>"
  "demo_mem 0x30 = \<lparr>pNext = 0, body = ConfigureFG demo_config\<rparr>"
  "demo_mem 0x40 = \<lparr>pNext = 0, body = PrepareFGV2 demo_prepare zero_camera\<rparr>"
  "demo_mem 0x50 = \<lparr>pNext = 0, body = DispatchFG demo_dispatch\<rparr>"
  by (simp_all add: demo_mem_def)

lemma demo_outside_at [fg_eval]:
  "o_instance demo_outside = 1" "o_env demo_outside = Some ''C:/native.dll''" "o_load demo_outside t = 2"
  "o_proc demo_outside s = 3" "o_sidecar demo_outside t" "o_sidecar_api demo_outside t = (FFX_OK, 0x77)"
  "o_alloc demo_outside t = 0x1000 + 0x100 * of_nat (length t)" "o_interface demo_outside t = 0x5000"
  "o_presents demo_outside t"
  "o_native demo_outside t = \<lparr>na_code = FFX_OK, na_context = 0x9000, na_body = OtherDesc 0\<rparr>"
  by (simp_all add: demo_outside_def)

lemma demo_resource_at: "resource (demo_resource p) = p" "state (demo_resource p) = 0"
  "rd_format (description (demo_resource p)) = 0" "resource zero_resource = 0"
  by (simp_all add: demo_resource_def zero_resource_def)

lemma demo_config_at: "cg_swapChain demo_config = 0x6000" "cg_frameGenerationEnabled demo_config"
  "cg_HUDLessColor demo_config = demo_resource 0x700" "cg_frameID demo_config = 5" "cg_flags demo_config = 0"
  "rc_width (cg_generationRect demo_config) = 0" "rc_height (cg_generationRect demo_config) = 0"
  "cg_presentCallback demo_config = 0" "cg_frameGenerationCallback demo_config = 0"
  "cg_presentCallbackUserContext demo_config = 0" "cg_frameGenerationCallbackUserContext demo_config = 0"
  by (simp_all add: demo_config_def zero_configure_fg_def zero_rect_def)

lemmas [fg_eval] = Let_def
  loaded_def bodies_def entries_def valid_chain_def valid_chain_loop.simps emit_def ctx_def upd_def and_ok_def
  acquire_def release_def allocate_memory_def alloc_tag_def free_memory_def free_tag_def give_back_def
  com_addref_def com_release_def retain_resource_def release_resource_def context_allocator_def native_call_def
  have_native_def initialize_native_def bridge_call_def fsr_fg_api_def load_sidecar_def initialize_packet_def
  demo_resource_at

lemmas create_eval = fg_eval ffxCreateContext_def create_fg_context_def finish_create_def empty_scan_def
  create_invalid_def new_context_def set_mode_def create_original_def native_create_def
  select_translation_def make_create_packet_def zero_context_def

definition demo_trace :: "ext list" where
  "demo_trace =
     [Sidecar (initialize_packet (CreatePacket \<lparr>kc_device = 0x4000, kc_display_width = 16,
        kc_display_height = 16, kc_max_render_width = 8, kc_max_render_height = 8,
        kc_backbuffer_format = 0, kc_flags = 0\<rparr>) YAAGL_FSR_FG_CREATE 0),
      NativeCreate [body (demo_mem 0x10), body (demo_mem 0x20)] None,
      LoadLibrary ''C:/native.dll'', Alloc None, Alloc None]"

lemma length_demo_trace [fg_eval]: "length demo_trace = 5"
  by (simp add: demo_trace_def)

definition demo_context :: fg_context where
  "demo_context = zero_context\<lparr>mode := MODE_PENDING, original := 0x9000, translated := 0x77,
     device := 0x4000, references := 1, display_width := 16, display_height := 16,
     max_render_width := 8, max_render_height := 8\<rparr>"

text \<open>The states of the run differ in the trace, the one context, what is alive and the locks.\<close>

definition demo_state :: "ext list \<Rightarrow> fg_context \<Rightarrow> live_res list \<Rightarrow> lock list \<Rightarrow> fg_world" where
  "demo_state tr c lv ls =
     \<lparr>outside = demo_outside, trace = tr, mem = demo_mem, native_ready = True, sidecar_ready = True,
      contexts = [0x1100], heap = [0x1100 \<mapsto> c], live = lv,
      locks = ls, scopes = [], global_message = 0, global_debug_level = 0, fault = False\<rparr>"

lemma demo_created_eq:
  "demo_created = demo_state demo_trace demo_context [Com 0x4000, Block 0x1100 None] []"
  by (simp add: demo_created_def create_eval demo_trace_def demo_context_def demo_state_def)

lemmas configure_eval = fg_eval ffxConfigure_def acquire_context_def release_context_def configure_context_def
  configure_frame_generation_def configure_invalid_def demo_config_at generation_rect_ok_def
  in_callback_def notify_def store_native_config_def

abbreviation demo_context_configured :: fg_context where
  "demo_context_configured \<equiv> demo_context\<lparr>hudless := demo_resource 0x700, native_config := demo_config,
     native_config_valid := True\<rparr>"

lemma demo_configured_eq:
  "demo_configured =
     demo_state demo_trace demo_context_configured [Com 0x700, Com 0x4000, Block 0x1100 None] []"
  by (simp add: demo_configured_def demo_created_eq demo_state_def configure_eval demo_context_def zero_context_def)

abbreviation demo_packet :: prepare_packet where
  "demo_packet \<equiv> (copy_prepare_fields demo_prepare)\<lparr>kp_camera := zero_camera,
     kp_reset := pg_reset demo_prepare, kp_camera_info_present := True\<rparr>"

definition demo_prepare_event :: ext where
  "demo_prepare_event = Sidecar (initialize_packet (PreparePacket demo_packet) YAAGL_FSR_FG_PREPARE 0x77)"

lemma demo_state_at [simp]:
  "upd 0x1100 f (demo_state tr c lv ls) = demo_state tr (f c) lv ls"
  "emit ev (demo_state tr c lv ls) = demo_state (ev # tr) c lv ls"
  "mem (demo_state tr c lv ls) = demo_mem" "scopes (demo_state tr c lv ls) = []"
  "contexts (demo_state tr c lv ls) = [0x1100]" "trace (demo_state tr c lv ls) = tr"
  "outside (demo_state tr c lv ls) = demo_outside" "live (demo_state tr c lv ls) = lv"
  "load_sidecar (demo_state tr c lv ls) = demo_state tr c lv ls" "sidecar_ready (demo_state tr c lv ls)"
  "l \<notin> set ls \<Longrightarrow> acquire l (demo_state tr c lv ls) = demo_state tr c lv (l # ls)"
  "release l (demo_state tr c lv (l # ls)) = demo_state tr c lv ls"
  "com_addref p (demo_state tr c lv ls) = demo_state tr c (Com p # lv) ls"
  "r \<in> set lv \<Longrightarrow> give_back r (demo_state tr c lv ls) = demo_state tr c (remove1 r lv) ls"
  "(demo_state tr c lv ls)\<lparr>live := lv'\<rparr> = demo_state tr c lv' ls" "locks (demo_state tr c lv ls) = ls"
  "ctx (demo_state tr c lv ls) a = (if a = 0x1100 then c else zero_context)"
  by (simp_all add: demo_state_def ctx_def upd_def emit_def load_sidecar_def acquire_def release_def com_addref_def
      give_back_def)

lemma demo_context_at [simp]:
  "demo_context = \<lparr>allocation = \<lparr>pUserData = 0, alloc = 0, dealloc = 0\<rparr>, custom_allocation = False,
      mode = MODE_PENDING, original = 0x9000, translated = 0x77, device = 0x4000, references = 1,
      closing = False, swapchain = 0, binding = None, native_config = zero_configure_fg,
      native_config_valid = False, hudless = zero_resource, frame_configs = [],
      display_width = 16, display_height = 16, max_render_width = 8, max_render_height = 8,
      hudless_format = 0, last_prepare_frame_id = 0, message = 0, debug_level = 0,
      have_last_prepare_frame_id = False, debug_checking = False, depth_infinite = False,
      enabled = False\<rparr>"
  by (simp add: demo_context_def zero_context_def)

lemma demo_prepare_flags: "pg_flags demo_prepare = 0"
  by (simp add: demo_prepare_def)

lemma demo_prepare_valid:
  "\<not> prepare_invalid (demo_context_configured\<lparr>references := n\<rparr>) demo_packet"
  "\<not> camera_invalid demo_packet"
  by (simp_all add: prepare_invalid_def copy_prepare_fields_def demo_prepare_def demo_resource_at isfinite_def f32_less_def
      f32_le_def f32_ord_def isnan_def camera_invalid_def zero_camera_def vec3_finite_def)

lemma demo_translated_prepare:
  "translated_prepare 0x1100 (PrepareFGV2 demo_prepare zero_camera) []
     (demo_state tr (demo_context_configured\<lparr>references := n\<rparr>) lv ls) =
     (FFX_OK, demo_state (demo_prepare_event # tr)
        (demo_context_configured\<lparr>references := n, last_prepare_frame_id := 5, have_last_prepare_frame_id := True\<rparr>) lv ls)"
  using demo_prepare_valid(1) [of n] demo_prepare_valid(2)
  by (simp add: translated_prepare_def make_prepare_packet_def demo_prepare_event_def bridge_call_def fsr_fg_api_def
       initialize_packet_def demo_outside_at Let_def) (simp add: copy_prepare_fields_def demo_prepare_def)


abbreviation demo_binding :: callback_binding where
  "demo_binding \<equiv> \<lparr>cb_context = 0x1100, cb_present = 0, cb_present_user = 0, cb_generate = 0, cb_generate_user = 0\<rparr>"

lemma demo_configure:
  fixes n :: int
  defines "c \<equiv> demo_context_configured\<lparr>references := n, mode := CONTEXT_METALFX, last_prepare_frame_id := 5,
         have_last_prepare_frame_id := True\<rparr>"
  shows "configure_frame_generation 0x1100 demo_config []
     (demo_state (demo_prepare_event # demo_trace) c [Com 0x700, Com 0x4000, Block 0x1100 None] [ConfigureLock 0x1100]) =
     (FFX_OK, demo_state
        (SetConfig 0x5000 (build_swapchain_config demo_config (Some (0x1800, demo_binding))) #
         Alloc None # Sidecar (initialize_packet (ConfigurePacket True) YAAGL_FSR_FG_CONFIGURE 0x77) #
         Alloc None # QueryInterface 0x6000 # demo_prepare_event # demo_trace)
        (c\<lparr>swapchain := 0x5000, binding := Some (0x1800, demo_binding), enabled := True,
           frame_configs := [\<lparr>fs_block = 0x1a00, fs_frame_id = 5, fs_hudless = demo_resource 0x700\<rparr>]\<rparr>)
        [Com 0x700, Block 0x1a00 None, Block 0x1800 None, Com 0x5000, Com 0x700, Com 0x4000, Block 0x1100 None]
        [ConfigureLock 0x1100])"
  unfolding c_def
  by (simp add: configure_frame_generation_def configure_invalid_def demo_config_at free_memory_def demo_resource_at generation_rect_ok_def
    configure_selected_def notify_def get_stable_swapchain_def demo_outside_at configure_swapchain_def binding_matches_def
    allocate_memory_def alloc_tag_def context_allocator_def configure_claim_def claim_swapchain_def configure_claimed_def
    enable_translation_def configure_translation_def bridge_call_def fsr_fg_api_def initialize_packet_def
    snapshot_or_restore_def snapshot_frame_config_def retain_resource_def configure_publish_def set_config_def
    blocking_lock_def store_native_config_def release_resource_def com_release_def length_demo_trace
    free_binding_def retire_frame_configs_def retire_configs_def and_ok_def Let_def)

lemma demo_running_eq:
  "demo_running = demo_state
     (SetConfig 0x5000 (build_swapchain_config demo_config (Some (0x1800, demo_binding))) #
      Alloc None # Sidecar (initialize_packet (ConfigurePacket True) YAAGL_FSR_FG_CONFIGURE 0x77) #
      Alloc None # QueryInterface 0x6000 # demo_prepare_event # demo_trace)
     (demo_context_configured\<lparr>mode := CONTEXT_METALFX, last_prepare_frame_id := 5,
         have_last_prepare_frame_id := True, swapchain := 0x5000,
         binding := Some (0x1800, demo_binding), enabled := True,
         frame_configs := [\<lparr>fs_block = 0x1a00, fs_frame_id = 5, fs_hudless = demo_resource 0x700\<rparr>]\<rparr>)
     [Com 0x700, Block 0x1a00 None, Block 0x1800 None, Com 0x5000, Com 0x700, Com 0x4000, Block 0x1100 None]
     []"
  unfolding demo_running_def demo_configured_eq run_call.simps
  by (simp add: ffxDispatch_def acquire_context_def valid_chain_def valid_chain_loop.simps bodies_def
      entries_def chain_numeral demo_mem_at validate_public_dispatch_def validate_prepare_def
      make_prepare_packet_def demo_prepare_flags demo_prepare_valid [simplified] dispatch_context_def
      in_callback_def dispatch_pending_def prepare_has_native_only_flags_def
      demo_translated_prepare [simplified] demo_configure [simplified] set_mode_def release_context_def Let_def)

lemma demo_reach:
  "fg_reach demo_outside demo_created" "fg_reach demo_outside demo_configured" "fg_reach demo_outside demo_running"
  unfolding demo_running_def demo_configured_def demo_created_def by (intro fg_reach.intros)+

end
