(* ===== verification/Fg_Properties.thy ===== *)
theory Fg_Properties
  imports Fg_Demo
begin

text \<open>
  The properties of the frame-generation DLL, with the run of \<open>Fg_Demo\<close> as the concrete instance of
  those that have hypotheses.
\<close>

subsection \<open>Reachable states\<close>

lemma demo_heap: "heap (demo_state tr c lv ls) = [0x1100 \<mapsto> c]"
  by (simp add: demo_state_def)

text \<open>C1. Whatever sequence of API calls, descriptor writes and presenter callbacks an application makes,
  the DLL never frees twice, never frees with the wrong deallocator, never releases a reference it does not
  hold, never touches a freed context, never calls into the swapchain with the dispatch or list lock held,
  never blocks in a destroy, and holds no lock between calls; and the blocks and references alive are
  exactly those the registered contexts own.\<close>

theorem fg_reachable_safe:
  assumes "fg_reach out w"
  shows "\<not> fault w \<and> locks w = [] \<and> scopes w = [] \<and> distinct (contexts w) \<and>
    dom (heap w) = set (contexts w) \<and> mset (live w) = (\<Sum>a \<in> set (contexts w). owned a (the (heap w a)))"
proof -
  have i: "fg_ok w" "scopes w = []" using fg_reach_ok [OF assms] by auto
  then have "dom (heap w) = set (contexts w)" "mset (live w) = live_of (heap w)" unfolding fg_inv_def by blast+
  with i show ?thesis unfolding fg_inv_def live_of_def by simp
qed

theorem fg_reachable_safe_witness:
  "contexts demo_running = [0x1100] \<and> length (live demo_running) = 7 \<and> \<not> fault demo_running \<and>
   mset (live demo_running) = owned 0x1100 (the (heap demo_running 0x1100))"
  using fg_reachable_safe [OF demo_reach(3)] by (simp add: demo_running_eq)








text \<open>C3. No two contexts claim one swapchain, and whenever a swapchain has the DLL's generation callback
  installed, the binding it will be called with is alive: it is the binding of the context that claims
  that swapchain.\<close>

theorem fg_claims_and_bindings:
  assumes "fg_reach out w"
  shows "(\<forall>a b c d. heap w a = Some c \<longrightarrow> heap w b = Some d \<longrightarrow> swapchain c = swapchain d \<longrightarrow>
            swapchain c \<noteq> 0 \<longrightarrow> a = b) \<and>
         (\<forall>sc. installed (trace w) sc \<noteq> 0 \<longrightarrow>
            (\<exists>a c b. heap w a = Some c \<and> swapchain c = sc \<and>
                     binding c = Some (installed (trace w) sc, b) \<and> cb_context b = a))"
proof -
  have i: "fg_ok w" using fg_reach_ok [OF assms] by simp
  have "\<exists>a c b. heap w a = Some c \<and> swapchain c = sc \<and> binding c = Some (installed (trace w) sc, b) \<and> cb_context b = a"
    if nz: "installed (trace w) sc \<noteq> 0" for sc
  proof -
    from i nz obtain a c where a: "heap w a = Some c" "swapchain c = sc" "binding_addr (binding c) = installed (trace w) sc"
      unfolding fg_inv_def by blast
    with nz obtain b where b: "binding c = Some (installed (trace w) sc, b)" by (cases "binding c") auto
    have "ctx_ok a c" using i a unfolding fg_inv_def by blast
    with a b show ?thesis by (auto simp: ctx_ok_def)
  qed
  moreover have "a = b" if "heap w a = Some c" "heap w b = Some d" "swapchain c = swapchain d" "swapchain c \<noteq> 0" for a b c d
    using i that unfolding fg_inv_def by blast
  ultimately show ?thesis by blast
qed

theorem fg_claims_and_bindings_witness:
  "installed (trace demo_running) 0x5000 = 0x1800 \<and>
   (\<exists>a c b. heap demo_running a = Some c \<and> swapchain c = 0x5000 \<and> binding c = Some (0x1800, b) \<and> cb_context b = a)"
proof -
  have e: "installed (trace demo_running) 0x5000 = 0x1800"
    by (simp add: demo_running_eq build_swapchain_config_def demo_config_at Let_def)
  from fg_claims_and_bindings [OF demo_reach(3)] have
    "installed (trace demo_running) 0x5000 \<noteq> 0 \<longrightarrow> (\<exists>a c b. heap demo_running a = Some c \<and> swapchain c = 0x5000 \<and>
       binding c = Some (installed (trace demo_running) 0x5000, b) \<and> cb_context b = a)" by blast
  with e show ?thesis by simp
qed

text \<open>C24. The shape of a context: its handle is not NULL, nobody is destroying it, exactly the creator's
  reference is on it between calls, what it allocates it can free, callbacks and frame snapshots exist
  only once MetalFX is selected, a context still waiting for its provider claims no swapchain, and the
  stored configuration is the one whose resource it retains.\<close>

theorem fg_context_shape:
  assumes "fg_reach out w" and "heap w a = Some c"
  shows "a \<noteq> 0 \<and> \<not> closing c \<and> references c = 1 \<and> alloc_tag (context_allocator c) = free_tag (context_allocator c) \<and>
    (mode c \<noteq> CONTEXT_METALFX \<longrightarrow> binding c = None \<and> frame_configs c = []) \<and>
    (binding c \<noteq> None \<longrightarrow> swapchain c \<noteq> 0) \<and> (mode c = MODE_PENDING \<longrightarrow> swapchain c = 0) \<and>
    (native_config_valid c \<longrightarrow> cg_HUDLessColor (native_config c) = hudless c)"
proof -
  have "fg_ok w" "scopes w = []" using fg_reach_ok [OF assms(1)] by auto
  with assms(2) have "ctx_ok a c" "\<not> closing c" "references c = 1" unfolding fg_inv_def by auto
  then show ?thesis by (cases "binding c") (auto simp: ctx_ok_def tags_ok_def)
qed

theorem fg_context_shape_witness:
  "mode (ctx demo_running 0x1100) = CONTEXT_METALFX \<and> references (ctx demo_running 0x1100) = 1 \<and>
   swapchain (ctx demo_running 0x1100) \<noteq> 0"
  using fg_context_shape [OF demo_reach(3), of "0x1100" "ctx demo_running 0x1100"]
  by (simp add: demo_running_eq demo_heap)

text \<open>C30. At most 64 frame snapshots are kept per context, one per frame.\<close>

theorem fg_snapshot_bound:
  assumes "fg_reach out w" and "heap w a = Some c"
  shows "length (frame_configs c) \<le> 64 \<and> distinct (map fs_frame_id (frame_configs c))"
proof -
  have "fg_ok w" using fg_reach_ok [OF assms(1)] by simp
  with assms(2) have "ctx_ok a c" unfolding fg_inv_def by blast
  then show ?thesis by (simp add: ctx_ok_def snaps_ok_def)
qed

theorem fg_snapshot_bound_witness:
  "map fs_frame_id (frame_configs (ctx demo_running 0x1100)) = [5] \<and>
   length (frame_configs (ctx demo_running 0x1100)) \<le> 64"
  using fg_snapshot_bound [OF demo_reach(3), of "0x1100" "ctx demo_running 0x1100"]
  by (simp add: demo_running_eq demo_heap)



text \<open>C26. Dispatching to a context never touches another one, never changes what was fixed when it was
  created, and changes its provider only by the one selection from pending to native or MetalFX.\<close>

theorem fg_dispatch_frame:
  assumes "fg_reach out w" and "a \<in> set (contexts w)" and "dispatch_context a d rest w = (r, w')"
  shows "keeps (ctx w a) (ctx w' a) \<and> mode_step (mode (ctx w a)) (mode (ctx w' a)) \<and>
    (\<forall>b. b \<noteq> a \<longrightarrow> heap w' b = heap w b)"
proof -
  have i: "fg_ok w" using fg_reach_ok [OF assms(1)] by simp
  have "a \<in> dom (heap w)" using i assms(2) by (simp add: fg_inv_def)
  then have a: "heap w a \<noteq> None" by auto
  have p: "post w a Y [] c {#} w'" if "sym w a Y {#} c [] I w" "wfc w a c I" "registered w a" for c I Y
    using dispatch_context_post [OF that assms(3)] .
  have "keeps (ctx w a) (ctx w' a)" "\<And>b. b \<noteq> a \<Longrightarrow> heap w' b = heap w b"
    by (rule fg_inv_frame [OF i a p]; assumption)+
  then show ?thesis by (auto simp: keeps_def)
qed

theorem fg_dispatch_frame_witness:
  "\<exists>r w'. dispatch_context 0x1100 (DispatchFG demo_dispatch) [] demo_running = (r, w') \<and>
     mode (ctx demo_running 0x1100) = CONTEXT_METALFX \<and> mode (ctx w' 0x1100) = CONTEXT_METALFX"
proof -
  obtain r w' where "dispatch_context 0x1100 (DispatchFG demo_dispatch) [] demo_running = (r, w')" by force
  with fg_dispatch_frame [OF demo_reach(3) _ this] show ?thesis
    by (auto simp: demo_running_eq mode_step_def)
qed
subsection \<open>Frame snapshots\<close>

text \<open>C28. \<open>find_frame_config\<close> implements the fallback rule: on the snapshots of a context it returns the
  newest configuration at or below the frame, and nothing exactly when every snapshot is newer.\<close>

theorem find_frame_config_newest:
  assumes "distinct (map fs_frame_id l)"
  shows "(\<forall>s. find_frame_config l f = Some s \<longleftrightarrow> newest_upto f l s) \<and>
    (find_frame_config l f = None \<longleftrightarrow> (\<forall>t \<in> set l. f < fs_frame_id t))"
  using find_frame_config_iff [OF assms] find_frame_config_None by blast

definition demo_snapshots :: "frame_config_snapshot list" where
  "demo_snapshots = map (\<lambda>f. \<lparr>fs_block = 0x100 + f, fs_frame_id = f, fs_hudless = zero_resource\<rparr>) [9, 3, 7]"

theorem find_frame_config_newest_witness:
  "newest_upto 8 demo_snapshots \<lparr>fs_block = 0x107, fs_frame_id = 7, fs_hudless = zero_resource\<rparr> \<and>
   find_frame_config demo_snapshots 2 = None"
proof -
  have d: "distinct (map fs_frame_id demo_snapshots)" by (simp add: demo_snapshots_def)
  have "find_frame_config demo_snapshots 8 = Some \<lparr>fs_block = 0x107, fs_frame_id = 7, fs_hudless = zero_resource\<rparr>"
    by (simp add: demo_snapshots_def find_frame_config_def)
  with find_frame_config_newest [OF d, of 8] find_frame_config_newest [OF d, of 2] show ?thesis
    by (simp add: demo_snapshots_def)
qed

text \<open>C29. Retiring the snapshots of a completed frame is invisible to it and to every later frame: they
  find the same configuration before and after, and no snapshot is lost, each being either kept or
  released.\<close>

theorem retire_configs_invisible:
  assumes "distinct (map fs_frame_id l)" and "retire_configs f l = (kept, discard)"
  shows "(\<forall>g. f \<le> g \<longrightarrow> find_frame_config kept g = find_frame_config l g) \<and>
    mset kept + mset discard = mset l \<and>
    (\<forall>s \<in> set discard. find_frame_config l f \<noteq> Some s)"
proof (intro conjI)
  show "\<forall>g. f \<le> g \<longrightarrow> find_frame_config kept g = find_frame_config l g"
    using retire_configs_find [OF assms(2,1)] by blast
  show parts: "mset kept + mset discard = mset l" by (rule retire_configs_parts [OF assms(2)])
  have "s \<in> set kept" if "find_frame_config l f = Some s" for s
    using retire_configs_find [OF assms(2,1) order_refl] that find_frame_config_Some [of kept f s]
    by (simp add: newest_upto_def)
  moreover have "set kept \<inter> set discard = {}"
  proof -
    have "distinct l" using assms(1) by (simp add: distinct_map)
    then have "distinct (kept @ discard)" using parts by (metis distinct_count_atmost_1 mset_append mset_eq_setD)
    then show ?thesis by simp
  qed
  ultimately show "\<forall>s \<in> set discard. find_frame_config l f \<noteq> Some s" by blast
qed

theorem retire_configs_invisible_witness:
  "\<exists>kept discard. retire_configs 8 demo_snapshots = (kept, discard) \<and> map fs_frame_id kept = [9, 7] \<and>
     find_frame_config kept 8 = find_frame_config demo_snapshots 8"
proof -
  have "distinct (map fs_frame_id demo_snapshots)" by (simp add: demo_snapshots_def)
  moreover obtain kept discard where r: "retire_configs 8 demo_snapshots = (kept, discard)" by force
  ultimately have "find_frame_config kept 8 = find_frame_config demo_snapshots 8"
    using retire_configs_invisible by blast
  moreover have "map fs_frame_id kept = [9, 7]"
    using r by (auto simp: demo_snapshots_def retire_configs_def)
  ultimately show ?thesis using r by (intro exI conjI)
qed

subsection \<open>Descriptor chains\<close>

lemma entries_length: "length (entries m p) \<le> 64"
proof -
  have "length (chain n m p) \<le> n" for n by (induction n m p rule: chain.induct) auto
  then show ?thesis unfolding entries_def .
qed

text \<open>C31. \<open>valid_chain\<close> ends on every chain, cyclic ones included, and accepts exactly those that reach
  NULL within 64 entries; on these the loops over the chain visit each entry once and end at NULL.\<close>

theorem valid_chain_complete:
  "valid_chain m p \<longleftrightarrow>
     is_chain m p (entries m p) \<and> distinct (entries m p) \<and> length (entries m p) \<le> 64"
  using valid_chain_entries [of m p] is_chain_distinct [of m p "entries m p"] entries_length [of m p]
  unfolding valid_chain_iff by blast

text \<open>C32. Creating the native context behind an automatic or MetalFX override hides the override descriptor
  from the native provider, which sees every other entry in order, and leaves the application's chain
  as it was.\<close>

theorem create_original_hides_override:
  assumes vc: "valid_chain (mem w) desc" and e: "entries (mem w) desc = xs @ ov # ys"
    and v: "version = AUTOMATIC_PROVIDER_ID \<or> version = METALFX_PROVIDER_ID" and n: "native_ready w"
    and a: "heap w a \<noteq> None" and run: "create_original a desc (Some (ov, version)) cb w = (r, w')"
  shows "mem w' = mem w \<and>
    trace w' = NativeCreate (map (\<lambda>p. body (mem w p)) (xs @ ys)) cb # trace w"
proof -
  have ch: "is_chain (mem w) desc (xs @ ov # ys)" using valid_chain_entries [OF vc] e by simp
  then have d: "ov \<notin> set xs" using is_chain_distinct by fastforce
  have len: "length (xs @ ov # ys) \<le> 64" using entries_length [of "mem w" desc] e by simp
  have nc: "mem w2 = mem w1 \<and> trace w2 = NativeCreate (map (\<lambda>p. body (mem w1 p)) ps) cb # trace w1"
    if "native_create a q cb w1 = (r1, w2)" "heap w1 a \<noteq> None" "is_chain (mem w1) q ps" "length ps \<le> 64" for q w1 w2 r1 ps
    using that chain_eq [OF that(3,4)]
    by (auto simp: native_create_def native_call_def emit_def upd_def bodies_def entries_def Let_def split: option.splits)
  show ?thesis
  proof (cases "xs = []")
    case True
    with ch have "is_chain (mem w) (pNext (mem w ov)) ys" by simp
    moreover have "native_create a (pNext (mem w ov)) cb w = (r, w')"
      using run v n True e d by (auto simp: create_original_def have_native_def)
    ultimately show ?thesis using nc a len True by simp
  next
    case False
    let ?q = "last xs"
    have xs: "xs @ ov # ys = butlast xs @ ?q # ov # ys" "xs @ ys = butlast xs @ ?q # ys"
      using False append_butlast_last_id [of xs] by (metis append.assoc append_Cons append_Nil)+
    let ?w1 = "w\<lparr>mem := set_next ?q (pNext (mem w ov)) (mem w)\<rparr>"
    obtain r2 w2 where 2: "native_create a desc cb ?w1 = (r2, w2)" by force
    have ch': "is_chain (mem w) desc (butlast xs @ ?q # ov # ys)" using ch unfolding xs(1) .
    have "is_chain (mem ?w1) desc (xs @ ys)" using splice_chain [OF ch'] unfolding xs(2) by simp
    from nc [OF 2 _ this] a len have
      w2: "mem w2 = mem ?w1" "trace w2 = NativeCreate (map (\<lambda>p. body (mem ?w1 p)) (xs @ ys)) cb # trace ?w1"
      by simp_all
    have "previous_of None (xs @ ov # ys) ov = Some ?q" using previous_of_append [OF d] False by simp
    with run v n e 2 have w': "w' = w2\<lparr>mem := set_next ?q ov (mem w2)\<rparr>"
      by (auto simp: create_original_def have_native_def Let_def split: prod.splits)
    have "set_next ?q ov (mem w2) = mem w"
      using splice_restore [OF ch'] w2 by simp
    moreover have "body (mem ?w1 p) = body (mem w p)" for p by (simp add: set_next_def)
    ultimately show ?thesis unfolding w' using w2(2) by simp
  qed
qed

definition demo_override_mem :: desc_mem where
  "demo_override_mem = demo_mem(0x10 := \<lparr>pNext = 0x18, body = FGMemoryUsage\<rparr>,
     0x18 := \<lparr>pNext = 0x20, body = OverrideVersion AUTOMATIC_PROVIDER_ID\<rparr>)"

theorem create_original_hides_override_witness:
  "\<exists>r w'. create_original 0x1100 0x10 (Some (0x18, AUTOMATIC_PROVIDER_ID)) None
            (demo_created\<lparr>mem := demo_override_mem\<rparr>) = (r, w') \<and>
     mem w' = demo_override_mem \<and> trace w' = NativeCreate [FGMemoryUsage, BackendDX12 0x4000] None # demo_trace"
proof -
  let ?w = "demo_created\<lparr>mem := demo_override_mem\<rparr>"
  obtain r w' where 1: "create_original 0x1100 0x10 (Some (0x18, AUTOMATIC_PROVIDER_ID)) None ?w = (r, w')" by force
  have "valid_chain (mem ?w) 0x10"
    by (simp add: demo_override_mem_def valid_chain_def valid_chain_loop.simps demo_mem_at)
  moreover have "entries (mem ?w) 0x10 = [0x10] @ 0x18 # [0x20]"
    by (simp add: demo_override_mem_def entries_def chain_numeral demo_mem_at)
  ultimately show ?thesis
    using create_original_hides_override [OF _ _ _ _ _ 1, of "[0x10]" "[0x20]"] 1
    by (auto simp: demo_created_eq demo_state_def demo_override_mem_def demo_mem_at)
qed

subsection \<open>One provider per context\<close>

lemma trace_steps [simp]:
  "trace (acquire l w) = trace w" "trace (release l w) = trace w" "trace (upd a f w) = trace w"
  "trace (set_fault w) = trace w" "trace (give_back x w) = trace w"
  by (simp_all add: acquire_def release_def upd_def set_fault_def give_back_def split: option.splits)

lemma ctx_locks [simp]: "ctx (acquire l w) a = ctx w a" "ctx (release l w) a = ctx w a"
  by (simp_all add: acquire_def release_def set_fault_def ctx_def)

lemma trace_retire_frame_configs: "trace (retire_frame_configs a f w) = trace w"
proof -
  have "trace (release_frame_config a s v) = trace v" for s v
    by (simp add: release_frame_config_def release_resource_def com_release_def free_memory_def Let_def)
  then have "trace (fold (release_frame_config a) l v) = trace v" for l v
    by (induction l arbitrary: v) auto
  then show ?thesis by (simp add: retire_frame_configs_def Let_def split: prod.splits)
qed

lemma trace_bridge_call: "bridge_call p w = (r, x, w') \<Longrightarrow> trace w' = trace w \<or> trace w' = Sidecar p # trace w"
  by (auto simp: bridge_call_def fsr_fg_api_def load_sidecar_def emit_def Let_def split: prod.splits if_splits)

lemma trace_translated_prepare:
  "translated_prepare a d rest w = (r, w') \<Longrightarrow> trace w' = trace w \<or> (\<exists>p. trace w' = Sidecar p # trace w)"
  by (auto simp: translated_prepare_def Let_def split: sum.splits if_splits prod.splits dest!: trace_bridge_call)

lemma trace_translated_dispatch:
  "translated_dispatch a d rest w = (r, w') \<Longrightarrow> trace w' = trace w \<or> (\<exists>p. trace w' = Sidecar p # trace w)"
  by (auto simp: translated_dispatch_def Let_def split: if_splits prod.splits dest!: trace_bridge_call)

text \<open>C27. Once a context has its provider, dispatches reach that provider only: on a MetalFX context the
  only outside call is one packet to the bridge, on a native or swapchain context it is exactly one native
  dispatch with the application's descriptors.\<close>

theorem dispatch_one_provider:
  assumes "dispatch_context a d rest w = (r, w')"
  shows "(mode (ctx w a) = CONTEXT_METALFX \<longrightarrow> trace w' = trace w \<or> (\<exists>p. trace w' = Sidecar p # trace w)) \<and>
    (mode (ctx w a) = CONTEXT_NATIVE \<or> mode (ctx w a) = CONTEXT_SWAPCHAIN \<longrightarrow>
       trace w' = NativeDispatch (original (ctx w a)) (d # rest) # trace w)"
proof (cases "mode (ctx w a) = MODE_PENDING")
  case False
  define v where "v = acquire (DispatchLock a) (if \<not> in_callback w
    then release (ConfigureLock a) (acquire (ConfigureLock a) w) else w)"
  have v: "ctx v a = ctx w a" "trace v = trace w" by (simp_all add: v_def)
  obtain r1 fr w1 where 1: "dispatch_selected a d rest v = (r1, fr, w1)" by (metis prod_cases3)
  have "trace w' = trace w1"
    using assms False 1
    by (auto simp: dispatch_context_def Let_def v_def trace_retire_frame_configs split: prod.splits option.splits if_splits)
  moreover have "trace w1 = trace v \<or> (\<exists>p. trace w1 = Sidecar p # trace v)" if "mode (ctx v a) = CONTEXT_METALFX"
    using 1 that
    by (auto simp: dispatch_selected_def Let_def split: if_splits prod.splits desc_body.splits
        dest!: trace_translated_prepare trace_translated_dispatch)
  moreover have "trace w1 = NativeDispatch (original (ctx v a)) (d # rest) # trace v" if "mode (ctx v a) \<noteq> CONTEXT_METALFX"
    using 1 that
    by (auto simp: dispatch_selected_def native_dispatch_def native_call_def emit_def Let_def)
  ultimately show ?thesis using v by auto
qed simp

theorem dispatch_one_provider_witness:
  "mode (ctx demo_running 0x1100) = CONTEXT_METALFX \<and>
   (\<exists>r w'. dispatch_context 0x1100 (DispatchFG demo_dispatch) [] demo_running = (r, w') \<and>
     (trace w' = trace demo_running \<or> (\<exists>p. trace w' = Sidecar p # trace demo_running)))"
proof -
  have m: "mode (ctx demo_running 0x1100) = CONTEXT_METALFX" by (simp add: demo_running_eq)
  obtain r w' where "dispatch_context 0x1100 (DispatchFG demo_dispatch) [] demo_running = (r, w')" by force
  with dispatch_one_provider [OF this] m show ?thesis by blast
qed

subsection \<open>Version queries\<close>





end
