(* ===== verification/Sync_State.thy ===== *)
theory Sync_State
  imports Prelude "HOL-Library.Multiset"
begin

text \<open>
  The state of the server's synchronisation engine (server/thread.c, server/event.c,
  server/mutex.c, server/semaphore.c) and the operations every kind of object gives it.

  An object that can be waited on owns a second object, its \<open>sync\<close>, which carries the wait queue
  and the signaled state; objects and syncs live in two stores, partial maps from identities, and a
  freed one is absent. A thread's pending waits form a stack; a queue entry names its thread, the
  depth of its wait in that stack and its index in the wait.

  \<open>fault\<close> is raised, and stays raised, when a C \<open>assert\<close> fails or freed memory is touched. The
  syncs are the server's own (\<open>get_inproc_device_fd() < 0\<close>); keyed events, whose \<open>signaled\<close> callback
  itself wakes threads, are left out.
\<close>

type_synonym tid = nat
type_synonym oid = nat
type_synonym sid = nat
type_synonym pid = nat
type_synonym obj_handle = "32 word"
type_synonym access = "32 word"
type_synonym cookie = "64 word"
type_synonym abstime = "64 word"
type_synonym wait_queue_entry = "tid \<times> nat \<times> nat"

subsection \<open>Status codes, rights and flags\<close>

abbreviation (input) STATUS_ABANDONED_WAIT_0 :: ntstatus where "STATUS_ABANDONED_WAIT_0 \<equiv> 0x80"
abbreviation (input) STATUS_USER_APC :: ntstatus where "STATUS_USER_APC \<equiv> 0xC0"
abbreviation (input) STATUS_KERNEL_APC :: ntstatus where "STATUS_KERNEL_APC \<equiv> 0x100"
abbreviation (input) STATUS_TIMEOUT :: ntstatus where "STATUS_TIMEOUT \<equiv> 0x102"
abbreviation (input) STATUS_PENDING :: ntstatus where "STATUS_PENDING \<equiv> 0x103"
abbreviation (input) STATUS_THREAD_WAS_SUSPENDED :: ntstatus where "STATUS_THREAD_WAS_SUSPENDED \<equiv> 0x40000001"
abbreviation (input) STATUS_MUTANT_NOT_OWNED :: ntstatus where "STATUS_MUTANT_NOT_OWNED \<equiv> 0xC0000046"
abbreviation (input) STATUS_SEMAPHORE_LIMIT_EXCEEDED :: ntstatus where "STATUS_SEMAPHORE_LIMIT_EXCEEDED \<equiv> 0xC0000047"
abbreviation (input) STATUS_SUSPEND_COUNT_EXCEEDED :: ntstatus where "STATUS_SUSPEND_COUNT_EXCEEDED \<equiv> 0xC000004A"
abbreviation (input) STATUS_THREAD_IS_TERMINATING :: ntstatus where "STATUS_THREAD_IS_TERMINATING \<equiv> 0xC000004B"

abbreviation (input) SYNCHRONIZE :: access where "SYNCHRONIZE \<equiv> 0x00100000"
abbreviation (input) EVENT_QUERY_STATE :: access where "EVENT_QUERY_STATE \<equiv> 1"
abbreviation (input) EVENT_MODIFY_STATE :: access where "EVENT_MODIFY_STATE \<equiv> 2"
abbreviation (input) SEMAPHORE_QUERY_STATE :: access where "SEMAPHORE_QUERY_STATE \<equiv> 1"
abbreviation (input) SEMAPHORE_MODIFY_STATE :: access where "SEMAPHORE_MODIFY_STATE \<equiv> 2"
abbreviation (input) MUTANT_QUERY_STATE :: access where "MUTANT_QUERY_STATE \<equiv> 1"

abbreviation (input) SELECT_ALERTABLE :: "32 word" where "SELECT_ALERTABLE \<equiv> 1"
abbreviation (input) SELECT_INTERRUPTIBLE :: "32 word" where "SELECT_INTERRUPTIBLE \<equiv> 2"
abbreviation (input) SELECT_COOPERATIVE_SUSPEND :: "32 word" where "SELECT_COOPERATIVE_SUSPEND \<equiv> 4"

abbreviation (input) INT_MAX :: nat where "INT_MAX \<equiv> 2147483647"
abbreviation (input) MAXIMUM_WAIT_OBJECTS :: nat where "MAXIMUM_WAIT_OBJECTS \<equiv> 64"
abbreviation (input) MAXIMUM_SUSPEND_COUNT :: nat where "MAXIMUM_SUSPEND_COUNT \<equiv> 127"
abbreviation (input) TIMEOUT_INFINITE :: abstime where "TIMEOUT_INFINITE \<equiv> 0x7fffffffffffffff"

subsection \<open>The sync objects\<close>

record event_sync =
  manual :: bool
  signaled :: bool

record mutex_sync =
  owner :: "tid option"
  recursion :: "32 word"
  abandoned :: bool

record semaphore_sync =
  sem_count :: "32 word"
  sem_max :: "32 word"

datatype sync_data =
    Event_sync event_sync
  | Mutex_sync mutex_sync
  | Semaphore_sync semaphore_sync

record sync =
  s_refs :: nat
  s_queue :: "wait_queue_entry list"
  s_data :: sync_data

text \<open>
  The object a handle names. \<open>Other_ops\<close> stands for every further type of the server: one with a sync
  (a process, a thread, an APC) is signaled through \<open>signal_sync\<close> by its own component, one without
  is its own sync and has no \<open>add_queue\<close> callback.
\<close>

datatype object_ops = Event_ops | Mutex_ops | Semaphore_ops | Other_ops

record object =
  o_refs :: nat
  o_ops :: object_ops
  o_sync :: "sid option"

subsection \<open>Threads and their waits\<close>

datatype select_opcode = SELECT_NONE | SELECT_WAIT | SELECT_WAIT_ALL | SELECT_SIGNAL_AND_WAIT

text \<open>\<open>w_objs\<close> are the \<open>obj\<close> fields of \<open>queues\<close>, so that \<open>count\<close> is its length; \<open>w_user\<close> tells whether a
  timer is armed. \<open>t_obj\<close> is the thread's own object header, whose sync is \<open>thread->sync\<close>; a context is
  present while the thread is being suspended.\<close>

record thread_wait =
  w_objs :: "oid list"
  w_flags :: "32 word"
  w_abandoned :: bool
  w_select :: select_opcode
  w_cookie :: cookie
  w_when :: abstime
  w_user :: bool
  w_status :: ntstatus

record thread_context =
  cooperative :: bool
  native_flags :: "32 word"
  wow_flags :: "32 word"

record thread =
  t_obj :: oid
  process :: pid
  suspend :: nat
  bypass_proc_suspend :: bool
  ctx :: "thread_context option"
  suspend_cookie :: cookie
  system_apc :: "nat list"
  user_apc :: "nat list"
  mutex_list :: "sid list"
  terminated :: bool
  waits :: "thread_wait list"

record engine =
  threads :: "thread list"
  objs :: "oid \<Rightarrow> object option"
  syncs :: "sid \<Rightarrow> sync option"
  handles :: "((pid \<times> obj_handle) \<times> oid \<times> access) list"
  proc_suspend :: "pid \<Rightarrow> nat"
  current_time :: abstime
  monotonic_time :: abstime
  errors :: env
  sent :: "(tid \<times> cookie \<times> ntstatus) list"
  fault :: bool

definition idle_thread :: thread where
  "idle_thread = \<lparr>t_obj = 0, process = 0, suspend = 0, bypass_proc_suspend = False, ctx = None, suspend_cookie = 0,
     system_apc = [], user_apc = [], mutex_list = [], terminated = False, waits = []\<rparr>"

definition thread_of :: "engine \<Rightarrow> tid \<Rightarrow> thread" where
  "thread_of w t = (if t < length (threads w) then threads w ! t else idle_thread)"

definition upd_thread :: "tid \<Rightarrow> (thread \<Rightarrow> thread) \<Rightarrow> engine \<Rightarrow> engine" where
  "upd_thread t f w = w\<lparr>threads := (threads w)[t := f (thread_of w t)]\<rparr>"

definition upd_sync :: "sid \<Rightarrow> (sync \<Rightarrow> sync) \<Rightarrow> engine \<Rightarrow> engine" where
  "upd_sync s f w = w\<lparr>syncs := (syncs w)(s := map_option f (syncs w s))\<rparr>"

definition set_err :: "ntstatus \<Rightarrow> engine \<Rightarrow> engine" where
  "set_err st w = w\<lparr>errors := set_error st (errors w)\<rparr>"

definition get_err :: "engine \<Rightarrow> ntstatus" where
  "get_err w = cur_error (errors w)"

definition failed :: "engine \<Rightarrow> engine" where
  "failed w = w\<lparr>fault := True\<rparr>"

definition assert_that :: "bool \<Rightarrow> engine \<Rightarrow> engine" where
  "assert_that b w = (if b then w else failed w)"

text \<open>\<open>list_add_head\<close> and \<open>list_remove\<close> on the list of mutexes a thread owns.\<close>

definition add_mutex :: "sid \<Rightarrow> thread \<Rightarrow> thread" where
  "add_mutex s th = th\<lparr>mutex_list := s # mutex_list th\<rparr>"

definition remove_mutex :: "sid \<Rightarrow> thread \<Rightarrow> thread" where
  "remove_mutex s th = th\<lparr>mutex_list := remove1 s (mutex_list th)\<rparr>"

subsection \<open>Reference counts (server/object.c)\<close>

definition grab_sync :: "sid \<Rightarrow> engine \<Rightarrow> engine" where
  "grab_sync s w =
     (case syncs w s of
        None \<Rightarrow> failed w
      | Some sy \<Rightarrow> assert_that (s_refs sy < INT_MAX) (upd_sync s (\<lambda>sy. sy\<lparr>s_refs := Suc (s_refs sy)\<rparr>) w))"

definition sync_destroy :: "sync_data \<Rightarrow> engine \<Rightarrow> engine" where
  "sync_destroy d w = (case d of Mutex_sync m \<Rightarrow> assert_that (recursion m = 0) w | _ \<Rightarrow> w)"

definition release_sync :: "sid \<Rightarrow> engine \<Rightarrow> engine" where
  "release_sync s w =
     (case syncs w s of
        None \<Rightarrow> failed w
      | Some sy \<Rightarrow>
          if s_refs sy = 0 then failed w
          else if s_refs sy = 1 then
            (assert_that (s_queue sy = []) (sync_destroy (s_data sy) w))\<lparr>syncs := (syncs w)(s := None)\<rparr>
          else upd_sync s (\<lambda>sy. sy\<lparr>s_refs := s_refs sy - 1\<rparr>) w)"

definition grab_obj :: "oid \<Rightarrow> engine \<Rightarrow> engine" where
  "grab_obj x w =
     (case objs w x of
        None \<Rightarrow> failed w
      | Some ob \<Rightarrow> assert_that (o_refs ob < INT_MAX) (w\<lparr>objs := (objs w)(x \<mapsto> ob\<lparr>o_refs := Suc (o_refs ob)\<rparr>)\<rparr>))"

definition handle_count :: "engine \<Rightarrow> oid \<Rightarrow> nat" where
  "handle_count w x = length (filter (\<lambda>h. fst (snd h) = x) (handles w))"

definition obj_destroy :: "object \<Rightarrow> engine \<Rightarrow> engine" where
  "obj_destroy ob w = (case o_sync ob of None \<Rightarrow> w | Some s \<Rightarrow> release_sync s w)"

definition release_obj :: "oid \<Rightarrow> engine \<Rightarrow> engine" where
  "release_obj x w =
     (case objs w x of
        None \<Rightarrow> failed w
      | Some ob \<Rightarrow>
          if o_refs ob = 0 then failed w
          else if o_refs ob = 1 then
            (let w1 = obj_destroy ob (assert_that (handle_count w x = 0) w)
             in w1\<lparr>objs := (objs w1)(x := None)\<rparr>)
          else w\<lparr>objs := (objs w)(x \<mapsto> ob\<lparr>o_refs := o_refs ob - 1\<rparr>)\<rparr>)"

subsection \<open>Events (server/event.c)\<close>

definition event_sync_signaled :: "event_sync \<Rightarrow> bool" where
  "event_sync_signaled ev = signaled ev"

definition event_sync_satisfied :: "event_sync \<Rightarrow> event_sync" where
  "event_sync_satisfied ev = (if \<not> manual ev then ev\<lparr>signaled := False\<rparr> else ev)"

subsection \<open>Mutexes (server/mutex.c)\<close>

definition mutex_sync_signaled :: "mutex_sync \<Rightarrow> tid \<Rightarrow> bool" where
  "mutex_sync_signaled m t \<longleftrightarrow> recursion m = 0 \<or> owner m = Some t"

definition do_grab :: "sid \<Rightarrow> mutex_sync \<Rightarrow> tid \<Rightarrow> engine \<Rightarrow> engine" where
  "do_grab s m t w =
     (let w0 = assert_that (recursion m = 0 \<or> owner m = Some t) w;
          m1 = m\<lparr>recursion := recursion m + 1\<rparr>
      in if recursion m = 0 then
           let w1 = grab_sync s (assert_that (owner m = None) w0);
               w2 = upd_sync s (\<lambda>sy. sy\<lparr>s_data := Mutex_sync (m1\<lparr>owner := Some t\<rparr>)\<rparr>) w1
           in upd_thread t (add_mutex s) w2
         else upd_sync s (\<lambda>sy. sy\<lparr>s_data := Mutex_sync m1\<rparr>) w0)"

definition clear_abandoned :: "sync \<Rightarrow> sync" where
  "clear_abandoned sy =
     (case s_data sy of Mutex_sync m \<Rightarrow> sy\<lparr>s_data := Mutex_sync (m\<lparr>abandoned := False\<rparr>)\<rparr> | _ \<Rightarrow> sy)"

definition mutex_sync_satisfied ::
  "sid \<Rightarrow> mutex_sync \<Rightarrow> tid \<Rightarrow> thread_wait \<Rightarrow> engine \<Rightarrow> thread_wait \<times> engine" where
  "mutex_sync_satisfied s m t wt w =
     (let w1 = do_grab s m t w;
          wt1 = (if abandoned m then wt\<lparr>w_abandoned := True\<rparr> else wt)
      in (wt1, upd_sync s clear_abandoned w1))"

subsection \<open>Semaphores (server/semaphore.c)\<close>

definition semaphore_sync_signaled :: "semaphore_sync \<Rightarrow> bool" where
  "semaphore_sync_signaled sem \<longleftrightarrow> sem_count sem > 0"

definition semaphore_sync_satisfied :: "sid \<Rightarrow> semaphore_sync \<Rightarrow> engine \<Rightarrow> engine" where
  "semaphore_sync_satisfied s sem w =
     upd_sync s (\<lambda>sy. sy\<lparr>s_data := Semaphore_sync (sem\<lparr>sem_count := sem_count sem - 1\<rparr>)\<rparr>)
       (assert_that (sem_count sem \<noteq> 0) w)"

subsection \<open>The callbacks through an object's sync (server/thread.c)\<close>

definition sync_signaled :: "sync_data \<Rightarrow> tid \<Rightarrow> bool" where
  "sync_signaled d t =
     (case d of
        Event_sync ev \<Rightarrow> event_sync_signaled ev
      | Mutex_sync m \<Rightarrow> mutex_sync_signaled m t
      | Semaphore_sync sem \<Rightarrow> semaphore_sync_signaled sem)"

definition sync_satisfied ::
  "sid \<Rightarrow> sync_data \<Rightarrow> tid \<Rightarrow> thread_wait \<Rightarrow> engine \<Rightarrow> thread_wait \<times> engine" where
  "sync_satisfied s d t wt w =
     (case d of
        Event_sync ev \<Rightarrow> (wt, upd_sync s (\<lambda>sy. sy\<lparr>s_data := Event_sync (event_sync_satisfied ev)\<rparr>) w)
      | Mutex_sync m \<Rightarrow> mutex_sync_satisfied s m t wt w
      | Semaphore_sync sem \<Rightarrow> (wt, semaphore_sync_satisfied s sem w))"

text \<open>\<open>get_obj_sync\<close>: the sync with a reference of its own. \<open>None\<close> is an object that is its own sync.\<close>

definition sync_of :: "engine \<Rightarrow> oid \<Rightarrow> sid option" where
  "sync_of w x = Option.bind (objs w x) o_sync"

definition get_obj_sync :: "oid \<Rightarrow> engine \<Rightarrow> sid option \<times> engine" where
  "get_obj_sync x w =
     (case sync_of w x of
        None \<Rightarrow> (None, grab_obj x w)
      | Some s \<Rightarrow> (Some s, grab_sync s w))"

definition object_sync_signaled :: "oid \<Rightarrow> tid \<Rightarrow> engine \<Rightarrow> bool \<times> engine" where
  "object_sync_signaled x t w =
     (case get_obj_sync x w of
        (None, w1) \<Rightarrow> (False, failed w1)
      | (Some s, w1) \<Rightarrow>
          (case syncs w1 s of
             None \<Rightarrow> (False, failed w1)
           | Some sy \<Rightarrow> (sync_signaled (s_data sy) t, release_sync s w1)))"

definition object_sync_satisfied :: "oid \<Rightarrow> tid \<Rightarrow> thread_wait \<times> engine \<Rightarrow> thread_wait \<times> engine" where
  "object_sync_satisfied x t = (\<lambda>(wt, w).
     (case get_obj_sync x w of
        (None, w1) \<Rightarrow> (wt, failed w1)
      | (Some s, w1) \<Rightarrow>
          (case syncs w1 s of
             None \<Rightarrow> (wt, failed w1)
           | Some sy \<Rightarrow> (case sync_satisfied s (s_data sy) t wt w1 of (wt1, w2) \<Rightarrow> (wt1, release_sync s w2)))))"

definition add_queue :: "wait_queue_entry \<Rightarrow> sync \<Rightarrow> sync" where
  "add_queue e sy = sy\<lparr>s_queue := s_queue sy @ [e]\<rparr>"

definition remove_queue :: "wait_queue_entry \<Rightarrow> sync \<Rightarrow> sync" where
  "remove_queue e sy = sy\<lparr>s_queue := remove1 e (s_queue sy)\<rparr>"

definition object_sync_add_queue :: "oid \<Rightarrow> wait_queue_entry \<Rightarrow> engine \<Rightarrow> bool \<times> engine" where
  "object_sync_add_queue x e w =
     (case get_obj_sync x w of
        (None, w1) \<Rightarrow> (False, release_obj x (set_err STATUS_OBJECT_TYPE_MISMATCH w1))
      | (Some s, w1) \<Rightarrow> (True, release_sync s (upd_sync s (add_queue e) w1)))"

definition object_sync_remove_queue :: "oid \<Rightarrow> wait_queue_entry \<Rightarrow> engine \<Rightarrow> engine" where
  "object_sync_remove_queue x e w =
     (case get_obj_sync x w of
        (None, w1) \<Rightarrow> failed w1
      | (Some s, w1) \<Rightarrow> release_sync s (upd_sync s (remove_queue e) w1))"

end
