(* ===== verification/Sync_Wait.thy ===== *)
theory Sync_Wait
  imports Sync_State
begin

text \<open>
  Waiting and waking (server/thread.c): building and ending a wait, the condition of a wait, waking
  a thread and waking the threads queued on a sync. The loops of \<open>wake_thread\<close> and \<open>wake_up\<close> are
  total: every turn of the first one ends a wait of the thread, and every restart of the second one
  follows the end of a wait.

  The pipe to the client never breaks: \<open>send_thread_wakeup\<close> records the message, and its failure
  branch, which kills the thread, is not taken.
\<close>

subsection \<open>Suspension\<close>

definition is_thread_suspended :: "engine \<Rightarrow> thread \<Rightarrow> bool" where
  "is_thread_suspended w th =
     (if (case ctx th of Some c \<Rightarrow> cooperative c | None \<Rightarrow> False) then False
      else if suspend th \<noteq> 0 then True
      else \<not> bypass_proc_suspend th \<and> proc_suspend w (process th) \<noteq> 0)"

subsection \<open>Ending a wait\<close>

fun satisfy_all :: "oid list \<Rightarrow> tid \<Rightarrow> thread_wait \<times> engine \<Rightarrow> thread_wait \<times> engine" where
  "satisfy_all [] t ww = ww"
| "satisfy_all (x # xs) t ww = satisfy_all xs t (object_sync_satisfied x t ww)"

fun leave_queues :: "tid \<Rightarrow> nat \<Rightarrow> nat \<Rightarrow> oid list \<Rightarrow> engine \<Rightarrow> engine" where
  "leave_queues t d i [] w = w"
| "leave_queues t d i (x # xs) w =
     leave_queues t d (Suc i) xs (release_obj x (object_sync_remove_queue x (t, d, i) w))"

definition satisfy_wait :: "tid \<Rightarrow> ntstatus \<Rightarrow> thread_wait \<Rightarrow> engine \<Rightarrow> ntstatus \<times> engine" where
  "satisfy_wait t st wt w =
     (if unat st < length (w_objs wt) then
        let wt0 = wt\<lparr>w_status := st\<rparr>;
            (wt1, w1) = (if w_select wt = SELECT_WAIT_ALL then satisfy_all (w_objs wt) t (wt0, w)
                         else object_sync_satisfied (w_objs wt ! unat st) t (wt0, w))
        in (w_status wt1 + (if w_abandoned wt1 then STATUS_ABANDONED_WAIT_0 else 0), w1)
      else (st, w))"

definition end_wait :: "tid \<Rightarrow> ntstatus \<Rightarrow> engine \<Rightarrow> ntstatus \<times> engine" where
  "end_wait t st w =
     (case waits (thread_of w t) of
        [] \<Rightarrow> (st, failed w)
      | wt # rest \<Rightarrow>
          let w1 = upd_thread t (\<lambda>th. th\<lparr>waits := rest\<rparr>) w;
              (st1, w2) = satisfy_wait t st wt w1
          in (st1, leave_queues t (length rest) 0 (w_objs wt) w2))"

subsection \<open>Building a wait\<close>

definition push_obj :: "oid \<Rightarrow> thread \<Rightarrow> thread" where
  "push_obj x th =
     (case waits th of [] \<Rightarrow> th | wt # rest \<Rightarrow> th\<lparr>waits := wt\<lparr>w_objs := w_objs wt @ [x]\<rparr> # rest\<rparr>)"

fun enter_queues :: "tid \<Rightarrow> nat \<Rightarrow> nat \<Rightarrow> oid list \<Rightarrow> engine \<Rightarrow> bool \<times> engine" where
  "enter_queues t d i [] w = (True, w)"
| "enter_queues t d i (x # xs) w =
     (case object_sync_add_queue x (t, d, i) w of
        (False, w1) \<Rightarrow> (False, snd (end_wait t (get_err w1) w1))
      | (True, w1) \<Rightarrow> enter_queues t d (Suc i) xs (upd_thread t (push_obj x) (grab_obj x w1)))"

definition new_wait :: "select_opcode \<Rightarrow> 32 word \<Rightarrow> abstime \<Rightarrow> thread_wait" where
  "new_wait op fl timeout =
     \<lparr>w_objs = [], w_flags = fl, w_abandoned = False, w_select = op, w_cookie = 0, w_when = timeout,
      w_user = False, w_status = 0\<rparr>"

definition wait_on ::
  "tid \<Rightarrow> select_opcode \<Rightarrow> oid list \<Rightarrow> 32 word \<Rightarrow> abstime \<Rightarrow> engine \<Rightarrow> bool \<times> engine" where
  "wait_on t op xs fl timeout w =
     (case mem_alloc (errors w) of
        (False, e) \<Rightarrow> (False, w\<lparr>errors := e\<rparr>)
      | (True, e) \<Rightarrow>
          let w1 = upd_thread t (\<lambda>th. th\<lparr>waits := new_wait op fl timeout # waits th\<rparr>) (w\<lparr>errors := e\<rparr>)
          in case enter_queues t (length (waits (thread_of w t))) 0 xs w1 of
               (False, w2) \<Rightarrow> (False, w2)
             | (True, w2) \<Rightarrow> (waits (thread_of w2 t) \<noteq> [], w2))"

text \<open>
  The handle table of the current process as this component sees it: \<open>get_handle_obj\<close> for ordinary
  handles, with its errors, and the access rights of a handle. The tables themselves are the subject of
  the theories \<open>Handle_Table\<close> and \<open>Handle\<close>.
\<close>

definition find_handle :: "engine \<Rightarrow> pid \<Rightarrow> obj_handle \<Rightarrow> (oid \<times> access) option" where
  "find_handle w p h = map_of (handles w) (p, h)"

definition get_handle_object ::
  "pid \<Rightarrow> obj_handle \<Rightarrow> access \<Rightarrow> object_ops option \<Rightarrow> engine \<Rightarrow> oid option \<times> engine" where
  "get_handle_object p h acc ops w =
     (case find_handle w p h of
        None \<Rightarrow> (None, set_err STATUS_INVALID_HANDLE w)
      | Some (x, a) \<Rightarrow>
          if ops \<noteq> None \<and> map_option o_ops (objs w x) \<noteq> ops then (None, set_err STATUS_OBJECT_TYPE_MISMATCH w)
          else if a AND acc \<noteq> acc then (None, set_err STATUS_ACCESS_DENIED w)
          else (Some x, grab_obj x w))"

fun get_objects :: "pid \<Rightarrow> obj_handle list \<Rightarrow> oid list \<Rightarrow> engine \<Rightarrow> bool \<times> oid list \<times> engine" where
  "get_objects p [] acc w = (True, acc, w)"
| "get_objects p (h # hs) acc w =
     (case get_handle_object p h SYNCHRONIZE None w of
        (None, w1) \<Rightarrow> (False, acc, w1)
      | (Some x, w1) \<Rightarrow> get_objects p hs (acc @ [x]) w1)"

definition wait_on_handles ::
  "tid \<Rightarrow> select_opcode \<Rightarrow> obj_handle list \<Rightarrow> 32 word \<Rightarrow> abstime \<Rightarrow> engine \<Rightarrow> bool \<times> engine" where
  "wait_on_handles t op hs fl timeout w =
     (let w0 = assert_that (length hs \<le> MAXIMUM_WAIT_OBJECTS) w;
          (found, xs, w1) = get_objects (process (thread_of w t)) hs [] w0;
          (ret, w2) = (if found then wait_on t op xs fl timeout w1 else (False, w1))
      in (ret, fold release_obj (rev xs) w2))"

subsection \<open>The condition of a wait\<close>

fun all_signaled :: "oid list \<Rightarrow> tid \<Rightarrow> engine \<Rightarrow> bool \<times> engine" where
  "all_signaled [] t w = (True, w)"
| "all_signaled (x # xs) t w =
     (case object_sync_signaled x t w of
        (b, w1) \<Rightarrow> (case all_signaled xs t w1 of (c, w2) \<Rightarrow> (b \<and> c, w2)))"

fun first_signaled :: "nat \<Rightarrow> oid list \<Rightarrow> tid \<Rightarrow> engine \<Rightarrow> nat option \<times> engine" where
  "first_signaled i [] t w = (None, w)"
| "first_signaled i (x # xs) t w =
     (case object_sync_signaled x t w of
        (True, w1) \<Rightarrow> (Some i, w1)
      | (False, w1) \<Rightarrow> first_signaled (Suc i) xs t w1)"

definition wait_expired :: "engine \<Rightarrow> abstime \<Rightarrow> bool" where
  "wait_expired w timeout \<longleftrightarrow>
     0 \<le> sint timeout \<and> sint timeout \<le> sint (current_time w) \<or>
     sint timeout < 0 \<and> sint (- timeout) \<le> sint (monotonic_time w)"

definition check_objects :: "thread_wait \<Rightarrow> tid \<Rightarrow> engine \<Rightarrow> ntstatus option \<times> engine" where
  "check_objects wt t w =
     (if w_select wt = SELECT_WAIT_ALL then
        (case all_signaled (w_objs wt) t w of (b, w1) \<Rightarrow> (if b then Some 0 else None, w1))
      else (case first_signaled 0 (w_objs wt) t w of (r, w1) \<Rightarrow> (map_option of_nat r, w1)))"

definition check_alerts :: "thread_wait \<Rightarrow> thread \<Rightarrow> engine \<Rightarrow> ntstatus option" where
  "check_alerts wt th w =
     (if w_flags wt AND SELECT_ALERTABLE \<noteq> 0 \<and> user_apc th \<noteq> [] then Some STATUS_USER_APC
      else if wait_expired w (w_when wt) then Some STATUS_TIMEOUT
      else None)"

text \<open>\<open>None\<close> is the result \<open>-1\<close>: the wait goes on.\<close>

definition check_wait :: "tid \<Rightarrow> engine \<Rightarrow> ntstatus option \<times> engine" where
  "check_wait t w =
     (let th = thread_of w t in
      case waits th of
        [] \<Rightarrow> (None, failed w)
      | wt # _ \<Rightarrow>
          if w_flags wt AND SELECT_INTERRUPTIBLE \<noteq> 0 \<and> system_apc th \<noteq> [] then (Some STATUS_KERNEL_APC, w)
          else if w_flags wt AND SELECT_COOPERATIVE_SUSPEND \<noteq> 0 \<and> ctx th \<noteq> None then
            (Some STATUS_THREAD_WAS_SUSPENDED,
             upd_thread t (\<lambda>th. th\<lparr>ctx := map_option (\<lambda>c. c\<lparr>cooperative := True\<rparr>) (ctx th)\<rparr>) w)
          else if is_thread_suspended w th then (None, w)
          else (case check_objects wt t w of
                  (Some st, w1) \<Rightarrow> (Some st, w1)
                | (None, w1) \<Rightarrow> (check_alerts wt th w1, w1)))"

subsection \<open>Waking a thread\<close>

definition send_thread_wakeup :: "tid \<Rightarrow> cookie \<Rightarrow> ntstatus \<Rightarrow> engine \<Rightarrow> engine" where
  "send_thread_wakeup t ck st w =
     (case ctx (thread_of w t) of
        None \<Rightarrow> w\<lparr>sent := sent w @ [(t, ck, st)]\<rparr>
      | Some c \<Rightarrow>
          if suspend_cookie (thread_of w t) = ck \<and> st \<noteq> STATUS_KERNEL_APC \<and> st \<noteq> STATUS_USER_APC then
            if native_flags c = 0 \<and> wow_flags c = 0
            then (upd_thread t (\<lambda>th. th\<lparr>ctx := None\<rparr>) w)\<lparr>sent := sent w @ [(t, ck, st)]\<rparr>
            else w\<lparr>sent := sent w @ [(t, ck, STATUS_KERNEL_APC)]\<rparr>
          else w\<lparr>sent := sent w @ [(t, ck, st)]\<rparr>)"

definition stacks :: "engine \<Rightarrow> thread_wait list list" where
  "stacks w = map waits (threads w)"

definition total_waits :: "engine \<Rightarrow> nat" where
  "total_waits w = sum_list (map length (stacks w))"

lemma thread_of_waits: "waits (thread_of w t) = (if t < length (stacks w) then stacks w ! t else [])"
  by (simp add: thread_of_def stacks_def idle_thread_def)

lemma stacks_simps [simp]:
  "stacks (upd_sync s f w) = stacks w"
  "stacks (failed w) = stacks w"
  "stacks (assert_that b w) = stacks w"
  "stacks (set_err st w) = stacks w"
  "stacks (grab_sync s w) = stacks w"
  "stacks (w\<lparr>objs := ob\<rparr>) = stacks w"
  "stacks (w\<lparr>syncs := sy\<rparr>) = stacks w"
  "stacks (w\<lparr>errors := er\<rparr>) = stacks w"
  "stacks (w\<lparr>sent := se\<rparr>) = stacks w"
  by (simp_all add: stacks_def upd_sync_def failed_def assert_that_def set_err_def grab_sync_def
      split: option.splits)

lemma stacks_release_sync [simp]: "stacks (release_sync s w) = stacks w"
  by (simp add: release_sync_def sync_destroy_def split: option.splits sync_data.splits)

lemma stacks_grab_obj [simp]: "stacks (grab_obj x w) = stacks w"
  by (simp add: grab_obj_def split: option.splits)

lemma stacks_release_obj [simp]: "stacks (release_obj x w) = stacks w"
  by (simp add: release_obj_def obj_destroy_def Let_def split: option.splits)

lemma stacks_upd_thread: "stacks (upd_thread t f w) = (stacks w)[t := waits (f (thread_of w t))]"
  by (simp add: stacks_def upd_thread_def map_update)

lemma stacks_upd_thread_same:
  assumes "\<And>th. waits (f th) = waits th"
  shows "stacks (upd_thread t f w) = stacks w"
  by (cases "t < length (stacks w)") (simp_all add: stacks_upd_thread assms thread_of_waits list_update_beyond)

lemma stacks_do_grab [simp]: "stacks (do_grab s m t w) = stacks w"
  by (simp add: do_grab_def Let_def stacks_upd_thread_same add_mutex_def)

lemma stacks_sync_satisfied: "sync_satisfied s d t wt w = (wt', w') \<Longrightarrow> stacks w' = stacks w"
  by (auto simp: sync_satisfied_def mutex_sync_satisfied_def semaphore_sync_satisfied_def Let_def
      split: sync_data.splits)

lemma stacks_get_obj_sync: "get_obj_sync x w = (so, w') \<Longrightarrow> stacks w' = stacks w"
  by (auto simp: get_obj_sync_def split: option.splits)

lemma stacks_object_sync_signaled: "object_sync_signaled x t w = (b, w') \<Longrightarrow> stacks w' = stacks w"
  by (auto simp: object_sync_signaled_def stacks_get_obj_sync split: prod.splits option.splits)

lemma stacks_object_sync_satisfied:
  "object_sync_satisfied x t (wt, w) = (wt', w') \<Longrightarrow> stacks w' = stacks w"
  by (auto simp: object_sync_satisfied_def stacks_sync_satisfied stacks_get_obj_sync
      split: prod.splits option.splits)

lemma stacks_satisfy_all: "satisfy_all xs t (wt, w) = (wt', w') \<Longrightarrow> stacks w' = stacks w"
proof (induction xs arbitrary: wt w)
  case (Cons x xs)
  obtain wt1 w1 where 1: "object_sync_satisfied x t (wt, w) = (wt1, w1)"
    by fastforce
  with Cons show ?case
    by (simp add: stacks_object_sync_satisfied [OF 1])
qed simp

lemma stacks_satisfy_wait: "satisfy_wait t st wt w = (st', w') \<Longrightarrow> stacks w' = stacks w"
  by (auto simp: satisfy_wait_def Let_def split: if_splits prod.splits
      dest: stacks_satisfy_all stacks_object_sync_satisfied)

lemma stacks_remove_queue [simp]: "stacks (object_sync_remove_queue x e w) = stacks w"
  by (auto simp: object_sync_remove_queue_def split: prod.splits option.splits dest: stacks_get_obj_sync)

lemma stacks_leave_queues [simp]: "stacks (leave_queues t d i xs w) = stacks w"
  by (induction t d i xs w rule: leave_queues.induct) simp_all

lemma stacks_end_wait:
  assumes "end_wait t st w = (st', w')"
  shows "stacks w' = (stacks w)[t := tl (waits (thread_of w t))]"
proof (cases "waits (thread_of w t)")
  case Nil
  with assms show ?thesis
    by (cases "t < length (stacks w)")
      (auto simp: end_wait_def thread_of_waits list_update_beyond list_update_same_conv [THEN iffD2])
next
  case (Cons wt rest)
  let ?w1 = "upd_thread t (\<lambda>th. th\<lparr>waits := rest\<rparr>) w"
  obtain st1 w2 where 2: "satisfy_wait t st wt ?w1 = (st1, w2)"
    by fastforce
  from assms Cons 2 have "w' = leave_queues t (length rest) 0 (w_objs wt) w2"
    by (simp add: end_wait_def)
  with stacks_satisfy_wait [OF 2] Cons show ?thesis
    by (simp add: stacks_upd_thread)
qed

lemma stacks_all_signaled: "all_signaled xs t w = (b, w') \<Longrightarrow> stacks w' = stacks w"
proof (induction xs arbitrary: w b)
  case (Cons x xs)
  obtain b1 w1 where 1: "object_sync_signaled x t w = (b1, w1)"
    by fastforce
  obtain b2 w2 where 2: "all_signaled xs t w1 = (b2, w2)"
    by fastforce
  from Cons 1 2 show ?case
    by (auto dest: stacks_object_sync_signaled)
qed simp

lemma stacks_first_signaled: "first_signaled i xs t w = (r, w') \<Longrightarrow> stacks w' = stacks w"
  by (induction i xs t w rule: first_signaled.induct)
    (auto split: prod.splits bool.splits dest: stacks_object_sync_signaled)

lemma stacks_check_objects: "check_objects wt t w = (r, w') \<Longrightarrow> stacks w' = stacks w"
  by (auto simp: check_objects_def split: if_splits prod.splits dest: stacks_all_signaled stacks_first_signaled)

lemma stacks_check_wait:
  assumes "check_wait t w = (r, w')"
  shows "stacks w' = stacks w"
proof (cases "waits (thread_of w t)")
  case (Cons wt rest)
  obtain r1 w1 where 1: "check_objects wt t w = (r1, w1)"
    by fastforce
  from assms Cons 1 show ?thesis
    by (auto simp: check_wait_def Let_def stacks_upd_thread_same split: if_splits option.splits
        dest: stacks_check_objects)
qed (use assms in \<open>auto simp: check_wait_def\<close>)

lemma stacks_send_thread_wakeup [simp]: "stacks (send_thread_wakeup t ck st w) = stacks w"
  by (simp add: send_thread_wakeup_def stacks_upd_thread_same split: option.splits)

definition end_and_send :: "tid \<Rightarrow> ntstatus \<Rightarrow> engine \<Rightarrow> engine" where
  "end_and_send t st w =
     (let ck = w_cookie (hd (waits (thread_of w t)));
          (st1, w1) = end_wait t st w
      in if ck \<noteq> 0 then send_thread_wakeup t ck st1 w1 else w1)"

lemma stacks_end_and_send:
  "stacks (end_and_send t st w) = (stacks w)[t := tl (waits (thread_of w t))]"
  by (auto simp: end_and_send_def Let_def split: prod.splits dest: stacks_end_wait)

function wake_thread :: "tid \<Rightarrow> engine \<Rightarrow> nat \<times> engine" where
  "wake_thread t w =
     (if waits (thread_of w t) = [] then (0, w)
      else case check_wait t w of
             (None, w1) \<Rightarrow> (0, w1)
           | (Some st, w1) \<Rightarrow> (case wake_thread t (end_and_send t st w1) of (n, w2) \<Rightarrow> (Suc n, w2)))"
  by pat_completeness auto
termination
proof (relation "measure (\<lambda>(t, w). length (waits (thread_of w t)))", goal_cases)
  case (2 t w r w1 st)
  then have "stacks w1 = stacks w"
    by (metis stacks_check_wait)
  with 2 show ?case
    by (auto simp: thread_of_waits stacks_end_and_send split: if_splits)
qed simp

declare wake_thread.simps [simp del]

text \<open>The timer of the wait at depth \<open>d\<close> fires.\<close>

definition disarm :: "nat \<Rightarrow> thread \<Rightarrow> thread" where
  "disarm d th =
     (let i = length (waits th) - Suc d
      in if d < length (waits th) then th\<lparr>waits := (waits th)[i := (waits th ! i)\<lparr>w_user := False\<rparr>]\<rparr> else th)"

definition thread_timeout :: "tid \<Rightarrow> nat \<Rightarrow> engine \<Rightarrow> engine" where
  "thread_timeout t d w =
     (let w1 = upd_thread t (disarm d) w;
          th = thread_of w1 t
      in if Suc d \<noteq> length (waits th) then w1
         else if is_thread_suspended w1 th then w1
         else let ck = w_cookie (hd (waits th));
                  w2 = assert_that (ck \<noteq> 0) (snd (end_wait t STATUS_TIMEOUT w1))
              in snd (wake_thread t (send_thread_wakeup t ck STATUS_TIMEOUT w2)))"

subsection \<open>Waking the threads of a queue\<close>

definition queue_of :: "engine \<Rightarrow> sid \<Rightarrow> wait_queue_entry list" where
  "queue_of w s = (case syncs w s of None \<Rightarrow> [] | Some sy \<Rightarrow> s_queue sy)"

lemma total_waits_end_and_send:
  assumes "waits (thread_of w t) \<noteq> []"
  shows "total_waits (end_and_send t st w) < total_waits w"
proof -
  have t: "t < length (stacks w)" and ne: "stacks w ! t \<noteq> []"
    using assms by (auto simp: thread_of_waits split: if_splits)
  have "length (stacks w ! t) \<le> sum_list (map length (stacks w))"
    using elem_le_sum_list [of t "map length (stacks w)"] t by simp
  moreover have "0 < length (stacks w ! t)"
    using ne by simp
  ultimately show ?thesis
    unfolding total_waits_def stacks_end_and_send thread_of_waits
    using t by (simp del: length_0_conv length_greater_0_conv add: map_update sum_list_update)
qed

lemma wake_thread_waits:
  "wake_thread t w = (n, w') \<Longrightarrow> total_waits w' + n \<le> total_waits w"
proof (induction t w arbitrary: n w' rule: wake_thread.induct)
  case (1 t w)
  show ?case
  proof (cases "waits (thread_of w t) = []")
    case True
    with 1(2) show ?thesis
      by (simp add: wake_thread.simps)
  next
    case False
    obtain r w1 where c: "check_wait t w = (r, w1)"
      by fastforce
    then have s: "stacks w1 = stacks w"
      by (rule stacks_check_wait)
    show ?thesis
    proof (cases r)
      case None
      with False c 1(2) s show ?thesis
        by (simp add: wake_thread.simps [of t w] total_waits_def)
    next
      case (Some st)
      obtain m w2 where r: "wake_thread t (end_and_send t st w1) = (m, w2)"
        by fastforce
      from 1(2) False c Some r have "n = Suc m" "w' = w2"
        by (simp_all add: wake_thread.simps [of t w])
      moreover have "total_waits w2 + m \<le> total_waits (end_and_send t st w1)"
        using 1(1) [OF False c [symmetric] Some r] .
      moreover have "total_waits (end_and_send t st w1) < total_waits w"
        using total_waits_end_and_send [of w1 t st] False s by (simp add: thread_of_waits total_waits_def cong: if_cong)
      ultimately show ?thesis
        by simp
    qed
  qed
qed

function wake_up_loop :: "sid \<Rightarrow> int \<Rightarrow> wait_queue_entry list \<Rightarrow> engine \<Rightarrow> engine" where
  "wake_up_loop s most [] w = w"
| "wake_up_loop s most (e # es) w =
     (case wake_thread (fst e) w of
        (n, w1) \<Rightarrow>
          if n = 0 then wake_up_loop s most es w1
          else if most \<noteq> 0 \<and> most - 1 = 0 then w1
          else if syncs w1 s = None then failed w1
          else wake_up_loop s (if most \<noteq> 0 then most - 1 else 0) (queue_of w1 s) w1)"
  by pat_completeness auto
termination
proof (relation "measures [\<lambda>(s, most, es, w). total_waits w, \<lambda>(s, most, es, w). length es]", goal_cases)
  case (2 s most e es w n w1)
  then have "total_waits w1 \<le> total_waits w"
    using wake_thread_waits [of "fst e" w n w1] by simp
  then show ?case
    by auto
next
  case (3 s most e es w n w1)
  then show ?case
    using wake_thread_waits [of "fst e" w n w1] by simp
qed simp

declare wake_up_loop.simps(2) [simp del]

definition wake_up :: "sid \<Rightarrow> int \<Rightarrow> engine \<Rightarrow> engine" where
  "wake_up s most w =
     (if syncs w s = None then failed w else wake_up_loop s most (queue_of w s) w)"

end
