(* ===== verification/Sync_Ops.thy ===== *)
theory Sync_Ops
  imports Sync_Wait
begin

text \<open>
  The requests on events, mutexes and semaphores (server/event.c, server/mutex.c,
  server/semaphore.c), the \<open>select\<close> operation, suspension and the death of a thread
  (server/thread.c, server/process.c).
\<close>

subsection \<open>Events\<close>

definition event_sync_signal :: "sid \<Rightarrow> bool \<Rightarrow> engine \<Rightarrow> engine" where
  "event_sync_signal s sig w =
     (case map_option s_data (syncs w s) of
        Some (Event_sync ev) \<Rightarrow>
          let w1 = upd_sync s (\<lambda>sy. sy\<lparr>s_data := Event_sync (ev\<lparr>signaled := sig\<rparr>)\<rparr>) w
          in if sig then wake_up s (if manual ev then 0 else 1) w1 else w1
      | _ \<Rightarrow> failed w)"

definition signal_sync :: "sid \<Rightarrow> engine \<Rightarrow> engine" where
  "signal_sync s w = event_sync_signal s True w"

definition reset_sync :: "sid \<Rightarrow> engine \<Rightarrow> engine" where
  "reset_sync s w = event_sync_signal s False w"

definition set_event :: "oid \<Rightarrow> engine \<Rightarrow> engine" where
  "set_event x w = (case sync_of w x of None \<Rightarrow> failed w | Some s \<Rightarrow> signal_sync s w)"

definition reset_event :: "oid \<Rightarrow> engine \<Rightarrow> engine" where
  "reset_event x w = (case sync_of w x of None \<Rightarrow> failed w | Some s \<Rightarrow> reset_sync s w)"

definition event_signal :: "oid \<Rightarrow> access \<Rightarrow> engine \<Rightarrow> bool \<times> engine" where
  "event_signal x acc w =
     (if acc AND EVENT_MODIFY_STATE = 0 then (False, set_err STATUS_ACCESS_DENIED w)
      else (True, set_event x w))"

text \<open>The request handlers return their reply fields; \<open>None\<close> when the handler returned before setting
  them.\<close>

definition event_op :: "tid \<Rightarrow> obj_handle \<Rightarrow> nat \<Rightarrow> engine \<Rightarrow> bool option \<times> engine" where
  "event_op t h op w =
     (case get_handle_object (process (thread_of w t)) h EVENT_MODIFY_STATE (Some Event_ops) w of
        (None, w1) \<Rightarrow> (None, w1)
      | (Some x, w1) \<Rightarrow>
          (case Option.bind (sync_of w1 x) (\<lambda>s. map_option s_data (syncs w1 s)) of
             Some (Event_sync ev) \<Rightarrow>
               let w2 = (if op = 0 then reset_event x (set_event x w1)
                         else if op = 1 then set_event x w1
                         else if op = 2 then reset_event x w1
                         else set_err STATUS_INVALID_PARAMETER w1)
               in (Some (signaled ev), release_obj x w2)
           | _ \<Rightarrow> (None, failed w1)))"

definition query_event :: "tid \<Rightarrow> obj_handle \<Rightarrow> engine \<Rightarrow> (bool \<times> bool) option \<times> engine" where
  "query_event t h w =
     (case get_handle_object (process (thread_of w t)) h EVENT_QUERY_STATE (Some Event_ops) w of
        (None, w1) \<Rightarrow> (None, w1)
      | (Some x, w1) \<Rightarrow>
          (case Option.bind (sync_of w1 x) (\<lambda>s. map_option s_data (syncs w1 s)) of
             Some (Event_sync ev) \<Rightarrow> (Some (manual ev, signaled ev), release_obj x w1)
           | _ \<Rightarrow> (None, failed w1)))"

subsection \<open>Mutexes\<close>

definition do_release :: "sid \<Rightarrow> tid \<Rightarrow> 32 word \<Rightarrow> engine \<Rightarrow> bool \<times> engine" where
  "do_release s t n w =
     (case map_option s_data (syncs w s) of
        Some (Mutex_sync m) \<Rightarrow>
          if recursion m = 0 \<or> owner m \<noteq> Some t then (False, set_err STATUS_MUTANT_NOT_OWNED w)
          else if recursion m - n = 0 then
            let w1 = upd_thread t (remove_mutex s) w;
                w2 = upd_sync s (\<lambda>sy. sy\<lparr>s_data := Mutex_sync (m\<lparr>recursion := 0, owner := None\<rparr>)\<rparr>) w1
            in (True, release_sync s (wake_up s 0 w2))
          else (True, upd_sync s (\<lambda>sy. sy\<lparr>s_data := Mutex_sync (m\<lparr>recursion := recursion m - n\<rparr>)\<rparr>) w)
      | _ \<Rightarrow> (False, failed w))"

definition mutex_signal :: "tid \<Rightarrow> oid \<Rightarrow> access \<Rightarrow> engine \<Rightarrow> bool \<times> engine" where
  "mutex_signal t x acc w =
     (if acc AND SYNCHRONIZE = 0 then (False, set_err STATUS_ACCESS_DENIED w)
      else case sync_of w x of None \<Rightarrow> (False, failed w) | Some s \<Rightarrow> do_release s t 1 w)"

definition release_mutex :: "tid \<Rightarrow> obj_handle \<Rightarrow> engine \<Rightarrow> 32 word option \<times> engine" where
  "release_mutex t h w =
     (case get_handle_object (process (thread_of w t)) h 0 (Some Mutex_ops) w of
        (None, w1) \<Rightarrow> (None, w1)
      | (Some x, w1) \<Rightarrow>
          (case sync_of w1 x of
             None \<Rightarrow> (None, failed w1)
           | Some s \<Rightarrow>
               (case map_option s_data (syncs w1 s) of
                  Some (Mutex_sync m) \<Rightarrow> (Some (recursion m), release_obj x (snd (do_release s t 1 w1)))
                | _ \<Rightarrow> (None, failed w1))))"

definition query_mutex :: "tid \<Rightarrow> obj_handle \<Rightarrow> engine \<Rightarrow> (32 word \<times> bool \<times> bool) option \<times> engine" where
  "query_mutex t h w =
     (case get_handle_object (process (thread_of w t)) h MUTANT_QUERY_STATE (Some Mutex_ops) w of
        (None, w1) \<Rightarrow> (None, w1)
      | (Some x, w1) \<Rightarrow>
          (case Option.bind (sync_of w1 x) (\<lambda>s. map_option s_data (syncs w1 s)) of
             Some (Mutex_sync m) \<Rightarrow>
               (Some (recursion m, owner m = Some t, abandoned m), release_obj x w1)
           | _ \<Rightarrow> (None, failed w1)))"

subsection \<open>Semaphores\<close>

definition release_semaphore :: "sid \<Rightarrow> 32 word \<Rightarrow> engine \<Rightarrow> 32 word \<times> bool \<times> engine" where
  "release_semaphore s n w =
     (case map_option s_data (syncs w s) of
        Some (Semaphore_sync sem) \<Rightarrow>
          let put = (\<lambda>c. upd_sync s (\<lambda>sy. sy\<lparr>s_data := Semaphore_sync (sem\<lparr>sem_count := c\<rparr>)\<rparr>) w)
          in if sem_count sem + n < sem_count sem \<or> sem_max sem < sem_count sem + n then
               (sem_count sem, False, set_err STATUS_SEMAPHORE_LIMIT_EXCEEDED w)
             else if sem_count sem \<noteq> 0 then (sem_count sem, True, put (sem_count sem + n))
             else (sem_count sem, True, wake_up s (sint n) (put n))
      | _ \<Rightarrow> (0, False, failed w))"

definition semaphore_signal :: "oid \<Rightarrow> access \<Rightarrow> engine \<Rightarrow> bool \<times> engine" where
  "semaphore_signal x acc w =
     (if acc AND SEMAPHORE_MODIFY_STATE = 0 then (False, set_err STATUS_ACCESS_DENIED w)
      else case sync_of w x of None \<Rightarrow> (False, failed w) | Some s \<Rightarrow> snd (release_semaphore s 1 w))"

definition release_semaphore_request ::
  "tid \<Rightarrow> obj_handle \<Rightarrow> 32 word \<Rightarrow> engine \<Rightarrow> 32 word option \<times> engine" where
  "release_semaphore_request t h n w =
     (case get_handle_object (process (thread_of w t)) h SEMAPHORE_MODIFY_STATE (Some Semaphore_ops) w of
        (None, w1) \<Rightarrow> (None, w1)
      | (Some x, w1) \<Rightarrow>
          (case sync_of w1 x of
             None \<Rightarrow> (None, failed w1)
           | Some s \<Rightarrow> (case release_semaphore s n w1 of (prev, ok, w2) \<Rightarrow> (Some prev, release_obj x w2))))"

definition query_semaphore :: "tid \<Rightarrow> obj_handle \<Rightarrow> engine \<Rightarrow> (32 word \<times> 32 word) option \<times> engine" where
  "query_semaphore t h w =
     (case get_handle_object (process (thread_of w t)) h SEMAPHORE_QUERY_STATE (Some Semaphore_ops) w of
        (None, w1) \<Rightarrow> (None, w1)
      | (Some x, w1) \<Rightarrow>
          (case Option.bind (sync_of w1 x) (\<lambda>s. map_option s_data (syncs w1 s)) of
             Some (Semaphore_sync sem) \<Rightarrow> (Some (sem_count sem, sem_max sem), release_obj x w1)
           | _ \<Rightarrow> (None, failed w1)))"

subsection \<open>Select\<close>

definition handle_access :: "engine \<Rightarrow> pid \<Rightarrow> obj_handle \<Rightarrow> access" where
  "handle_access w p h = (case find_handle w p h of None \<Rightarrow> 0 | Some (x, a) \<Rightarrow> a)"

definition signal_object :: "tid \<Rightarrow> obj_handle \<Rightarrow> engine \<Rightarrow> bool \<times> engine" where
  "signal_object t h w =
     (let p = process (thread_of w t) in
      case get_handle_object p h 0 None w of
        (None, w1) \<Rightarrow> (False, w1)
      | (Some x, w1) \<Rightarrow>
          let (ok, w2) =
                (case map_option o_ops (objs w1 x) of
                   Some Event_ops \<Rightarrow> event_signal x (handle_access w1 p h) w1
                 | Some Mutex_ops \<Rightarrow> mutex_signal t x (handle_access w1 p h) w1
                 | Some Semaphore_ops \<Rightarrow> semaphore_signal x (handle_access w1 p h) w1
                 | _ \<Rightarrow> (False, set_err STATUS_OBJECT_TYPE_MISMATCH w1))
          in (ok, release_obj x w2))"

text \<open>
  The second half of \<open>select_on\<close>: the condition may hold already; otherwise the wait stays, with a
  timer when it is bounded and with the client's cookie. Arming the timer allocates.
\<close>

definition arm_wait :: "cookie \<Rightarrow> thread \<Rightarrow> thread" where
  "arm_wait ck th =
     (case waits th of
        [] \<Rightarrow> th
      | wt # rest \<Rightarrow> th\<lparr>waits := wt\<lparr>w_cookie := ck, w_user := w_when wt \<noteq> TIMEOUT_INFINITE\<rparr> # rest\<rparr>)"

definition finish_select :: "tid \<Rightarrow> cookie \<Rightarrow> engine \<Rightarrow> bool \<times> engine" where
  "finish_select t ck w =
     (case check_wait t w of
        (Some st, w1) \<Rightarrow> (case end_wait t st w1 of (st1, w2) \<Rightarrow> (True, set_err st1 w2))
      | (None, w1) \<Rightarrow>
          if w_when (hd (waits (thread_of w1 t))) \<noteq> TIMEOUT_INFINITE then
            (case mem_alloc (errors w1) of
               (False, e) \<Rightarrow> (True, snd (end_wait t (cur_error e) (w1\<lparr>errors := e\<rparr>)))
             | (True, e) \<Rightarrow> (False, set_err STATUS_PENDING (upd_thread t (arm_wait ck) (w1\<lparr>errors := e\<rparr>))))
          else (False, set_err STATUS_PENDING (upd_thread t (arm_wait ck) w1)))"

text \<open>
  \<open>data\<close> is the operation as the request carries it, in 32-bit words and with \<open>op_size\<close> four times its
  length; a field past its end reads as zero. The two keyed event operations are not modelled and
  share the default branch.
\<close>

definition op_word :: "32 word list \<Rightarrow> nat \<Rightarrow> 32 word" where
  "op_word data i = (if i < length data then data ! i else 0)"

definition select_on ::
  "tid \<Rightarrow> 32 word list \<Rightarrow> cookie \<Rightarrow> 32 word \<Rightarrow> abstime \<Rightarrow> engine \<Rightarrow> bool \<times> engine" where
  "select_on t data ck fl timeout w =
     (if op_word data 0 = 0 then
        (case wait_on t SELECT_NONE [] fl timeout w of
           (False, w1) \<Rightarrow> (True, w1)
         | (True, w1) \<Rightarrow> finish_select t ck w1)
      else if op_word data 0 = 1 \<or> op_word data 0 = 2 then
        if data = [] \<or> MAXIMUM_WAIT_OBJECTS < length data - 1 then (True, set_err STATUS_INVALID_PARAMETER w)
        else (case wait_on_handles t (if op_word data 0 = 1 then SELECT_WAIT else SELECT_WAIT_ALL)
                     (tl data) fl timeout w of
                (False, w1) \<Rightarrow> (True, w1)
              | (True, w1) \<Rightarrow> finish_select t ck w1)
      else if op_word data 0 = 3 then
        (case wait_on_handles t SELECT_SIGNAL_AND_WAIT [op_word data 1] fl timeout w of
           (False, w1) \<Rightarrow> (True, w1)
         | (True, w1) \<Rightarrow>
             if op_word data 2 \<noteq> 0 then
               (case signal_object t (op_word data 2) w1 of
                  (False, w2) \<Rightarrow> (True, snd (end_wait t (get_err w2) w2))
                | (True, w2) \<Rightarrow>
                    if waits (thread_of w2 t) = [] then (True, w2) else finish_select t ck w2)
             else finish_select t ck w1)
      else (True, set_err STATUS_INVALID_PARAMETER w))"

subsection \<open>Suspension\<close>

text \<open>\<open>create_thread_context\<close> makes the context and its sync, two allocations; the signal that
  \<open>stop_thread\<close> sends to the Unix thread is outside the server.\<close>

definition stop_thread :: "tid \<Rightarrow> engine \<Rightarrow> engine" where
  "stop_thread t w =
     (if ctx (thread_of w t) \<noteq> None then w
      else case mem_alloc (errors w) of
             (False, e) \<Rightarrow> w\<lparr>errors := e\<rparr>
           | (True, e) \<Rightarrow>
               (case mem_alloc e of
                  (False, e1) \<Rightarrow> w\<lparr>errors := e1\<rparr>
                | (True, e1) \<Rightarrow>
                    upd_thread t (\<lambda>th. th\<lparr>ctx := Some \<lparr>cooperative = False, native_flags = 0, wow_flags = 0\<rparr>\<rparr>)
                      (w\<lparr>errors := e1\<rparr>)))"

definition suspend_thread :: "tid \<Rightarrow> engine \<Rightarrow> nat \<times> engine" where
  "suspend_thread t w =
     (let old = suspend (thread_of w t) in
      if old < MAXIMUM_SUSPEND_COUNT then
        let w1 = (if \<not> is_thread_suspended w (thread_of w t) then stop_thread t w else w)
        in (old, upd_thread t (\<lambda>th. th\<lparr>suspend := Suc (suspend th)\<rparr>) w1)
      else (old, set_err STATUS_SUSPEND_COUNT_EXCEEDED w))"

text \<open>The delayed debug events of a resumed thread belong to server/debugger.c.\<close>

definition resume_thread :: "tid \<Rightarrow> engine \<Rightarrow> nat \<times> engine" where
  "resume_thread t w =
     (let old = suspend (thread_of w t) in
      if 0 < old then
        let w1 = upd_thread t (\<lambda>th. th\<lparr>suspend := suspend th - 1\<rparr>) w
        in (old, if \<not> is_thread_suspended w1 (thread_of w1 t) then snd (wake_thread t w1) else w1)
      else (old, w))"

subsection \<open>The death of a thread\<close>

definition set_abandoned :: "sync \<Rightarrow> sync" where
  "set_abandoned sy =
     (case s_data sy of Mutex_sync m \<Rightarrow> sy\<lparr>s_data := Mutex_sync (m\<lparr>abandoned := True\<rparr>)\<rparr> | _ \<Rightarrow> sy)"

definition mutex_at :: "engine \<Rightarrow> sid \<Rightarrow> mutex_sync option" where
  "mutex_at w s = (case map_option s_data (syncs w s) of Some (Mutex_sync m) \<Rightarrow> Some m | _ \<Rightarrow> None)"

definition abandon_mutex :: "sid \<Rightarrow> tid \<Rightarrow> engine \<Rightarrow> bool \<times> engine" where
  "abandon_mutex s t w =
     (case mutex_at w s of
        None \<Rightarrow> (False, failed w)
      | Some m \<Rightarrow>
          let w1 = upd_sync s set_abandoned (assert_that (owner m = Some t) w)
          in do_release s t (recursion m) w1)"


lemma threads_simps [simp]:
  "threads (upd_sync s f w) = threads w"
  "threads (failed w) = threads w"
  "threads (assert_that b w) = threads w"
  "threads (set_err st w) = threads w"
  "threads (grab_sync s w) = threads w"
  "threads (grab_obj x w) = threads w"
  "threads (release_sync s w) = threads w"
  by (simp_all add: upd_sync_def failed_def assert_that_def set_err_def grab_sync_def grab_obj_def
      release_sync_def sync_destroy_def split: option.splits sync_data.splits)

lemma threads_object_sync_signaled: "object_sync_signaled x t w = (b, w') \<Longrightarrow> threads w' = threads w"
  by (auto simp: object_sync_signaled_def get_obj_sync_def split: prod.splits option.splits)

lemma threads_all_signaled: "all_signaled xs t w = (b, w') \<Longrightarrow> threads w' = threads w"
proof (induction xs arbitrary: w b)
  case (Cons x xs)
  obtain b1 w1 where 1: "object_sync_signaled x t w = (b1, w1)"
    by fastforce
  obtain b2 w2 where 2: "all_signaled xs t w1 = (b2, w2)"
    by fastforce
  from Cons 1 2 show ?case
    by (auto dest: threads_object_sync_signaled)
qed simp

lemma threads_first_signaled: "first_signaled i xs t w = (r, w') \<Longrightarrow> threads w' = threads w"
  by (induction i xs t w rule: first_signaled.induct)
    (auto split: prod.splits bool.splits dest: threads_object_sync_signaled)

lemma threads_check_wait_None:
  assumes "check_wait t w = (None, w')"
  shows "threads w' = threads w"
proof (cases "waits (thread_of w t)")
  case (Cons wt rest)
  obtain r1 w1 where 1: "check_objects wt t w = (r1, w1)"
    by fastforce
  then have "threads w1 = threads w"
    by (auto simp: check_objects_def split: if_splits prod.splits
        dest: threads_all_signaled threads_first_signaled)
  with assms Cons 1 show ?thesis
    by (auto simp: check_wait_def Let_def split: if_splits option.splits)
qed (use assms in \<open>auto simp: check_wait_def\<close>)

lemma threads_wake_thread_0:
  assumes "wake_thread t w = (0, w')"
  shows "threads w' = threads w"
  using assms
  by (auto simp: wake_thread.simps [of t w] split: if_splits prod.splits option.splits
      dest: threads_check_wait_None)

lemma wake_up_loop_progress:
  "total_waits (wake_up_loop s most es w) < total_waits w \<or>
   threads (wake_up_loop s most es w) = threads w"
proof (induction s most es w rule: wake_up_loop.induct)
  case (2 s most e es w)
  obtain n w1 where 1: "wake_thread (fst e) w = (n, w1)"
    by fastforce
  show ?case
  proof (cases "n = 0")
    case True
    with 1 have "threads w1 = threads w"
      by (simp add: threads_wake_thread_0)
    with 2(1) [OF 1 [symmetric] True] True 1 show ?thesis
      by (simp add: wake_up_loop.simps(2) [of s most e] total_waits_def stacks_def)
  next
    case False
    with wake_thread_waits [OF 1] have lt: "total_waits w1 < total_waits w"
      by simp
    show ?thesis
    proof (cases "most \<noteq> 0 \<and> most - 1 = 0 \<or> syncs w1 s = None")
      case True
      with False lt 1 show ?thesis
        by (auto simp: wake_up_loop.simps(2) [of s most e] total_waits_def)
    next
      case go: False
      then have g: "\<not> (most \<noteq> 0 \<and> most - 1 = 0)" "syncs w1 s \<noteq> None"
        by blast+
      have "total_waits (wake_up_loop s (if most \<noteq> 0 then most - 1 else 0) (queue_of w1 s) w1) \<le> total_waits w1"
        using 2(2) [OF 1 [symmetric] False g] by (auto simp: total_waits_def stacks_def)
      with lt g False 1 show ?thesis
        by (auto simp: wake_up_loop.simps(2) [of s most e])
    qed
  qed
qed simp

lemma wake_up_progress:
  "total_waits (wake_up s most w) < total_waits w \<or> threads (wake_up s most w) = threads w"
  using wake_up_loop_progress by (simp add: wake_up_def)

lemma abandon_mutex_progress:
  assumes "abandon_mutex s t w = (True, w')" and "s \<in> set (mutex_list (thread_of w t))"
  shows "total_waits w' < total_waits w \<or>
    total_waits w' = total_waits w \<and> length (mutex_list (thread_of w' t)) < length (mutex_list (thread_of w t))"
proof -
  let ?w1 = "upd_thread t (remove_mutex s) w"
  have t: "t < length (threads w)"
    using assms(2) by (auto simp: thread_of_def idle_thread_def split: if_splits)
  obtain w2 where w2: "w' = release_sync s (wake_up s 0 w2)" "threads w2 = threads ?w1"
    using assms(1)
    by (auto simp: abandon_mutex_def mutex_at_def do_release_def Let_def upd_sync_def set_abandoned_def
        upd_thread_def assert_that_def failed_def thread_of_def
        split: option.splits sync_data.splits if_splits)
  have tw: "total_waits ?w1 = total_waits w" "total_waits w2 = total_waits ?w1"
    "total_waits w' = total_waits (wake_up s 0 w2)"
    using w2 by (simp_all add: total_waits_def stacks_def upd_thread_def map_update remove_mutex_def)
      (use t in \<open>simp add: thread_of_def list_update_same_conv [THEN iffD2]\<close>)
  from wake_up_progress [of s 0 w2] show ?thesis
  proof
    assume "threads (wake_up s 0 w2) = threads w2"
    then have th: "threads w' = threads ?w1"
      using w2 by simp
    then have "thread_of w' t = remove_mutex s (thread_of w t)"
      using t by (simp add: thread_of_def upd_thread_def)
    moreover have "total_waits w' = total_waits w"
      using th tw by (simp add: total_waits_def stacks_def)
    ultimately show ?thesis
      using assms(2) length_pos_if_in_set [OF assms(2)] by (simp add: remove_mutex_def length_remove1)
  qed (use tw in simp)
qed

function abandon_mutexes :: "tid \<Rightarrow> engine \<Rightarrow> engine" where
  "abandon_mutexes t w =
     (case mutex_list (thread_of w t) of
        [] \<Rightarrow> w
      | s # _ \<Rightarrow> (case abandon_mutex s t w of (ok, w1) \<Rightarrow> if ok then abandon_mutexes t w1 else failed w1))"
  by pat_completeness auto
termination
proof (relation "measures [\<lambda>(t, w). total_waits w, \<lambda>(t, w). length (mutex_list (thread_of w t))]", goal_cases)
  case (2 t w s ss ok w1)
  then show ?case
    using abandon_mutex_progress [of s t w w1] by auto
qed simp

declare abandon_mutexes.simps [simp del]

function end_all_waits :: "tid \<Rightarrow> engine \<Rightarrow> engine" where
  "end_all_waits t w =
     (if waits (thread_of w t) = [] then w
      else end_all_waits t (snd (end_wait t STATUS_THREAD_IS_TERMINATING w)))"
  by pat_completeness auto
termination
proof (relation "measure (\<lambda>(t, w). length (waits (thread_of w t)))", goal_cases)
  case (2 t w)
  then show ?case
    using stacks_end_wait [OF surjective_pairing, of t STATUS_THREAD_IS_TERMINATING w]
    by (auto simp: thread_of_waits split: if_splits)
qed simp

declare end_all_waits.simps [simp del]

text \<open>
  \<open>kill_thread\<close>, as far as synchronisation goes: the waits end, the client is told, the mutexes are
  abandoned, the thread's own sync is signaled and the reference of the running thread goes away.
  The console, the remaining fields of the thread and the thread list of the process are left out.
\<close>

definition kill_thread :: "tid \<Rightarrow> ntstatus \<Rightarrow> engine \<Rightarrow> engine" where
  "kill_thread t code w =
     (if terminated (thread_of w t) then w
      else
        let w1 = upd_thread t (\<lambda>th. th\<lparr>terminated := True\<rparr>) w;
            w2 = (if waits (thread_of w1 t) \<noteq> [] then send_thread_wakeup t 0 code (end_all_waits t w1) else w1);
            w3 = abandon_mutexes t w2;
            x = t_obj (thread_of w t)
        in release_obj x (set_event x w3))"

end
