(* ===== verification/Sync_Inv.thy ===== *)
theory Sync_Inv
  imports Sync_Ops
begin

text \<open>
  The invariant of the synchronisation engine and the primitive steps that keep it: the references
  to every object are counted, every sync has exactly the references of its object and of its
  owner, every wait queue holds exactly the entries of the pending waits, every owned mutex is in
  its owner's list and nowhere else. The invariant has three parameters for what an operation holds in
  mid-air: \<open>K\<close>, a sync it has a reference to, \<open>L\<close>, the entries of a wait that is no longer on its thread's stack but still queued, and \<open>H\<close>,
  the objects an operation has a reference to.
\<close>

subsection \<open>Queue entries of the pending waits\<close>

fun numbered :: "tid \<Rightarrow> nat \<Rightarrow> nat \<Rightarrow> oid list \<Rightarrow> (wait_queue_entry \<times> oid) list" where
  "numbered t d i [] = []"
| "numbered t d i (x # xs) = ((t, d, i), x) # numbered t d (Suc i) xs"

fun wait_entries :: "tid \<Rightarrow> thread_wait list \<Rightarrow> (wait_queue_entry \<times> oid) list" where
  "wait_entries t [] = []"
| "wait_entries t (wt # ws) = numbered t (length ws) 0 (w_objs wt) @ wait_entries t ws"

definition entries_in :: "thread_wait list list \<Rightarrow> (wait_queue_entry \<times> oid) multiset" where
  "entries_in ss = (\<Sum>t<length ss. mset (wait_entries t (ss ! t)))"

abbreviation entries :: "engine \<Rightarrow> (wait_queue_entry \<times> oid) multiset" where
  "entries w \<equiv> entries_in (stacks w)"

lemma map_snd_numbered [simp]: "map snd (numbered t d i xs) = xs"
  by (induction xs arbitrary: i) simp_all

lemma image_snd_numbered [simp]: "image_mset snd (mset (numbered t d i xs)) = mset xs"
  by (metis map_snd_numbered mset_map)

lemma numbered_append: "numbered t d i (xs @ ys) = numbered t d i xs @ numbered t d (i + length xs) ys"
  by (induction xs arbitrary: i) simp_all

lemma entries_in_update:
  assumes "t < length ss"
  shows "entries_in (ss[t := ws]) + mset (wait_entries t (ss ! t)) = entries_in ss + mset (wait_entries t ws)"
proof -
  have "(\<Sum>u<length ss. mset (wait_entries u (ss[t := ws] ! u))) =
      mset (wait_entries t ws) + (\<Sum>u\<in>{..<length ss} - {t}. mset (wait_entries u (ss[t := ws] ! u)))"
    using assms by (subst sum.remove [of _ t]) simp_all
  also have "(\<Sum>u\<in>{..<length ss} - {t}. mset (wait_entries u (ss[t := ws] ! u))) =
      (\<Sum>u\<in>{..<length ss} - {t}. mset (wait_entries u (ss ! u)))"
    by (rule sum.cong) simp_all
  finally have 1: "entries_in (ss[t := ws]) =
      mset (wait_entries t ws) + (\<Sum>u\<in>{..<length ss} - {t}. mset (wait_entries u (ss ! u)))"
    by (simp add: entries_in_def)
  have 2: "entries_in ss =
      mset (wait_entries t (ss ! t)) + (\<Sum>u\<in>{..<length ss} - {t}. mset (wait_entries u (ss ! u)))"
    using assms by (simp add: entries_in_def sum.remove [of _ t])
  show ?thesis
    by (simp add: 1 2)
qed

lemma entries_pop:
  assumes "t < length ss" and "ss ! t = wt # rest"
  shows "entries_in ss = entries_in (ss[t := rest]) + mset (numbered t (length rest) 0 (w_objs wt))"
  using entries_in_update [OF assms(1), of rest] assms(2) by (simp add: add.assoc [symmetric])

lemma wait_entries_same_objs: "map w_objs us = map w_objs ws \<Longrightarrow> wait_entries t us = wait_entries t ws"
proof (induction us arbitrary: ws)
  case (Cons u us)
  then obtain v vs where ws: "ws = v # vs" "w_objs u = w_objs v" "map w_objs us = map w_objs vs"
    by (cases ws) auto
  then have "length us = length vs"
    by (metis length_map)
  with ws Cons show ?case
    by simp
qed simp

lemma entries_same_objs:
  assumes "t < length ss \<Longrightarrow> map w_objs (ss ! t) = map w_objs ws"
  shows "entries_in (ss[t := ws]) = entries_in ss"
proof (cases "t < length ss")
  case True
  with entries_in_update [OF True, of ws] wait_entries_same_objs [OF assms, of t] show ?thesis
    by simp
qed (simp add: list_update_beyond)

subsection \<open>The invariant\<close>

definition sig :: "engine \<Rightarrow> oid \<Rightarrow> tid \<Rightarrow> bool" where
  "sig w x t = (case Option.bind (sync_of w x) (syncs w) of None \<Rightarrow> False | Some sy \<Rightarrow> sync_signaled (s_data sy) t)"

definition owner_of :: "sync_data \<Rightarrow> tid option" where
  "owner_of d = (case d of Mutex_sync m \<Rightarrow> owner m | _ \<Rightarrow> None)"

definition refs_of :: "engine \<Rightarrow> oid \<Rightarrow> nat" where
  "refs_of w x = (case objs w x of None \<Rightarrow> 0 | Some ob \<Rightarrow> o_refs ob)"

definition live_threads :: "engine \<Rightarrow> oid multiset" where
  "live_threads w = image_mset t_obj (filter_mset (\<lambda>th. \<not> terminated th) (mset (threads w)))"

definition holders :: "engine \<Rightarrow> oid multiset" where
  "holders w = image_mset (fst \<circ> snd) (mset (handles w)) + image_mset snd (entries w) + live_threads w"

definition kind_ok :: "object_ops \<Rightarrow> sync_data \<Rightarrow> bool" where
  "kind_ok ops d =
     (case d of
        Event_sync _ \<Rightarrow> ops = Event_ops \<or> ops = Other_ops
      | Mutex_sync _ \<Rightarrow> ops = Mutex_ops
      | Semaphore_sync _ \<Rightarrow> ops = Semaphore_ops)"

definition data_ok :: "sync_data \<Rightarrow> bool" where
  "data_ok d =
     (case d of
        Event_sync _ \<Rightarrow> True
      | Mutex_sync m \<Rightarrow> recursion m = 0 \<longleftrightarrow> owner m = None
      | Semaphore_sync sem \<Rightarrow> sem_count sem \<le> sem_max sem)"

definition refs_ok :: "oid multiset \<Rightarrow> engine \<Rightarrow> bool" where
  "refs_ok H w \<longleftrightarrow>
     (\<forall>x. count (holders w + H) x \<le> refs_of w x) \<and> (\<forall>x ob. objs w x = Some ob \<longrightarrow> 0 < o_refs ob)"

definition objs_ok :: "engine \<Rightarrow> bool" where
  "objs_ok w \<longleftrightarrow>
     (\<forall>x ob. objs w x = Some ob \<longrightarrow> o_sync ob = None \<longrightarrow> o_ops ob = Other_ops) \<and>
     (\<forall>x ob s. objs w x = Some ob \<longrightarrow> o_sync ob = Some s \<longrightarrow>
        (\<exists>sy. syncs w s = Some sy \<and> kind_ok (o_ops ob) (s_data sy))) \<and>
     (\<forall>x y s. sync_of w x = Some s \<longrightarrow> sync_of w y = Some s \<longrightarrow> x = y)"

definition sync_ok :: "sid option \<Rightarrow> engine \<Rightarrow> sid \<Rightarrow> sync \<Rightarrow> bool" where
  "sync_ok K w s sy \<longleftrightarrow>
     data_ok (s_data sy) \<and> 0 < s_refs sy \<and>
     s_refs sy = of_bool (\<exists>x. sync_of w x = Some s) + of_bool (owner_of (s_data sy) \<noteq> None) + of_bool (K = Some s)"

definition syncs_ok :: "sid option \<Rightarrow> engine \<Rightarrow> bool" where
  "syncs_ok K w \<longleftrightarrow>
     (\<forall>s sy. syncs w s = Some sy \<longrightarrow> sync_ok K w s sy) \<and> (\<forall>s. K = Some s \<longrightarrow> syncs w s \<noteq> None)"

definition on_sync :: "engine \<Rightarrow> sid \<Rightarrow> wait_queue_entry \<times> oid \<Rightarrow> bool" where
  "on_sync w s ex \<longleftrightarrow> sync_of w (snd ex) = Some s"

definition queues_ok :: "(wait_queue_entry \<times> oid) multiset \<Rightarrow> engine \<Rightarrow> bool" where
  "queues_ok L w \<longleftrightarrow>
     (\<forall>s sy. syncs w s = Some sy \<longrightarrow>
        mset (s_queue sy) = image_mset fst (filter_mset (on_sync w s) (entries w + L))) \<and>
     (\<forall>ex \<in># entries w + L. sync_of w (snd ex) \<noteq> None)"

definition owned_by :: "engine \<Rightarrow> sid \<Rightarrow> tid option" where
  "owned_by w s = Option.bind (syncs w s) (\<lambda>sy. owner_of (s_data sy))"

definition mutexes_ok :: "engine \<Rightarrow> bool" where
  "mutexes_ok w \<longleftrightarrow>
     (\<forall>t s. count_list (mutex_list (thread_of w t)) s = of_bool (owned_by w s = Some t))"

definition is_semaphore :: "engine \<Rightarrow> oid \<Rightarrow> bool" where
  "is_semaphore w x \<longleftrightarrow> map_option o_ops (objs w x) = Some Semaphore_ops"

definition wait_ok :: "engine \<Rightarrow> thread_wait \<Rightarrow> bool" where
  "wait_ok w wt \<longleftrightarrow>
     length (w_objs wt) \<le> MAXIMUM_WAIT_OBJECTS \<and>
     (w_select wt = SELECT_WAIT_ALL \<longrightarrow> distinct (filter (is_semaphore w) (w_objs wt))) \<and>
     (w_user wt \<longrightarrow> w_cookie wt \<noteq> 0)"

definition waits_ok :: "engine \<Rightarrow> bool" where
  "waits_ok w \<longleftrightarrow> (\<forall>ws \<in> set (stacks w). \<forall>wt \<in> set ws. wait_ok w wt)"

definition sync_inv :: "sid option \<Rightarrow> (wait_queue_entry \<times> oid) multiset \<Rightarrow> oid multiset \<Rightarrow> engine \<Rightarrow> bool" where
  "sync_inv K L H w \<longleftrightarrow>
     \<not> fault w \<and> refs_ok (image_mset snd L + H) w \<and> objs_ok w \<and> syncs_ok K w \<and> queues_ok L w \<and>
     mutexes_ok w \<and> waits_ok w"

text \<open>
  A recursion count cannot wrap around: each pending entry of a mutex can raise it once, and so can each
  of the further objects \<open>P\<close> about to be taken.
\<close>

definition room :: "oid multiset \<Rightarrow> engine \<Rightarrow> bool" where
  "room P w \<longleftrightarrow>
     (\<forall>s sy m. syncs w s = Some sy \<longrightarrow> s_data sy = Mutex_sync m \<longrightarrow>
        unat (recursion m) + size (filter_mset (\<lambda>x. sync_of w x = Some s) (image_mset snd (entries w) + P)) < 2 ^ 32)"


subsection \<open>Fields under the primitive updates\<close>

lemma upd_sync_fields [simp]:
  "syncs (upd_sync s f w) = (syncs w)(s := map_option f (syncs w s))"
  "objs (upd_sync s f w) = objs w"
  "handles (upd_sync s f w) = handles w"
  "fault (upd_sync s f w) = fault w"
  "errors (upd_sync s f w) = errors w"
  "sent (upd_sync s f w) = sent w"
  "sync_of (upd_sync s f w) = sync_of w"
  "thread_of (upd_sync s f w) = thread_of w"
  by (auto simp: upd_sync_def sync_of_def thread_of_def fun_eq_iff)

lemma upd_thread_fields [simp]:
  "syncs (upd_thread t f w) = syncs w"
  "objs (upd_thread t f w) = objs w"
  "handles (upd_thread t f w) = handles w"
  "fault (upd_thread t f w) = fault w"
  "errors (upd_thread t f w) = errors w"
  "sent (upd_thread t f w) = sent w"
  "sync_of (upd_thread t f w) = sync_of w"
  by (auto simp: upd_thread_def sync_of_def fun_eq_iff)

lemma thread_of_upd_thread:
  "thread_of (upd_thread t f w) u =
     (if u = t \<and> t < length (threads w) then f (thread_of w t) else thread_of w u)"
  by (simp add: thread_of_def upd_thread_def)

lemma thread_of_cong: "threads w' = threads w \<Longrightarrow> thread_of w' = thread_of w"
  by (simp add: thread_of_def fun_eq_iff)

lemma upd_sync_upd_sync: "upd_sync s f (upd_sync s g w) = upd_sync s (f \<circ> g) w"
  by (simp add: upd_sync_def option.map_comp)

lemma upd_sync_triv:
  assumes "\<And>sy. syncs w s = Some sy \<Longrightarrow> f sy = sy"
  shows "upd_sync s f w = w"
proof -
  have "(syncs w)(s := map_option f (syncs w s)) = syncs w"
    using assms by (cases "syncs w s") auto
  then show ?thesis
    by (simp add: upd_sync_def)
qed

lemma upd_sync_cong:
  assumes "syncs w s = Some sy" and "f sy = g sy"
  shows "upd_sync s f w = upd_sync s g w"
  using assms by (simp add: upd_sync_def)

lemma upd_sync_upd_thread: "upd_sync s f (upd_thread t g w) = upd_thread t g (upd_sync s f w)"
  by (simp add: upd_sync_def upd_thread_def thread_of_def)

subsection \<open>The callbacks in normal form\<close>

definition live_sync :: "engine \<Rightarrow> sid \<Rightarrow> sync \<Rightarrow> bool" where
  "live_sync w s sy \<longleftrightarrow> syncs w s = Some sy \<and> 0 < s_refs sy \<and> s_refs sy < INT_MAX - 1"

lemma grab_sync_live:
  "live_sync w s sy \<Longrightarrow> grab_sync s w = upd_sync s (\<lambda>sy. sy\<lparr>s_refs := Suc (s_refs sy)\<rparr>) w"
  by (simp add: live_sync_def grab_sync_def assert_that_def)

lemma release_sync_live:
  "syncs w s = Some sy \<Longrightarrow> 1 < s_refs sy \<Longrightarrow>
   release_sync s w = upd_sync s (\<lambda>sy. sy\<lparr>s_refs := s_refs sy - 1\<rparr>) w"
  by (simp add: release_sync_def)

lemma get_obj_sync_live:
  assumes "sync_of w x = Some s" and "live_sync w s sy"
  shows "get_obj_sync x w = (Some s, upd_sync s (\<lambda>sy. sy\<lparr>s_refs := Suc (s_refs sy)\<rparr>) w)"
  using assms by (simp add: get_obj_sync_def grab_sync_live)

lemma object_sync_signaled_live:
  assumes "sync_of w x = Some s" and "live_sync w s sy"
  shows "object_sync_signaled x t w = (sync_signaled (s_data sy) t, w)"
  using assms
  by (simp add: object_sync_signaled_def get_obj_sync_live [OF assms] release_sync_live
      live_sync_def upd_sync_upd_sync upd_sync_triv)

lemma object_sync_add_queue_live:
  assumes "sync_of w x = Some s" and "live_sync w s sy"
  shows "object_sync_add_queue x e w = (True, upd_sync s (add_queue e) w)"
  using assms
  by (auto simp: object_sync_add_queue_def get_obj_sync_live [OF assms] release_sync_live
      live_sync_def upd_sync_upd_sync add_queue_def intro!: upd_sync_cong)

lemma object_sync_remove_queue_live:
  assumes "sync_of w x = Some s" and "live_sync w s sy"
  shows "object_sync_remove_queue x e w = upd_sync s (remove_queue e) w"
  using assms
  by (auto simp: object_sync_remove_queue_def get_obj_sync_live [OF assms] release_sync_live
      live_sync_def upd_sync_upd_sync remove_queue_def intro!: upd_sync_cong)

text \<open>What satisfying a wait does to the data of a sync, when the sync can be taken.\<close>

definition taken :: "sync_data \<Rightarrow> tid \<Rightarrow> sync_data" where
  "taken d t =
     (case d of
        Event_sync ev \<Rightarrow> Event_sync (event_sync_satisfied ev)
      | Mutex_sync m \<Rightarrow> Mutex_sync \<lparr>owner = Some t, recursion = recursion m + 1, abandoned = False\<rparr>
      | Semaphore_sync sem \<Rightarrow> Semaphore_sync (sem\<lparr>sem_count := sem_count sem - 1\<rparr>))"

definition ready :: "sync_data \<Rightarrow> tid \<Rightarrow> bool" where
  "ready d t =
     (case d of
        Event_sync ev \<Rightarrow> True
      | Mutex_sync m \<Rightarrow> (if recursion m = 0 then owner m = None else owner m = Some t) \<and> recursion m + 1 \<noteq> 0
      | Semaphore_sync sem \<Rightarrow> sem_count sem \<noteq> 0)"

definition newly_owned :: "sync_data \<Rightarrow> bool" where
  "newly_owned d = (case d of Mutex_sync m \<Rightarrow> recursion m = 0 | _ \<Rightarrow> False)"

definition take_sync :: "sid \<Rightarrow> sync_data \<Rightarrow> tid \<Rightarrow> engine \<Rightarrow> engine" where
  "take_sync s d t w =
     (let w1 = upd_sync s (\<lambda>sy. sy\<lparr>s_data := taken d t, s_refs := s_refs sy + of_bool (newly_owned d)\<rparr>) w
      in if newly_owned d then upd_thread t (add_mutex s) w1 else w1)"

definition take_wait :: "sync_data \<Rightarrow> thread_wait \<Rightarrow> thread_wait" where
  "take_wait d wt = (case d of Mutex_sync m \<Rightarrow> if abandoned m then wt\<lparr>w_abandoned := True\<rparr> else wt | _ \<Rightarrow> wt)"

lemma object_sync_satisfied_live:
  assumes s: "sync_of w x = Some s" and l: "live_sync w s sy" and r: "ready (s_data sy) t"
  shows "object_sync_satisfied x t (wt, w) = (take_wait (s_data sy) wt, take_sync s (s_data sy) t w)"
proof (cases "s_data sy")
  case (Event_sync ev)
  with s l show ?thesis
    by (auto simp: object_sync_satisfied_def get_obj_sync_live [OF s l] release_sync_live
        live_sync_def upd_sync_upd_sync sync_satisfied_def take_wait_def take_sync_def newly_owned_def
        taken_def intro!: upd_sync_cong)
next
  case (Semaphore_sync sem)
  with s l r show ?thesis
    by (auto simp: object_sync_satisfied_def get_obj_sync_live [OF s l] release_sync_live
        live_sync_def upd_sync_upd_sync sync_satisfied_def take_wait_def take_sync_def newly_owned_def
        taken_def ready_def semaphore_sync_satisfied_def assert_that_def intro!: upd_sync_cong)
next
  case (Mutex_sync m)
  let ?g = "upd_sync s (\<lambda>sy. sy\<lparr>s_refs := Suc (s_refs sy)\<rparr>) w"
  have 1: "get_obj_sync x w = (Some s, ?g)" "syncs ?g s = Some (sy\<lparr>s_refs := Suc (s_refs sy)\<rparr>)"
    using get_obj_sync_live [OF s l] l by (simp_all add: live_sync_def)
  show ?thesis
  proof (cases "recursion m = 0")
    case True
    have "live_sync ?g s (sy\<lparr>s_refs := Suc (s_refs sy)\<rparr>) \<or> s_refs sy = INT_MAX - 2"
      using l by (auto simp: live_sync_def)
    then have "grab_sync s ?g = upd_sync s (\<lambda>sy. sy\<lparr>s_refs := Suc (s_refs sy)\<rparr>) ?g"
      using l by (auto simp: live_sync_def grab_sync_def assert_that_def)
    with True Mutex_sync r l show ?thesis
      unfolding object_sync_satisfied_def prod.case 1 option.case
      by (auto simp: sync_satisfied_def mutex_sync_satisfied_def
          do_grab_def ready_def assert_that_def take_wait_def take_sync_def newly_owned_def
          taken_def live_sync_def upd_sync_upd_sync upd_sync_upd_thread release_sync_live
          clear_abandoned_def intro!: upd_sync_cong arg_cong [where f = "upd_thread t (add_mutex s)"])
  next
    case False
    with Mutex_sync r l show ?thesis
      unfolding object_sync_satisfied_def prod.case 1 option.case
      by (auto simp: sync_satisfied_def mutex_sync_satisfied_def
          do_grab_def ready_def assert_that_def take_wait_def take_sync_def newly_owned_def
          taken_def live_sync_def upd_sync_upd_sync release_sync_live
          clear_abandoned_def intro!: upd_sync_cong)
  qed
qed


subsection \<open>The invariant under updates of a sync\<close>

lemma holders_upd_sync [simp]: "holders (upd_sync s f w) = holders w"
  by (simp add: holders_def live_threads_def)

lemma refs_ok_upd_sync [simp]: "refs_ok H (upd_sync s f w) = refs_ok H w"
  by (simp add: refs_ok_def refs_of_def)

lemma waits_ok_upd_sync [simp]: "waits_ok (upd_sync s f w) = waits_ok w"
  by (simp add: waits_ok_def wait_ok_def is_semaphore_def [abs_def])

lemma on_sync_upd_sync [simp]: "on_sync (upd_sync s f w) = on_sync w"
  by (simp add: on_sync_def fun_eq_iff)

lemma objs_ok_upd_sync:
  assumes "objs_ok w" and "\<And>sy ops. syncs w s = Some sy \<Longrightarrow> kind_ok ops (s_data sy) \<Longrightarrow> kind_ok ops (s_data (f sy))"
  shows "objs_ok (upd_sync s f w)"
proof -
  have "\<exists>sy. syncs (upd_sync s f w) u = Some sy \<and> kind_ok (o_ops ob) (s_data sy)"
    if u: "objs w x = Some ob" "o_sync ob = Some u" for x ob u
  proof -
    obtain sy where "syncs w u = Some sy" "kind_ok (o_ops ob) (s_data sy)"
      using assms(1) u unfolding objs_ok_def by blast
    with assms(2) show ?thesis
      by auto
  qed
  with assms(1) show ?thesis
    unfolding objs_ok_def by simp
qed

lemma sync_ok_upd_sync [simp]: "sync_ok K (upd_sync s f w) = sync_ok K w"
  by (simp add: sync_ok_def fun_eq_iff)

lemma syncs_ok_upd_sync:
  assumes "syncs_ok K w" and "\<And>sy. syncs w s = Some sy \<Longrightarrow> sync_ok K w s sy \<Longrightarrow> sync_ok K w s (f sy)"
  shows "syncs_ok K (upd_sync s f w)"
  using assms by (auto simp: syncs_ok_def)

lemma queues_ok_upd_sync:
  assumes "queues_ok L w"
    and "\<And>sy. syncs w s = Some sy \<Longrightarrow> s_queue (f sy) = s_queue sy"
  shows "queues_ok L (upd_sync s f w)"
  using assms unfolding queues_ok_def by auto

lemma owned_by_upd_sync:
  "owned_by (upd_sync s f w) u =
     (if u = s then Option.bind (syncs w s) (\<lambda>sy. owner_of (s_data (f sy))) else owned_by w u)"
  by (cases "syncs w s") (simp_all add: owned_by_def)

lemma mutexes_ok_upd_sync:
  assumes "mutexes_ok w" and "\<And>sy. syncs w s = Some sy \<Longrightarrow> owner_of (s_data (f sy)) = owner_of (s_data sy)"
  shows "mutexes_ok (upd_sync s f w)"
proof -
  have "owned_by (upd_sync s f w) = owned_by w"
    using assms(2) by (auto simp: owned_by_upd_sync fun_eq_iff owned_by_def split: bind_splits)
  with assms(1) show ?thesis
    by (simp add: mutexes_ok_def)
qed

lemma syncs_ok_refs:
  assumes "syncs_ok K w" and "syncs w s = Some sy"
  shows "live_sync w s sy" and "s_refs sy \<le> 3" and "data_ok (s_data sy)"
proof -
  have "sync_ok K w s sy"
    using assms by (simp add: syncs_ok_def)
  then have 1: "0 < s_refs sy" "data_ok (s_data sy)" and 2: "s_refs sy \<le> 3"
    unfolding sync_ok_def by (blast, blast, simp add: of_bool_def)
  then show "live_sync w s sy" and "s_refs sy \<le> 3" and "data_ok (s_data sy)"
    using assms(2) by (simp_all add: live_sync_def)
qed

lemma sync_of_Some: "sync_of w x = Some s \<longleftrightarrow> (\<exists>ob. objs w x = Some ob \<and> o_sync ob = Some s)"
  by (auto simp: sync_of_def bind_eq_Some_conv)

lemma inv_sync:
  assumes "sync_inv K L H w" and "sync_of w x = Some s"
  obtains sy ob where "live_sync w s sy" and "syncs w s = Some sy" and "data_ok (s_data sy)"
    and "objs w x = Some ob" and "o_sync ob = Some s" and "kind_ok (o_ops ob) (s_data sy)"
proof -
  obtain ob where ob: "objs w x = Some ob" "o_sync ob = Some s"
    using assms(2) by (auto simp: sync_of_Some)
  then obtain sy where "syncs w s = Some sy" "kind_ok (o_ops ob) (s_data sy)"
    using assms(1) unfolding sync_inv_def objs_ok_def by blast
  with ob assms(1) show ?thesis
    using that syncs_ok_refs [of K w s sy] by (auto simp: sync_inv_def)
qed

lemma inv_remove_queue:
  assumes "sync_inv K (add_mset (e, x) L) H w" and s: "sync_of w x = Some s"
  shows "sync_inv K L (add_mset x H) (upd_sync s (remove_queue e) w)"
proof -
  let ?w = "upd_sync s (remove_queue e) w"
  have q: "queues_ok (add_mset (e, x) L) w"
    using assms(1) by (simp add: sync_inv_def)
  have "queues_ok L ?w"
    unfolding queues_ok_def
  proof (intro conjI allI impI ballI)
    fix s' sy'
    assume "syncs ?w s' = Some sy'"
    then obtain sy where sy: "syncs w s' = Some sy" "sy' = (if s' = s then remove_queue e sy else sy)"
      by (auto split: if_splits)
    with q have "mset (s_queue sy) = image_mset fst (filter_mset (on_sync w s') (add_mset (e, x) (entries w + L)))"
      by (auto simp: queues_ok_def)
    with sy s show "mset (s_queue sy') = image_mset fst (filter_mset (on_sync ?w s') (entries ?w + L))"
      by (auto simp: remove_queue_def on_sync_def)
  qed (use q in \<open>auto simp: queues_ok_def\<close>)
  moreover have "objs_ok ?w" "syncs_ok K ?w" "mutexes_ok ?w"
    using assms(1) by (auto simp: sync_inv_def remove_queue_def sync_ok_def
        intro!: objs_ok_upd_sync syncs_ok_upd_sync mutexes_ok_upd_sync)
  ultimately show ?thesis
    using assms(1) by (simp add: sync_inv_def)
qed

lemma inv_add_queue:
  assumes "sync_inv K L (add_mset x H) w" and s: "sync_of w x = Some s"
  shows "sync_inv K (add_mset (e, x) L) H (upd_sync s (add_queue e) w)"
proof -
  let ?w = "upd_sync s (add_queue e) w"
  have q: "queues_ok L w"
    using assms(1) by (simp add: sync_inv_def)
  have "queues_ok (add_mset (e, x) L) ?w"
    unfolding queues_ok_def
  proof (intro conjI allI impI ballI)
    fix s' sy'
    assume "syncs ?w s' = Some sy'"
    then obtain sy where sy: "syncs w s' = Some sy" "sy' = (if s' = s then add_queue e sy else sy)"
      by (auto split: if_splits)
    with q have "mset (s_queue sy) = image_mset fst (filter_mset (on_sync w s') (entries w + L))"
      by (auto simp: queues_ok_def)
    with sy s show "mset (s_queue sy') =
        image_mset fst (filter_mset (on_sync ?w s') (entries ?w + add_mset (e, x) L))"
      by (auto simp: add_queue_def on_sync_def)
  qed (use q s in \<open>auto simp: queues_ok_def\<close>)
  moreover have "objs_ok ?w" "syncs_ok K ?w" "mutexes_ok ?w"
    using assms(1) by (auto simp: sync_inv_def add_queue_def sync_ok_def
        intro!: objs_ok_upd_sync syncs_ok_upd_sync mutexes_ok_upd_sync)
  ultimately show ?thesis
    using assms(1) by (simp add: sync_inv_def)
qed


subsection \<open>The invariant under updates of a thread\<close>

lemma live_threads_upd_thread:
  assumes "\<And>th. t_obj (f th) = t_obj th" "\<And>th. terminated (f th) = terminated th"
  shows "live_threads (upd_thread t f w) = live_threads w"
proof (cases "t < length (threads w)")
  case True
  let ?a = "threads w ! t"
  obtain M where m: "mset (threads w) = add_mset ?a M"
    using True by (meson multi_member_split nth_mem_mset)
  have "mset (threads (upd_thread t f w)) = add_mset (f ?a) M"
    using True by (simp add: upd_thread_def mset_update thread_of_def m)
  with m show ?thesis
    by (simp add: live_threads_def assms)
qed (simp add: live_threads_def upd_thread_def list_update_beyond)

lemma upd_thread_same:
  assumes "\<And>th. t_obj (f th) = t_obj th" "\<And>th. terminated (f th) = terminated th"
    and "\<And>th. waits (f th) = waits th"
  shows "holders (upd_thread t f w) = holders w" and "refs_ok H (upd_thread t f w) = refs_ok H w"
    and "waits_ok (upd_thread t f w) = waits_ok w" and "queues_ok L (upd_thread t f w) = queues_ok L w"
  using live_threads_upd_thread [of f t w, OF assms(1,2)] stacks_upd_thread_same [of f t w, OF assms(3)]
  by (simp_all add: holders_def refs_ok_def refs_of_def waits_ok_def wait_ok_def is_semaphore_def [abs_def]
      queues_ok_def on_sync_def [abs_def])

lemma upd_thread_objs [simp]:
  "objs_ok (upd_thread t f w) = objs_ok w" "syncs_ok K (upd_thread t f w) = syncs_ok K w"
  "owned_by (upd_thread t f w) = owned_by w"
  by (simp_all add: objs_ok_def syncs_ok_def sync_ok_def owned_by_def [abs_def])

lemma mutexes_ok_upd_thread:
  assumes "mutexes_ok w" and "\<And>th. mutex_list (f th) = mutex_list th"
  shows "mutexes_ok (upd_thread t f w)"
  using assms by (simp add: mutexes_ok_def thread_of_upd_thread)

lemma inv_upd_thread:
  assumes "sync_inv K L H w"
    and "\<And>th. t_obj (f th) = t_obj th" "\<And>th. terminated (f th) = terminated th"
    and "\<And>th. waits (f th) = waits th" "\<And>th. mutex_list (f th) = mutex_list th"
  shows "sync_inv K L H (upd_thread t f w)"
  using assms by (simp add: sync_inv_def upd_thread_same mutexes_ok_upd_thread)

lemma mutexes_ok_add:
  assumes "mutexes_ok w" and "owned_by w s = None" and "t < length (threads w)"
    and "threads w' = threads w" and "owned_by w' = (owned_by w)(s := Some t)"
  shows "mutexes_ok (upd_thread t (add_mutex s) w')"
proof -
  have th: "thread_of w' = thread_of w"
    using assms(4) by (simp add: thread_of_def fun_eq_iff)
  have "count_list (mutex_list (thread_of (upd_thread t (add_mutex s) w') u)) r =
      count_list (mutex_list (thread_of w u)) r + of_bool (u = t \<and> r = s)" for u r
    using assms(3,4) by (simp add: thread_of_upd_thread th add_mutex_def)
  moreover have "count_list (mutex_list (thread_of w u)) r = of_bool (owned_by w r = Some u)" for u r
    using assms(1) by (simp add: mutexes_ok_def)
  ultimately show ?thesis
    using assms(2) by (simp add: mutexes_ok_def assms(5))
qed

lemma word_dec_le: "(c :: 32 word) \<noteq> 0 \<Longrightarrow> c \<le> m \<Longrightarrow> c - 1 \<le> m"
  by (simp add: word_le_nat_alt unat_minus_one)

lemma inv_take_sync:
  assumes inv: "sync_inv K L H w" and s: "syncs w s = Some sy" and r: "ready (s_data sy) t"
    and t: "t < length (threads w)"
  shows "sync_inv K L H (take_sync s (s_data sy) t w)"
proof -
  let ?f = "\<lambda>y. y\<lparr>s_data := taken (s_data sy) t, s_refs := s_refs y + of_bool (newly_owned (s_data sy))\<rparr>"
  let ?w1 = "upd_sync s ?f w"
  have ok: "sync_ok K w s sy"
    using inv s by (simp add: sync_inv_def syncs_ok_def)
  have "sync_ok K w s (?f sy)"
    using ok r by (auto simp: sync_ok_def data_ok_def taken_def newly_owned_def ready_def owner_of_def
        split: sync_data.splits if_splits intro: word_dec_le)
  moreover have "kind_ok ops (s_data (?f sy)) = kind_ok ops (s_data sy)" for ops
    by (auto simp: kind_ok_def taken_def split: sync_data.splits)
  ultimately have 1: "objs_ok ?w1" "syncs_ok K ?w1" "queues_ok L ?w1"
    using inv s by (auto simp: sync_inv_def intro!: objs_ok_upd_sync syncs_ok_upd_sync queues_ok_upd_sync)
  show ?thesis
  proof (cases "newly_owned (s_data sy)")
    case True
    then have o: "owned_by w s = None" "owned_by ?w1 = (owned_by w)(s := Some t)"
      using r s by (auto simp: owned_by_upd_sync owned_by_def [of w s] newly_owned_def ready_def owner_of_def taken_def
          split: sync_data.splits if_splits)
    have "mutexes_ok (upd_thread t (add_mutex s) ?w1)"
      using inv o t by (intro mutexes_ok_add [of w]) (simp_all add: sync_inv_def)
    with True 1 inv show ?thesis
      by (simp add: sync_inv_def take_sync_def upd_thread_same add_mutex_def)
  next
    case False
    then have "owner_of (taken (s_data sy) t) = owner_of (s_data sy)"
      using r by (auto simp: newly_owned_def ready_def owner_of_def taken_def split: sync_data.splits if_splits)
    then have "mutexes_ok ?w1"
      using inv s by (intro mutexes_ok_upd_sync) (simp_all add: sync_inv_def)
    with False 1 inv show ?thesis
      by (simp add: sync_inv_def take_sync_def)
  qed
qed


subsection \<open>References to objects\<close>

lemma count_image_filter: "count (image_mset f (mset xs)) x = length (filter (\<lambda>h. f h = x) xs)"
  by (induction xs) auto

lemma handle_count_holders: "handle_count w x \<le> count (holders w) x"
  by (simp add: handle_count_def holders_def count_image_filter [of "fst \<circ> snd", unfolded comp_def] comp_def)

lemma wait_entries_objs: "wt \<in> set ws \<Longrightarrow> y \<in> set (w_objs wt) \<Longrightarrow> y \<in> snd ` set (wait_entries t ws)"
proof (induction ws)
  case (Cons a ws)
  have "snd ` set (numbered t (length ws) 0 (w_objs a)) = set (w_objs a)"
    using arg_cong [OF map_snd_numbered [of t "length ws" 0 "w_objs a"], of set] by (simp only: set_map)
  with Cons show ?case
    by (auto simp: image_Un)
qed simp

lemma entries_objs:
  assumes "ws \<in> set ss" and "wt \<in> set ws" and "y \<in> set (w_objs wt)"
  shows "y \<in># image_mset snd (entries_in ss)"
proof -
  obtain t where t: "t < length ss" "ss ! t = ws"
    using assms(1) by (auto simp: in_set_conv_nth)
  have "mset (wait_entries t (ss ! t)) \<subseteq># entries_in ss"
    using entries_in_update [OF t(1), of "[]"] by (metis add.right_neutral mset_subset_eq_add_right wait_entries.simps(1) mset.simps(1))
  moreover have "y \<in> snd ` set (wait_entries t ws)"
    using wait_entries_objs [OF assms(2,3)] .
  ultimately show ?thesis
    using t(2) by (force dest: mset_subset_eqD)
qed

lemma waits_ok_cong:
  assumes "waits_ok w" and "stacks w' = stacks w"
    and "\<And>y. y \<in># image_mset snd (entries w) \<Longrightarrow> is_semaphore w' y = is_semaphore w y"
  shows "waits_ok w'"
proof -
  have "filter (is_semaphore w') (w_objs wt) = filter (is_semaphore w) (w_objs wt)"
    if "ws \<in> set (stacks w)" "wt \<in> set ws" for ws wt
    using assms(3) entries_objs [OF that] by (intro filter_cong) simp_all
  with assms(1,2) show ?thesis
    by (simp add: waits_ok_def wait_ok_def)
qed

lemma oks_cong:
  assumes "sync_of w' = sync_of w" and "syncs w' = syncs w" and "threads w' = threads w"
  shows "syncs_ok K w' = syncs_ok K w" and "queues_ok L w' = queues_ok L w" and "mutexes_ok w' = mutexes_ok w"
proof -
  have o: "on_sync w' = on_sync w"
    by (simp add: on_sync_def fun_eq_iff assms)
  show "syncs_ok K w' = syncs_ok K w"
    unfolding syncs_ok_def sync_ok_def assms ..
  show "queues_ok L w' = queues_ok L w"
    unfolding queues_ok_def stacks_def o assms ..
  show "mutexes_ok w' = mutexes_ok w"
    unfolding mutexes_ok_def owned_by_def thread_of_cong [OF assms(3)] assms ..
qed

lemma waits_ok_drop:
  assumes "waits_ok w" and "stacks w' = stacks w" and "x \<notin># image_mset snd (entries w + L)"
    and "objs w' = (objs w)(x := None)"
  shows "waits_ok w'"
proof (rule waits_ok_cong [OF assms(1,2)])
  fix y
  assume "y \<in># image_mset snd (entries w)"
  then have "y \<noteq> x"
    using assms(3) by (metis image_mset_union union_iff)
  then show "is_semaphore w' y = is_semaphore w y"
    by (simp add: is_semaphore_def assms(4))
qed

lemma queues_ok_drop:
  assumes "queues_ok L w" and "stacks w' = stacks w" and "x \<notin># image_mset snd (entries w + L)"
    and "sync_of w' = (sync_of w)(x := None)"
    and "\<And>s sy'. syncs w' s = Some sy' \<Longrightarrow> \<exists>sy. syncs w s = Some sy \<and> s_queue sy' = s_queue sy"
  shows "queues_ok L w'"
proof -
  have "filter_mset (on_sync w' s) (entries w + L) = filter_mset (on_sync w s) (entries w + L)" for s
    using assms(3) by (intro filter_mset_cong) (auto simp: on_sync_def assms(4))
  moreover have "sync_of w' (snd ex) \<noteq> None" if "ex \<in># entries w + L" for ex
    using assms(1,3) that by (auto simp: queues_ok_def assms(4))
  ultimately show ?thesis
    using assms(1,2,5) unfolding queues_ok_def by (metis (no_types, lifting))
qed

lemma refs_ok_drop:
  assumes "refs_ok (add_mset x H) w" and "refs_of w x = 1" and "holders w' = holders w"
    and "objs w' = (objs w)(x := None)"
  shows "refs_ok H w'" and "count (holders w + H) x = 0"
proof -
  have "count (holders w + add_mset x H) x \<le> 1"
    using assms(1,2) by (metis refs_ok_def)
  then show 0: "count (holders w + H) x = 0"
    by simp
  show "refs_ok H w'"
    using assms(1) 0 unfolding refs_ok_def assms(3)
    by (auto simp: refs_of_def assms(4) split: if_splits)
qed


lemma sync_okD: "sync_ok K w s sy \<Longrightarrow> data_ok (s_data sy) \<and> 0 < s_refs sy"
  unfolding sync_ok_def by blast

lemma sync_ok_last:
  assumes "sync_ok K w s sy" and "sync_of w x = Some s" and "s_refs sy = 1"
  shows "owner_of (s_data sy) = None"
proof -
  have "\<exists>x. sync_of w x = Some s"
    using assms(2) ..
  with assms(1) have "s_refs sy = 1 + of_bool (owner_of (s_data sy) \<noteq> None) + of_bool (K = Some s)"
    by (simp only: sync_ok_def of_bool_eq)
  with assms(3) show ?thesis
    by (cases "owner_of (s_data sy)") simp_all
qed

lemma inv_sync_drop:
  assumes inv: "sync_inv K L (add_mset x H) w" and x: "objs w x = Some ob" and r: "o_refs ob = 1"
    and s: "o_sync ob = Some s" and sy: "syncs w s = Some sy"
    and w': "objs w' = (objs w)(x := None)" "threads w' = threads w" "handles w' = handles w" "\<not> fault w'"
      "syncs w' = (syncs w)(s := (if s_refs sy = 1 then None else Some (sy\<lparr>s_refs := s_refs sy - 1\<rparr>)))"
  shows "sync_inv K L H w'"
proof -
  have so: "sync_of w' = (sync_of w)(x := None)"
    by (auto simp: sync_of_def w' fun_eq_iff)
  have h: "holders w' = holders w" and st: "stacks w' = stacks w"
    by (simp_all add: holders_def live_threads_def stacks_def w')
  have "refs_ok (add_mset x (image_mset snd L + H)) w" "refs_of w x = 1"
    using inv x r by (simp_all add: sync_inv_def refs_of_def)
  note refs = refs_ok_drop [OF this h w'(1)]
  have nx: "x \<notin># image_mset snd (entries w + L)"
    using refs(2) by (simp add: holders_def count_eq_zero_iff)
  have ob: "objs_ok w" and inj: "\<And>y. sync_of w y = Some s \<Longrightarrow> y = x"
    using inv x s unfolding sync_inv_def objs_ok_def by (blast, metis sync_of_Some)
  have "objs_ok w'"
    unfolding objs_ok_def
  proof (intro conjI allI impI)
    fix y ob' s'
    assume a: "objs w' y = Some ob'" "o_sync ob' = Some s'"
    then have y: "y \<noteq> x" "objs w y = Some ob'"
      by (simp_all add: w' split: if_splits)
    then have "s' \<noteq> s"
      using inj [of y] a by (auto simp: sync_of_Some)
    with ob y a show "\<exists>sy. syncs w' s' = Some sy \<and> kind_ok (o_ops ob') (s_data sy)"
      unfolding objs_ok_def by (auto simp: w')
  next
    show "\<And>y ob'. objs w' y = Some ob' \<Longrightarrow> o_sync ob' = None \<Longrightarrow> o_ops ob' = Other_ops"
      using ob unfolding objs_ok_def w' by (metis fun_upd_apply option.distinct(1))
    show "\<And>y z s'. sync_of w' y = Some s' \<Longrightarrow> sync_of w' z = Some s' \<Longrightarrow> y = z"
      using ob unfolding objs_ok_def so by (metis fun_upd_apply option.distinct(1))
  qed
  moreover have "syncs_ok K w'"
    unfolding syncs_ok_def
  proof (intro conjI allI impI)
    fix s'
    assume k: "K = Some s'"
    have "sync_ok K w s sy" "\<exists>y. sync_of w y = Some s"
      using x s sy inv by (auto simp: sync_of_Some sync_inv_def syncs_ok_def)
    with k have "s' = s \<Longrightarrow> s_refs sy \<noteq> 1"
      by (auto simp: sync_ok_def)
    with k inv show "syncs w' s' \<noteq> None"
      by (auto simp: w' sync_inv_def syncs_ok_def)
  next
    fix s' sy'
    assume a: "syncs w' s' = Some sy'"
    show "sync_ok K w' s' sy'"
    proof (cases "s' = s")
      case True
      have "\<not> (\<exists>y. sync_of w' y = Some s)"
        using inj by (auto simp: so)
      moreover have "\<exists>y. sync_of w y = Some s" "sync_ok K w s sy"
        using x s sy inv by (auto simp: sync_of_Some sync_inv_def syncs_ok_def)
      ultimately show ?thesis
        using True a by (auto simp: w' sync_ok_def split: if_splits)
    next
      case False
      have "sync_of w x = Some s"
        using x s by (simp add: sync_of_Some)
      with False have "(\<exists>y. sync_of w' y = Some s') = (\<exists>y. sync_of w y = Some s')"
        unfolding so by (metis fun_upd_apply option.inject option.distinct(1))
      moreover have "sync_ok K w s' sy'"
        using False a inv by (simp add: w' sync_inv_def syncs_ok_def)
      ultimately show ?thesis
        by (auto simp: sync_ok_def)
    qed
  qed
  moreover have "queues_ok L w'"
    using inv sy by (intro queues_ok_drop [OF _ st nx so]) (auto simp: sync_inv_def w' split: if_splits)
  moreover have "mutexes_ok w'"
  proof -
    have "sync_of w x = Some s" "sync_ok K w s sy"
      using x s sy inv by (simp_all add: sync_of_Some sync_inv_def syncs_ok_def)
    then have "owner_of (s_data sy) = None" if "s_refs sy = 1"
      using that by (blast intro: sync_ok_last)
    then have "owned_by w' = owned_by w"
      using sy by (auto simp: owned_by_def fun_eq_iff w')
    then show ?thesis
      using inv by (simp add: sync_inv_def mutexes_ok_def thread_of_cong [OF w'(2)])
  qed
  moreover have "waits_ok w'"
    using inv by (intro waits_ok_drop [OF _ st nx w'(1)]) (simp add: sync_inv_def)
  ultimately show ?thesis
    using refs(1) by (simp add: sync_inv_def w')
qed

lemma empty_queue:
  assumes inv: "sync_inv K L H w" and sy: "syncs w s = Some sy"
    and no: "\<And>ex. ex \<in># entries w + L \<Longrightarrow> sync_of w (snd ex) \<noteq> Some s"
  shows "s_queue sy = []"
proof -
  have "filter_mset (on_sync w s) (entries w + L) = {#}"
  proof (rule ccontr)
    assume "filter_mset (on_sync w s) (entries w + L) \<noteq> {#}"
    then obtain ex where "ex \<in># filter_mset (on_sync w s) (entries w + L)"
      by (metis multiset_nonemptyE)
    then have "ex \<in># entries w + L" "sync_of w (snd ex) = Some s"
      unfolding on_sync_def by auto
    with no show False
      by blast
  qed
  moreover have "mset (s_queue sy) = image_mset fst (filter_mset (on_sync w s) (entries w + L))"
    using inv sy unfolding sync_inv_def queues_ok_def by blast
  ultimately show ?thesis
    by (metis image_mset_empty mset_zero_iff)
qed

lemma release_sync_eq:
  assumes "syncs w s = Some sy" and "data_ok (s_data sy)" and "0 < s_refs sy"
    and "s_refs sy = 1 \<Longrightarrow> s_queue sy = []" and "s_refs sy = 1 \<Longrightarrow> owner_of (s_data sy) = None"
  shows "release_sync s w =
    w\<lparr>syncs := (syncs w)(s := (if s_refs sy = 1 then None else Some (sy\<lparr>s_refs := s_refs sy - 1\<rparr>)))\<rparr>"
proof (cases "s_refs sy = 1")
  case True
  then have "sync_destroy (s_data sy) w = w"
    using assms(2,5) by (auto simp: sync_destroy_def owner_of_def data_ok_def assert_that_def split: sync_data.splits)
  with True assms show ?thesis
    by (simp add: release_sync_def assert_that_def)
qed (use assms in \<open>auto simp: release_sync_def upd_sync_def\<close>)

lemma release_obj_last:
  assumes inv: "sync_inv K L (add_mset x H) w" and x: "objs w x = Some ob" and r: "o_refs ob = 1"
  shows "sync_inv K L H (release_obj x w)"
proof -
  have "count (holders w + add_mset x (image_mset snd L + H)) x \<le> 1"
    using inv x r by (auto simp: sync_inv_def refs_ok_def refs_of_def dest!: spec [of _ x])
  then have "count (holders w) x = 0" "count (image_mset snd L) x = 0"
    by simp_all
  then have h: "handle_count w x = 0" and nx: "x \<notin># image_mset snd (entries w + L)"
    using handle_count_holders [of w x] by (simp, simp add: holders_def count_eq_zero_iff)
  show ?thesis
  proof (cases "o_sync ob")
    case None
    let ?w = "w\<lparr>objs := (objs w)(x := None)\<rparr>"
    have w': "release_obj x w = ?w"
      using x r h None by (simp add: release_obj_def obj_destroy_def assert_that_def)
    have so: "sync_of ?w = sync_of w" and st: "stacks ?w = stacks w"
      using x None by (auto simp: sync_of_def fun_eq_iff stacks_def)
    have ho: "holders ?w = holders w"
      by (simp add: holders_def live_threads_def st)
    have "refs_ok (add_mset x (image_mset snd L + H)) w" "refs_of w x = 1"
      using inv x r by (simp_all add: sync_inv_def refs_of_def)
    then have "refs_ok (image_mset snd L + H) ?w"
      by (rule refs_ok_drop(1) [OF _ _ ho]) simp
    moreover have "objs_ok ?w"
      using inv unfolding sync_inv_def objs_ok_def so by (simp split: if_splits)
    moreover have "waits_ok ?w"
      using inv by (intro waits_ok_drop [OF _ st nx]) (simp_all add: sync_inv_def)
    ultimately show ?thesis
      using inv unfolding w' sync_inv_def
      by (simp add: oks_cong [OF so])
  next
    case (Some s)
    then have s: "sync_of w x = Some s"
      using x by (simp add: sync_of_Some)
    obtain sy where sy: "syncs w s = Some sy" and d: "data_ok (s_data sy)" and ok: "sync_ok K w s sy"
      using inv_sync [OF inv s] inv by (metis sync_inv_def syncs_ok_def)
    have "s_queue sy = []"
      using inv s nx unfolding sync_inv_def objs_ok_def by (intro empty_queue [OF inv sy]) (metis image_eqI set_image_mset)
    moreover have "owner_of (s_data sy) = None" if "s_refs sy = 1"
      by (rule sync_ok_last [OF ok s that])
    ultimately have rel: "release_sync s w =
        w\<lparr>syncs := (syncs w)(s := (if s_refs sy = 1 then None else Some (sy\<lparr>s_refs := s_refs sy - 1\<rparr>)))\<rparr>"
      using sync_okD [OF ok] by (intro release_sync_eq [OF sy]) simp_all
    show ?thesis
      using x r h Some rel inv
      by (intro inv_sync_drop [OF inv x r Some sy])
        (simp_all add: release_obj_def obj_destroy_def assert_that_def sync_inv_def)
  qed
qed

lemma inv_set_refs:
  assumes inv: "sync_inv K L H w" and x: "objs w x = Some ob" and n: "0 < n"
    and c: "count (holders w + image_mset snd L + H') x \<le> n" and H: "\<And>y. y \<noteq> x \<Longrightarrow> count H' y \<le> count H y"
  shows "sync_inv K L H' (w\<lparr>objs := (objs w)(x \<mapsto> ob\<lparr>o_refs := n\<rparr>)\<rparr>)" (is "sync_inv K L H' ?w")
proof -
  have so: "sync_of ?w = sync_of w" and st: "stacks ?w = stacks w" and se: "is_semaphore ?w = is_semaphore w"
    using x by (auto simp: sync_of_def fun_eq_iff stacks_def is_semaphore_def)
  have ho: "holders ?w = holders w"
    by (simp add: holders_def live_threads_def st)
  have "count (holders w + (image_mset snd L + H')) y \<le> refs_of ?w y" for y
  proof (cases "y = x")
    case False
    have "count (holders w + (image_mset snd L + H)) y \<le> refs_of w y"
      using inv by (simp only: sync_inv_def refs_ok_def)
    with False H [OF False] show ?thesis
      by (simp add: refs_of_def)
  qed (use c in \<open>simp add: refs_of_def\<close>)
  then have "refs_ok (image_mset snd L + H') ?w"
    using inv n by (auto simp: refs_ok_def ho sync_inv_def)
  moreover have "objs_ok ?w"
    unfolding objs_ok_def so
    using inv x by (auto simp: sync_inv_def objs_ok_def)
  moreover have "waits_ok ?w"
    using inv by (simp add: sync_inv_def waits_ok_def wait_ok_def st se)
  ultimately show ?thesis
    using inv unfolding sync_inv_def
    by (simp add: oks_cong [OF so])
qed

lemma inv_release_obj:
  assumes inv: "sync_inv K L (add_mset x H) w"
  shows "sync_inv K L H (release_obj x w)"
proof -
  have c: "count (holders w + (image_mset snd L + add_mset x H)) x \<le> refs_of w x"
    using inv by (simp only: sync_inv_def refs_ok_def)
  then obtain ob where x: "objs w x = Some ob" and pos: "0 < o_refs ob"
    by (cases "objs w x") (auto simp: refs_of_def)
  show ?thesis
  proof (cases "o_refs ob = 1")
    case False
    with x pos have "release_obj x w = w\<lparr>objs := (objs w)(x \<mapsto> ob\<lparr>o_refs := o_refs ob - 1\<rparr>)\<rparr>"
      by (simp add: release_obj_def)
    with False pos c x show ?thesis
      by (simp add: inv_set_refs [OF inv x] refs_of_def)
  qed (rule release_obj_last [OF inv x])
qed

lemma inv_grab_obj:
  assumes inv: "sync_inv K L H w" and x: "objs w x = Some ob" and m: "o_refs ob < INT_MAX"
  shows "sync_inv K L (add_mset x H) (grab_obj x w)"
proof -
  have "count (holders w + (image_mset snd L + H)) x \<le> refs_of w x"
    using inv by (simp only: sync_inv_def refs_ok_def)
  with x m show ?thesis
    by (simp add: grab_obj_def assert_that_def inv_set_refs [OF inv x] refs_of_def)
qed


lemma inv_release_sync:
  assumes inv: "sync_inv (Some s) L H w" and sy: "syncs w s = Some sy"
  shows "sync_inv None L H (release_sync s w)" (is "sync_inv None L H ?w")
proof -
  have ok: "sync_ok (Some s) w s sy"
    using inv sy by (simp add: sync_inv_def syncs_ok_def)
  then have one: "(\<forall>x. sync_of w x \<noteq> Some s) \<and> owner_of (s_data sy) = None" if "s_refs sy = 1"
    using that by (auto simp: sync_ok_def)
  have "s_queue sy = []" if "s_refs sy = 1"
    using one [OF that] by (intro empty_queue [OF inv sy]) simp
  then have rel: "?w = w\<lparr>syncs := (syncs w)(s := (if s_refs sy = 1 then None else Some (sy\<lparr>s_refs := s_refs sy - 1\<rparr>)))\<rparr>"
    using sync_okD [OF ok] one by (intro release_sync_eq [OF sy]) simp_all
  then have so: "sync_of ?w = sync_of w" and th: "threads ?w = threads w" and st: "stacks ?w = stacks w"
    by (simp_all add: sync_of_def fun_eq_iff stacks_def)
  have ow: "owned_by ?w = owned_by w"
    using sy one by (auto simp: owned_by_def fun_eq_iff rel)
  have "objs_ok ?w"
    unfolding objs_ok_def so
  proof (intro conjI allI impI)
    fix x ob s'
    assume "objs ?w x = Some ob" and o: "o_sync ob = Some s'"
    then have x: "objs w x = Some ob" "o_sync ob = Some s'"
      by (simp_all add: rel)
    then obtain sy' where s': "syncs w s' = Some sy'" "kind_ok (o_ops ob) (s_data sy')"
      using inv unfolding sync_inv_def objs_ok_def by blast
    have "sync_of w x = Some s'"
      using x by (simp add: rel sync_of_Some)
    with s' sy one show "\<exists>sy. syncs ?w s' = Some sy \<and> kind_ok (o_ops ob) (s_data sy)"
      by (cases "s' = s") (auto simp: rel)
  qed (use inv in \<open>auto simp: sync_inv_def objs_ok_def rel\<close>)
  moreover have "syncs_ok None ?w"
    unfolding syncs_ok_def
  proof (intro conjI allI impI)
    fix s' sy'
    assume a: "syncs ?w s' = Some sy'"
    show "sync_ok None ?w s' sy'"
    proof (cases "s' = s")
      case True
      with a ok show ?thesis
        by (auto simp: rel sync_ok_def sync_of_def split: if_splits)
    next
      case False
      then have "sync_ok (Some s) w s' sy'"
        using a inv by (simp add: rel sync_inv_def syncs_ok_def)
      with False show ?thesis
        by (auto simp: sync_ok_def so)
    qed
  qed simp
  moreover have "queues_ok L ?w"
    using inv sy unfolding sync_inv_def queues_ok_def
    by (auto simp: st on_sync_def [abs_def] so) (auto simp: rel split: if_splits)
  moreover have "mutexes_ok ?w"
    using inv by (simp add: sync_inv_def mutexes_ok_def ow thread_of_cong [OF th])
  ultimately show ?thesis
    using inv by (simp add: sync_inv_def rel refs_ok_def refs_of_def holders_def live_threads_def stacks_def
        waits_ok_def wait_ok_def is_semaphore_def [abs_def])
qed

end
