(* ===== verification/Sync_Steps.thy ===== *)
theory Sync_Steps
  imports Sync_Inv
begin

text \<open>
  The operations on waits keep the invariant of \<open>Sync_Inv\<close>, and none of them makes an object signaled:
  ending a wait, building one, testing one, waking a thread, waking a queue.
\<close>

subsection \<open>Kinds of syncs\<close>

text \<open>
  What the engine relies on from each kind of sync: taking it when it is ready never makes it
  signaled for anybody, however often it is taken and by whom.
\<close>

locale sync_kind =
  fixes is_signaled :: "'d \<Rightarrow> tid \<Rightarrow> bool"
    and is_ready :: "'d \<Rightarrow> tid \<Rightarrow> bool"
    and take :: "'d \<Rightarrow> tid \<Rightarrow> 'd"
  assumes take_quiet: "is_ready d t \<Longrightarrow> is_signaled (take d t) u \<Longrightarrow> is_signaled d u"
begin

lemma takes_quiet:
  "\<forall>i < length ts. is_ready (foldl take d (List.take i ts)) (ts ! i) \<Longrightarrow>
   is_signaled (foldl take d ts) u \<Longrightarrow> is_signaled d u"
proof (induction ts rule: rev_induct)
  case (snoc t ts)
  have "\<forall>i < length ts. is_ready (foldl take d (List.take i ts)) (ts ! i)"
    using snoc.prems(1) by (metis (no_types, lifting) butlast_snoc length_append_singleton less_SucI
        nth_append nth_butlast take_butlast less_Suc_eq_le min.absorb1 order_less_imp_le take_append
        append_Nil2 diff_is_0_eq' take_0)
  moreover have "is_ready (foldl take d ts) t"
    using snoc.prems(1) [rule_format, of "length ts"] by simp
  ultimately show ?case
    using snoc.IH snoc.prems(2) take_quiet by simp
qed simp

end

interpretation event_kind: sync_kind "\<lambda>ev _. event_sync_signaled ev" "\<lambda>_ _. True" "\<lambda>ev _. event_sync_satisfied ev"
  by unfold_locales (simp add: event_sync_signaled_def event_sync_satisfied_def split: if_splits)

interpretation semaphore_kind: sync_kind "\<lambda>sem _. semaphore_sync_signaled sem"
  "\<lambda>sem _. sem_count sem \<noteq> 0" "\<lambda>sem _. sem\<lparr>sem_count := sem_count sem - 1\<rparr>"
  by unfold_locales (simp add: semaphore_sync_signaled_def word_neq_0_conv)

interpretation mutex_kind: sync_kind mutex_sync_signaled
  "\<lambda>m t. (recursion m = 0 \<or> owner m = Some t) \<and> recursion m + 1 \<noteq> 0"
  "\<lambda>m t. \<lparr>owner = Some t, recursion = recursion m + 1, abandoned = False\<rparr>"
  by unfold_locales (auto simp: mutex_sync_signaled_def)

interpretation data_kind: sync_kind sync_signaled ready taken
proof
  fix d t u
  assume r: "ready d t" and s: "sync_signaled (taken d t) u"
  show "sync_signaled d u"
  proof (cases d)
    case (Event_sync ev)
    then show ?thesis
      using s event_kind.take_quiet [of ev] by (simp add: taken_def sync_signaled_def)
  next
    case (Mutex_sync m)
    then show ?thesis
      using s r mutex_kind.take_quiet [of m t u]
      by (auto simp: taken_def sync_signaled_def ready_def split: if_splits)
  next
    case (Semaphore_sync sem)
    then show ?thesis
      using s r semaphore_kind.take_quiet [of sem] by (simp add: taken_def sync_signaled_def ready_def)
  qed
qed

subsection \<open>Taking one object\<close>

text \<open>The part of a sync that never changes, and how many more waits it can satisfy.\<close>

definition shape :: "sync_data \<Rightarrow> sync_data" where
  "shape d =
     (case d of
        Event_sync ev \<Rightarrow> Event_sync (ev\<lparr>signaled := False\<rparr>)
      | Mutex_sync m \<Rightarrow> Mutex_sync \<lparr>owner = None, recursion = 0, abandoned = False\<rparr>
      | Semaphore_sync sem \<Rightarrow> Semaphore_sync (sem\<lparr>sem_count := 0\<rparr>))"

definition capacity :: "sync_data \<Rightarrow> nat" where
  "capacity d =
     (case d of
        Event_sync ev \<Rightarrow> of_bool (signaled ev)
      | Mutex_sync m \<Rightarrow> 0
      | Semaphore_sync sem \<Rightarrow> unat (sem_count sem))"

definition capacity_of :: "engine \<Rightarrow> sid \<Rightarrow> nat" where
  "capacity_of w s = (case syncs w s of None \<Rightarrow> 0 | Some sy \<Rightarrow> capacity (s_data sy))"

definition consumable :: "sync_data \<Rightarrow> bool" where
  "consumable d = (case d of Event_sync ev \<Rightarrow> \<not> manual ev | Mutex_sync m \<Rightarrow> False | Semaphore_sync sem \<Rightarrow> True)"

text \<open>An object a thread can take: an event in any state, or anything signaled for the thread.\<close>

definition avail :: "engine \<Rightarrow> oid \<Rightarrow> tid \<Rightarrow> bool" where
  "avail w x t \<longleftrightarrow>
     (\<exists>s sy. sync_of w x = Some s \<and> syncs w s = Some sy \<and>
        (sync_signaled (s_data sy) t \<or> (\<exists>ev. s_data sy = Event_sync ev)))"

definition subdued :: "tid \<Rightarrow> engine \<Rightarrow> engine \<Rightarrow> bool" where
  "subdued t w w' \<longleftrightarrow>
     (\<forall>y u. sig w' y u \<longrightarrow> sig w y u) \<and>
     (\<forall>s. capacity_of w' s \<le> capacity_of w s) \<and>
     (\<forall>s sy'. syncs w' s = Some sy' \<longrightarrow> (\<exists>sy. syncs w s = Some sy \<and> shape (s_data sy') = shape (s_data sy))) \<and>
     (\<forall>y ob'. objs w' y = Some ob' \<longrightarrow> (\<exists>ob. objs w y = Some ob \<and> o_sync ob' = o_sync ob \<and> o_ops ob' = o_ops ob)) \<and>
     current_time w' = current_time w \<and> monotonic_time w' = monotonic_time w \<and>
     proc_suspend w' = proc_suspend w \<and> handles w' = handles w \<and> length (threads w') = length (threads w) \<and>
     (\<forall>u. u \<noteq> t \<longrightarrow> thread_of w' u = thread_of w u)"

lemma subdued_refl [simp, intro]: "subdued t w w"
  by (simp add: subdued_def)

lemma subdued_trans:
  assumes "subdued t w w'" and "subdued t w' w''"
  shows "subdued t w w''"
proof -
  have "\<exists>sy. syncs w s = Some sy \<and> shape (s_data sy'') = shape (s_data sy)" if "syncs w'' s = Some sy''" for s sy''
    using assms that unfolding subdued_def by metis
  moreover have "capacity_of w'' s \<le> capacity_of w s" for s
    using assms order_trans unfolding subdued_def by blast
  moreover have "\<exists>ob. objs w y = Some ob \<and> o_sync ob'' = o_sync ob \<and> o_ops ob'' = o_ops ob"
    if "objs w'' y = Some ob''" for y ob''
    using assms that unfolding subdued_def by metis
  ultimately show ?thesis
    using assms unfolding subdued_def by simp
qed

lemma subdued_sync_of: "subdued t w w' \<Longrightarrow> sync_of w' y = Some s \<Longrightarrow> sync_of w y = Some s"
  unfolding subdued_def sync_of_Some by metis

lemma sig_avail: "sig w x t \<Longrightarrow> avail w x t"
  by (auto simp: sig_def avail_def split: option.splits bind_splits)

lemma room_mono: "room P w \<Longrightarrow> P' \<subseteq># P \<Longrightarrow> room P' w"
  unfolding room_def
  by (meson add_le_cancel_left le_less_trans multiset_filter_mono size_mset_mono subset_mset.add_left_mono)

lemma take_sync_fields [simp]:
  "sync_of (take_sync s d t w) = sync_of w"
  "objs (take_sync s d t w) = objs w"
  "stacks (take_sync s d t w) = stacks w"
  "length (threads (take_sync s d t w)) = length (threads w)"
  by (simp_all add: take_sync_def Let_def stacks_upd_thread_same add_mutex_def)
    (simp add: upd_thread_def)

lemma syncs_take_sync:
  "syncs (take_sync s d t w) =
     (syncs w)(s := map_option (\<lambda>sy. sy\<lparr>s_data := taken d t, s_refs := s_refs sy + of_bool (newly_owned d)\<rparr>) (syncs w s))"
  by (simp add: take_sync_def Let_def)

lemma avail_ready:
  assumes inv: "sync_inv K L H w" and a: "avail w x t" and room: "room (add_mset x P) w"
  obtains s sy where "sync_of w x = Some s" and "syncs w s = Some sy" and "live_sync w s sy"
    and "ready (s_data sy) t"
proof -
  obtain s sy where s: "sync_of w x = Some s" "syncs w s = Some sy"
      and g: "sync_signaled (s_data sy) t \<or> (\<exists>ev. s_data sy = Event_sync ev)"
    using a by (auto simp: avail_def)
  have l: "live_sync w s sy" and d: "data_ok (s_data sy)"
    using inv_sync [OF inv s(1)] s(2) by (metis option.inject)+
  have "recursion m + 1 \<noteq> 0" if m: "s_data sy = Mutex_sync m" for m
  proof -
    have "unat (recursion m) + 1 < 2 ^ 32"
      using room s m by (auto simp: room_def dest!: spec [of _ s])
    then have "unat (recursion m + 1) = unat (recursion m) + 1"
      by (simp add: unat_word_ariths)
    then show ?thesis
      by (metis add_is_0 one_neq_zero unat_0)
  qed
  with g d have "ready (s_data sy) t"
    by (auto simp: ready_def sync_signaled_def mutex_sync_signaled_def semaphore_sync_signaled_def data_ok_def
        word_neq_0_conv split: sync_data.splits)
  with s l show ?thesis
    by (rule that)
qed

lemma room_take_sync:
  assumes room: "room (add_mset x P) w" and s: "sync_of w x = Some s" "syncs w s = Some sy"
  shows "room P (take_sync s (s_data sy) t w)"
  unfolding room_def
proof (intro allI impI)
  fix s' sy' m'
  assume a: "syncs (take_sync s (s_data sy) t w) s' = Some sy'" "s_data sy' = Mutex_sync m'"
  let ?n = "\<lambda>P. size (filter_mset (\<lambda>y. sync_of w y = Some s') (image_mset snd (entries w) + P))"
  show "unat (recursion m') + size (filter_mset (\<lambda>y. sync_of (take_sync s (s_data sy) t w) y = Some s')
      (image_mset snd (entries (take_sync s (s_data sy) t w)) + P)) < 2 ^ 32"
  proof (cases "s' = s")
    case True
    then obtain m where m: "s_data sy = Mutex_sync m" "recursion m' = recursion m + 1"
      using a s by (auto simp: syncs_take_sync taken_def split: sync_data.splits)
    then have "unat (recursion m) + ?n (add_mset x P) < 2 ^ 32"
      using room s True unfolding room_def by blast
    then have "unat (recursion m) + 1 + ?n P < 2 ^ 32"
      using s True by simp
    moreover have "unat (recursion m') \<le> unat (recursion m) + 1"
      by (simp add: m unat_word_ariths)
    ultimately show ?thesis
      by simp
  next
    case False
    then have "syncs w s' = Some sy'"
      using a by (simp add: syncs_take_sync)
    then have "unat (recursion m') + ?n (add_mset x P) < 2 ^ 32"
      using room a(2) unfolding room_def by blast
    then show ?thesis
      by (auto split: if_splits)
  qed
qed

lemma taken_shape [simp]: "shape (taken d t) = shape d"
  by (auto simp: shape_def taken_def event_sync_satisfied_def split: sync_data.splits)

lemma taken_capacity:
  assumes "ready d t"
  shows "capacity (taken d t) \<le> capacity d"
    and "sync_signaled d t \<Longrightarrow> consumable d \<Longrightarrow> capacity (taken d t) < capacity d"
  using assms
  by (auto simp: capacity_def taken_def ready_def consumable_def event_sync_satisfied_def sync_signaled_def
      event_sync_signaled_def unat_minus_one unat_gt_0 split: sync_data.splits)

lemma sig_alt: "sig w y u \<longleftrightarrow> (\<exists>s sy. sync_of w y = Some s \<and> syncs w s = Some sy \<and> sync_signaled (s_data sy) u)"
  by (auto simp: sig_def split: option.splits bind_splits)

lemma thread_of_take_sync: "u \<noteq> t \<Longrightarrow> thread_of (take_sync s d t w) u = thread_of w u"
  by (simp add: take_sync_def Let_def thread_of_upd_thread)

lemma take_sync_env [simp]:
  "current_time (take_sync s d t w) = current_time w" "monotonic_time (take_sync s d t w) = monotonic_time w"
  "proc_suspend (take_sync s d t w) = proc_suspend w" "handles (take_sync s d t w) = handles w"
  "errors (take_sync s d t w) = errors w" "sent (take_sync s d t w) = sent w"
  by (simp_all add: take_sync_def Let_def upd_thread_def upd_sync_def)

lemma subdued_take_sync:
  assumes sy: "syncs w s = Some sy" and r: "ready (s_data sy) t"
  shows "subdued t w (take_sync s (s_data sy) t w)" (is "subdued t w ?w")
proof -
  have "sig w y u" if g: "sig ?w y u" for y u
  proof -
    obtain s' sy' where s': "sync_of w y = Some s'" "syncs ?w s' = Some sy'" "sync_signaled (s_data sy') u"
      using g by (auto simp: sig_alt)
    show ?thesis
    proof (cases "s' = s")
      case True
      with s' sy have "sync_signaled (taken (s_data sy) t) u"
        by (auto simp: syncs_take_sync)
      with True s' sy data_kind.take_quiet [OF r] show ?thesis
        by (auto simp: sig_alt)
    qed (use s' in \<open>auto simp: sig_alt syncs_take_sync\<close>)
  qed
  moreover have "capacity_of ?w s' \<le> capacity_of w s'" for s'
    using sy taken_capacity(1) [OF r] by (simp add: capacity_of_def syncs_take_sync)
  ultimately show ?thesis
    using sy by (auto simp: subdued_def syncs_take_sync thread_of_take_sync)
qed

text \<open>Taking an object that is available.\<close>

definition waiting_part :: "thread_wait \<Rightarrow> thread_wait" where
  "waiting_part wt = wt\<lparr>w_abandoned := False\<rparr>"

lemma take_wait_part [simp]: "waiting_part (take_wait d wt) = waiting_part wt"
  by (simp add: take_wait_def waiting_part_def split: sync_data.splits)

text \<open>The world after a thread took objects, and that it used one of them up.\<close>

definition took ::
  "sid option \<Rightarrow> (wait_queue_entry \<times> oid) multiset \<Rightarrow> oid multiset \<Rightarrow> tid \<Rightarrow> engine \<Rightarrow> engine \<Rightarrow> bool" where
  "took K L H t w w' \<longleftrightarrow>
     sync_inv K L H w' \<and> subdued t w w' \<and> stacks w' = stacks w \<and> objs w' = objs w \<and>
     errors w' = errors w \<and> sent w' = sent w"

definition consumed :: "tid \<Rightarrow> engine \<Rightarrow> engine \<Rightarrow> oid \<Rightarrow> bool" where
  "consumed t w w' x \<longleftrightarrow>
     (\<forall>s sy. sync_of w x = Some s \<longrightarrow> syncs w s = Some sy \<longrightarrow> sig w x t \<longrightarrow> consumable (s_data sy) \<longrightarrow>
        capacity_of w' s < capacity_of w s)"

lemma satisfied_ok:
  assumes inv: "sync_inv K L H w" and a: "avail w x t" and room: "room (add_mset x P) w"
    and t: "t < length (threads w)"
  obtains wt' w' where "object_sync_satisfied x t (wt, w) = (wt', w')" and "took K L H t w w'" and "room P w'"
    and "waiting_part wt' = waiting_part wt" and "consumed t w w' x"
    and "\<And>y. avail w y t \<Longrightarrow> y \<noteq> x \<or> \<not> is_semaphore w x \<Longrightarrow> avail w' y t"
    and "\<And>y s. y \<noteq> x \<Longrightarrow> sync_of w y = Some s \<Longrightarrow> syncs w' s = syncs w s"
proof -
  obtain s sy where s: "sync_of w x = Some s" and sy: "syncs w s = Some sy" and l: "live_sync w s sy"
      and r: "ready (s_data sy) t"
    using avail_ready [OF inv a room] .
  let ?w = "take_sync s (s_data sy) t w"
  have av: "avail ?w y t" if y: "avail w y t" "y \<noteq> x \<or> \<not> is_semaphore w x" for y
  proof -
    obtain s' sy' where s': "sync_of w y = Some s'" "syncs w s' = Some sy'"
        "sync_signaled (s_data sy') t \<or> (\<exists>ev. s_data sy' = Event_sync ev)"
      using y(1) by (auto simp: avail_def)
    show ?thesis
    proof (cases "s' = s")
      case True
      then have "y = x"
        using inv s s' unfolding sync_inv_def objs_ok_def by blast
      then have "\<not> is_semaphore w x"
        using y(2) by blast
      moreover obtain sy1 ob where "syncs w s = Some sy1" "objs w x = Some ob" "kind_ok (o_ops ob) (s_data sy1)"
        using inv_sync [OF inv s] .
      ultimately have "s_data sy \<noteq> Semaphore_sync sem" for sem
        using sy by (auto simp: is_semaphore_def kind_ok_def)
      then have "sync_signaled (taken (s_data sy) t) t \<or> (\<exists>ev. taken (s_data sy) t = Event_sync ev)"
        by (cases "s_data sy") (auto simp: taken_def sync_signaled_def mutex_sync_signaled_def)
      with True s' sy show ?thesis
        by (auto simp: avail_def syncs_take_sync)
    qed (use s' in \<open>auto simp: avail_def syncs_take_sync\<close>)
  qed
  have "took K L H t w ?w"
    using inv_take_sync [OF inv sy r t] subdued_take_sync [OF sy r] by (simp add: took_def)
  moreover have "consumed t w ?w x"
    using s sy taken_capacity(2) [OF r] by (auto simp: consumed_def sig_alt capacity_of_def syncs_take_sync)
  moreover have "syncs ?w s' = syncs w s'" if "y \<noteq> x" "sync_of w y = Some s'" for y s'
    using inv s that unfolding sync_inv_def objs_ok_def by (auto simp: syncs_take_sync)
  ultimately show ?thesis
    using that [OF object_sync_satisfied_live [OF s l r] _ room_take_sync [OF room s sy]] av by simp
qed

lemma took_trans:
  assumes "took K L H t w w'" and "took K L H t w' w''"
  shows "took K L H t w w''"
  using assms subdued_trans by (auto simp: took_def)

lemma satisfy_all_ok:
  assumes "sync_inv K L H w" and "\<forall>x \<in> set xs. avail w x t" and "room (mset xs) w"
    and "distinct (filter (is_semaphore w) xs)" and "t < length (threads w)"
  obtains wt' w' where "satisfy_all xs t (wt, w) = (wt', w')" and "took K L H t w w'" and "room {#} w'"
    and "waiting_part wt' = waiting_part wt" and "\<forall>x \<in> set xs. consumed t w w' x"
  using assms
proof (induction xs arbitrary: w wt thesis)
  case Nil
  then show ?case
    by (auto simp: took_def)
next
  case (Cons x xs)
  obtain wt1 w1 where 1: "object_sync_satisfied x t (wt, w) = (wt1, w1)" "took K L H t w w1" "room (mset xs) w1"
      "waiting_part wt1 = waiting_part wt" "consumed t w w1 x"
      and a1: "\<And>y. avail w y t \<Longrightarrow> y \<noteq> x \<or> \<not> is_semaphore w x \<Longrightarrow> avail w1 y t"
      and s1: "\<And>y s. y \<noteq> x \<Longrightarrow> sync_of w y = Some s \<Longrightarrow> syncs w1 s = syncs w s"
    using satisfied_ok [of K L H w x t "mset xs" wt] Cons.prems by auto
  have se: "is_semaphore w1 = is_semaphore w" and so: "sync_of w1 = sync_of w"
    using 1(2) by (simp_all add: took_def is_semaphore_def [abs_def] sync_of_def [abs_def])
  have "\<forall>y \<in> set xs. avail w1 y t"
    using Cons.prems(3,5) by (auto intro!: a1 split: if_splits)
  moreover have "distinct (filter (is_semaphore w1) xs)"
    using Cons.prems(5) by (simp add: se split: if_splits)
  moreover have "t < length (threads w1)" "sync_inv K L H w1"
    using Cons.prems(6) 1(2) by (simp_all add: took_def subdued_def)
  ultimately obtain wt2 w2 where 2: "satisfy_all xs t (wt1, w1) = (wt2, w2)" "took K L H t w1 w2" "room {#} w2"
      "waiting_part wt2 = waiting_part wt1" "\<forall>y \<in> set xs. consumed t w1 w2 y"
    using Cons.IH [of wt1 w1] 1(3) by blast
  have c: "capacity_of w2 s \<le> capacity_of w1 s" "capacity_of w1 s \<le> capacity_of w s" for s
    using 1(2) 2(2) by (simp_all add: took_def subdued_def)
  have "consumed t w w2 y" if "y \<in> set (x # xs)" for y
  proof (cases "y = x")
    case True
    with 1(5) c show ?thesis
      unfolding consumed_def by (meson order.strict_trans1)
  next
    case False
    with that 2(5) have "consumed t w1 w2 y"
      by simp
    with False c s1 [OF False] show ?thesis
      unfolding consumed_def so sig_alt by (metis order.strict_trans2)
  qed
  then show ?case
    using Cons.prems(1) 1 2 took_trans [OF 1(2) 2(2)] by simp
qed


subsection \<open>Steps that only touch references and queues\<close>

definition shrinks :: "engine \<Rightarrow> engine \<Rightarrow> bool" where
  "shrinks w w' \<longleftrightarrow>
     threads w' = threads w \<and> handles w' = handles w \<and> proc_suspend w' = proc_suspend w \<and>
     current_time w' = current_time w \<and> monotonic_time w' = monotonic_time w \<and> sent w' = sent w \<and>
     (\<forall>s sy'. syncs w' s = Some sy' \<longrightarrow> (\<exists>sy. syncs w s = Some sy \<and> s_data sy' = s_data sy)) \<and>
     (\<forall>y ob'. objs w' y = Some ob' \<longrightarrow> (\<exists>ob. objs w y = Some ob \<and> o_sync ob' = o_sync ob \<and> o_ops ob' = o_ops ob))"

lemma shrinks_refl [simp, intro]: "shrinks w w"
  by (simp add: shrinks_def)

lemma shrinks_trans: "shrinks w w' \<Longrightarrow> shrinks w' w'' \<Longrightarrow> shrinks w w''"
  unfolding shrinks_def by (intro conjI allI impI; metis)

lemma shrinks_sync_of: "shrinks w w' \<Longrightarrow> sync_of w' y = Some s \<Longrightarrow> sync_of w y = Some s"
  unfolding shrinks_def sync_of_Some by metis

lemma shrinks_stacks: "shrinks w w' \<Longrightarrow> stacks w' = stacks w"
  by (simp add: shrinks_def stacks_def)

lemma shrinks_quiet:
  assumes "shrinks w w'"
  shows "subdued t w w'"
proof -
  have d: "\<exists>sy. syncs w s = Some sy \<and> s_data sy' = s_data sy" if "syncs w' s = Some sy'" for s sy'
    using assms that by (simp add: shrinks_def)
  have "sig w y u" if "sig w' y u" for y u
    using that d shrinks_sync_of [OF assms] unfolding sig_alt by metis
  moreover have "capacity_of w' s \<le> capacity_of w s" for s
    using d [of s] by (cases "syncs w' s") (auto simp: capacity_of_def)
  moreover have "\<exists>sy. syncs w s = Some sy \<and> shape (s_data sy') = shape (s_data sy)"
    if "syncs w' s = Some sy'" for s sy'
    using d [OF that] by auto
  ultimately show ?thesis
    using assms by (simp add: subdued_def shrinks_def thread_of_cong [of w' w])
qed

lemma shrinks_room:
  assumes "shrinks w w'" and "room P w"
  shows "room P w'"
  unfolding room_def
proof (intro allI impI)
  fix s sy' m
  assume "syncs w' s = Some sy'" "s_data sy' = Mutex_sync m"
  then obtain sy where sy: "syncs w s = Some sy" "s_data sy = Mutex_sync m"
    using assms(1) unfolding shrinks_def by metis
  have "filter_mset (\<lambda>x. sync_of w' x = Some s) M \<subseteq># filter_mset (\<lambda>x. sync_of w x = Some s) M" for M
    using shrinks_sync_of [OF assms(1)] by (intro mset_subset_eqI) simp
  then have "size (filter_mset (\<lambda>x. sync_of w' x = Some s) (image_mset snd (entries w') + P))
      \<le> size (filter_mset (\<lambda>x. sync_of w x = Some s) (image_mset snd (entries w) + P))"
    by (simp only: shrinks_stacks [OF assms(1)] size_mset_mono)
  then show "unat (recursion m) + size (filter_mset (\<lambda>x. sync_of w' x = Some s) (image_mset snd (entries w') + P)) < 2 ^ 32"
    using assms(2) sy unfolding room_def by (meson add_left_mono le_less_trans)
qed

lemma shrinks_upd_sync:
  assumes "\<And>sy. s_data (f sy) = s_data sy"
  shows "shrinks w (upd_sync s f w)"
  using assms by (auto simp: shrinks_def upd_sync_def sync_of_def)

lemma shrinks_failed [simp]: "shrinks w (failed w') = shrinks w w'"
  by (simp add: shrinks_def failed_def sync_of_def)

lemma shrinks_assert [simp]: "shrinks w (assert_that b w') = shrinks w w'"
  by (simp add: assert_that_def)

lemma shrinks_release_sync: "shrinks w (release_sync s w)"
proof (cases "syncs w s")
  case (Some sy)
  have "shrinks w (w'\<lparr>syncs := (syncs w)(s := None)\<rparr>)" if "shrinks w w'" "sync_of w' = sync_of w" for w'
    using that by (auto simp: shrinks_def sync_of_def [abs_def])
  moreover have "shrinks w (sync_destroy (s_data sy) w)" "sync_of (sync_destroy (s_data sy) w) = sync_of w"
    by (auto simp: sync_destroy_def sync_of_def [abs_def] assert_that_def failed_def shrinks_def split: sync_data.splits)
  ultimately show ?thesis
    using Some by (auto simp: release_sync_def shrinks_upd_sync assert_that_def)
      (simp_all add: failed_def shrinks_def sync_of_def [abs_def])
qed (simp add: release_sync_def)

lemma shrinks_obj_None: "shrinks w w' \<Longrightarrow> shrinks w (w'\<lparr>objs := (objs w')(x := None)\<rparr>)"
  by (auto simp: shrinks_def sync_of_def split: if_splits)

lemma shrinks_obj_refs: "objs w x = Some ob \<Longrightarrow> shrinks w (w\<lparr>objs := (objs w)(x \<mapsto> ob\<lparr>o_refs := n\<rparr>)\<rparr>)"
  by (auto simp: shrinks_def sync_of_def split: if_splits)

lemma shrinks_release_obj: "shrinks w (release_obj x w)"
proof (cases "objs w x")
  case (Some ob)
  have "shrinks w (obj_destroy ob (assert_that b w))" for b
    by (auto simp: obj_destroy_def split: option.splits intro: shrinks_trans [OF _ shrinks_release_sync])
  with Some show ?thesis
    by (auto simp: release_obj_def Let_def shrinks_obj_None intro: shrinks_obj_refs)
qed (simp add: release_obj_def)

lemma shrinks_grab_obj: "shrinks w (grab_obj x w)"
  by (auto simp: grab_obj_def intro: shrinks_obj_refs split: option.splits)

lemma release_obj_errors [simp]: "errors (release_obj x w) = errors w"
  by (auto simp: release_obj_def release_sync_def obj_destroy_def sync_destroy_def assert_that_def failed_def
      Let_def split: option.splits sync_data.splits)

lemma leave_queues_ok:
  assumes "sync_inv K (mset (numbered t d i xs)) H w"
  shows "sync_inv K {#} H (leave_queues t d i xs w) \<and> shrinks w (leave_queues t d i xs w) \<and>
    errors (leave_queues t d i xs w) = errors w"
  using assms
proof (induction t d i xs w rule: leave_queues.induct)
  case (2 t d i x xs w)
  then obtain s where s: "sync_of w x = Some s"
    by (auto simp: sync_inv_def queues_ok_def)
  obtain sy where l: "live_sync w s sy"
    using inv_sync [OF 2(2) s] .
  let ?w1 = "upd_sync s (remove_queue (t, d, i)) w"
  have r: "object_sync_remove_queue x (t, d, i) w = ?w1"
    by (rule object_sync_remove_queue_live [OF s l])
  have "sync_inv K (mset (numbered t d (Suc i) xs)) (add_mset x H) ?w1"
    using 2(2) by (intro inv_remove_queue [OF _ s]) simp
  then have "sync_inv K (mset (numbered t d (Suc i) xs)) H (release_obj x ?w1)"
    by (rule inv_release_obj)
  moreover have "shrinks w (release_obj x ?w1)"
    by (rule shrinks_trans [OF shrinks_upd_sync shrinks_release_obj]) (simp add: remove_queue_def)
  ultimately show ?case
    using 2(1) r by (auto intro: shrinks_trans)
qed simp


subsection \<open>Ending a wait\<close>

lemma inv_upd_waits:
  assumes inv: "sync_inv K L H w"
    and f: "\<And>th. t_obj (f th) = t_obj th" "\<And>th. terminated (f th) = terminated th"
      "\<And>th. mutex_list (f th) = mutex_list th"
    and ok: "\<forall>wt \<in> set (waits (f (thread_of w t))). wait_ok w wt"
    and e: "entries (upd_thread t f w) + L' = entries w + L"
  shows "sync_inv K L' H (upd_thread t f w)" (is "sync_inv K L' H ?w")
proof -
  have "image_mset snd (entries ?w + L') = image_mset snd (entries w + L)"
    by (simp only: e)
  then have h: "holders ?w + (image_mset snd L' + H) = holders w + (image_mset snd L + H)"
    using live_threads_upd_thread [of f t w, OF f(1,2)] by (simp add: holders_def ac_simps)
  have r: "refs_of ?w = refs_of w"
    by (simp add: refs_of_def fun_eq_iff)
  have "refs_ok (image_mset snd L' + H) ?w"
    unfolding refs_ok_def h r upd_thread_fields using inv unfolding sync_inv_def refs_ok_def by blast
  moreover have "queues_ok L' ?w"
    using inv unfolding sync_inv_def queues_ok_def e by (simp add: on_sync_def [abs_def])
  moreover have "waits_ok ?w"
    using inv ok set_update_subset_insert [of "stacks w" t]
    by (fastforce simp: sync_inv_def waits_ok_def wait_ok_def is_semaphore_def [abs_def] stacks_upd_thread)
  moreover have "mutexes_ok ?w"
    using inv f(3) by (intro mutexes_ok_upd_thread) (simp_all add: sync_inv_def)
  ultimately show ?thesis
    using inv by (simp add: sync_inv_def)
qed

lemma waits_in_stacks:
  assumes "waits (thread_of w t) = wt # rest"
  shows "t < length (threads w)" and "t < length (stacks w)" and "stacks w ! t = wt # rest"
  using assms by (auto simp: thread_of_def stacks_def idle_thread_def split: if_splits)

lemma inv_wait_ok:
  assumes "sync_inv K L H w" and "waits (thread_of w t) = wt # rest"
  shows "wait_ok w wt" and "\<forall>wt \<in> set rest. wait_ok w wt"
proof -
  have "wt # rest \<in> set (stacks w)"
    using waits_in_stacks [OF assms(2)] by (metis nth_mem)
  then show "wait_ok w wt" "\<forall>wt \<in> set rest. wait_ok w wt"
    using assms(1) by (auto simp: sync_inv_def waits_ok_def)
qed

lemma upd_thread_quiet: "subdued t w (upd_thread t f w)"
  by (auto simp: subdued_def sig_def capacity_of_def thread_of_upd_thread)
    (simp_all add: upd_thread_def)

lemma detach_ok:
  assumes inv: "sync_inv K {#} H w" and room: "room {#} w" and t: "waits (thread_of w t) = wt # rest"
  shows "sync_inv K (mset (numbered t (length rest) 0 (w_objs wt))) H (upd_thread t (\<lambda>th. th\<lparr>waits := rest\<rparr>) w)"
    and "room (mset (w_objs wt)) (upd_thread t (\<lambda>th. th\<lparr>waits := rest\<rparr>) w)"
proof -
  let ?L = "mset (numbered t (length rest) 0 (w_objs wt))"
  let ?w = "upd_thread t (\<lambda>th. th\<lparr>waits := rest\<rparr>) w"
  note t' = waits_in_stacks [OF t]
  have st: "stacks ?w = (stacks w)[t := rest]"
    by (simp add: stacks_upd_thread)
  then have e: "entries w = entries ?w + ?L"
    using entries_pop [OF t'(2,3)] by simp
  show "sync_inv K ?L H ?w"
    using inv_wait_ok(2) [OF inv t] e by (intro inv_upd_waits [OF inv]) simp_all
  have "image_mset snd (entries w) = image_mset snd (entries ?w) + mset (w_objs wt)"
    by (simp add: e)
  with room show "room (mset (w_objs wt)) ?w"
    by (simp add: room_def)
qed

definition to_take :: "thread_wait \<Rightarrow> ntstatus \<Rightarrow> oid list" where
  "to_take wt st =
     (if unat st < length (w_objs wt) then
        if w_select wt = SELECT_WAIT_ALL then w_objs wt else [w_objs wt ! unat st]
      else [])"

lemma satisfy_wait_ok:
  assumes inv: "sync_inv K L H w" and room: "room (mset (w_objs wt)) w" and ok: "wait_ok w wt"
    and a: "\<forall>x \<in> set (to_take wt st). avail w x t" and t: "t < length (threads w)"
  obtains st' w' where "satisfy_wait t st wt w = (st', w')" and "took K L H t w w'" and "room {#} w'"
    and "\<forall>x \<in> set (to_take wt st). consumed t w w' x" and "length (w_objs wt) \<le> unat st \<Longrightarrow> st' = st"
proof (cases "unat st < length (w_objs wt)")
  case False
  then show ?thesis
    using that [of st w] inv room_mono [OF room, of "{#}"] by (simp add: satisfy_wait_def to_take_def took_def)
next
  case lt: True
  let ?wt = "wt\<lparr>w_status := st\<rparr>"
  show ?thesis
  proof (cases "w_select wt = SELECT_WAIT_ALL")
    case True
    then have "\<forall>x \<in> set (w_objs wt). avail w x t" "distinct (filter (is_semaphore w) (w_objs wt))"
      using a ok lt by (simp_all add: to_take_def wait_ok_def)
    then obtain wt' w' where "satisfy_all (w_objs wt) t (?wt, w) = (wt', w')" "took K L H t w w'" "room {#} w'"
        "\<forall>x \<in> set (w_objs wt). consumed t w w' x"
      using satisfy_all_ok [OF inv _ room _ t] by blast
    with True lt that show ?thesis
      by (simp add: satisfy_wait_def to_take_def)
  next
    case False
    let ?x = "w_objs wt ! unat st"
    have r1: "room {#?x#} w" and a1: "avail w ?x t"
      using room_mono [OF room] a False lt by (simp_all add: nth_mem_mset to_take_def)
    obtain wt' w' where "object_sync_satisfied ?x t (?wt, w) = (wt', w')" "took K L H t w w'" "room {#} w'"
        "consumed t w w' ?x"
      by (rule satisfied_ok [OF inv a1 r1 t, of ?wt])
    with False lt that show ?thesis
      by (simp add: satisfy_wait_def to_take_def)
  qed
qed

lemma end_wait_ok:
  assumes inv: "sync_inv K {#} H w" and room: "room {#} w" and t: "waits (thread_of w t) = wt # rest"
    and a: "\<forall>x \<in> set (to_take wt st). avail w x t"
  obtains st' w' where "end_wait t st w = (st', w')" and "sync_inv K {#} H w'" and "room {#} w'"
    and "subdued t w w'" and "\<forall>x \<in> set (to_take wt st). consumed t w w' x"
    and "errors w' = errors w" and "sent w' = sent w" and "length (w_objs wt) \<le> unat st \<Longrightarrow> st' = st"
proof -
  let ?w1 = "upd_thread t (\<lambda>th. th\<lparr>waits := rest\<rparr>) w"
  let ?L = "mset (numbered t (length rest) 0 (w_objs wt))"
  have q1: "subdued t w ?w1"
    by (rule upd_thread_quiet)
  have same: "sync_of ?w1 = sync_of w" "syncs ?w1 = syncs w" "sig ?w1 = sig w"
    by (simp_all add: sig_def [abs_def])
  have "wait_ok ?w1 wt"
    using inv_wait_ok(1) [OF inv t] by (simp add: wait_ok_def is_semaphore_def [abs_def])
  moreover have "\<forall>x \<in> set (to_take wt st). avail ?w1 x t"
    using a by (simp add: avail_def)
  moreover have "t < length (threads ?w1)"
    using waits_in_stacks [OF t] by (simp add: upd_thread_def)
  ultimately obtain st1 w2 where 2: "satisfy_wait t st wt ?w1 = (st1, w2)" "took K ?L H t ?w1 w2" "room {#} w2"
      "\<forall>x \<in> set (to_take wt st). consumed t ?w1 w2 x" "length (w_objs wt) \<le> unat st \<Longrightarrow> st1 = st"
    using satisfy_wait_ok [OF detach_ok [OF inv room t]] by blast
  let ?w3 = "leave_queues t (length rest) 0 (w_objs wt) w2"
  have 3: "sync_inv K {#} H ?w3" "shrinks w2 ?w3" "errors ?w3 = errors w2"
    using leave_queues_ok [of K t "length rest" 0 "w_objs wt" H w2] 2(2) by (simp_all add: took_def)
  show ?thesis
  proof (rule that [of st1 ?w3])
    show "end_wait t st w = (st1, ?w3)"
      by (simp add: end_wait_def t 2(1))
    show "subdued t w ?w3"
      using q1 2(2) shrinks_quiet [OF 3(2), of t] by (auto simp: took_def intro: subdued_trans)
    show "room {#} ?w3"
      by (rule shrinks_room [OF 3(2) 2(3)])
    have "capacity_of ?w3 s \<le> capacity_of w2 s" for s
      using shrinks_quiet [OF 3(2)] by (simp add: subdued_def)
    then show "\<forall>x \<in> set (to_take wt st). consumed t w ?w3 x"
      using 2(4) by (simp add: consumed_def same capacity_of_def [of ?w1] capacity_of_def [of w])
        (meson le_less_trans)
    show "sent ?w3 = sent w"
      using 2(2) 3(2) by (simp add: took_def shrinks_def)
  qed (use 2 3 in \<open>simp_all add: took_def\<close>)
qed

end
