(* ===== verification/Sync_Wake.thy ===== *)
theory Sync_Wake
  imports Sync_Steps
begin

text \<open>
  Waking threads: \<open>wait_result\<close> is the condition of a wait as a function of the state, which
  \<open>check_wait\<close> computes; \<open>wake_thread\<close> and \<open>wake_up\<close> keep the invariant, and a state in which no waiting
  thread could be released (\<open>settled\<close>) is what \<open>wake_up\<close> leads back to after one sync was signaled.
\<close>

subsection \<open>The condition of a wait\<close>

fun first_sig :: "engine \<Rightarrow> tid \<Rightarrow> nat \<Rightarrow> oid list \<Rightarrow> nat option" where
  "first_sig w t i [] = None"
| "first_sig w t i (x # xs) = (if sig w x t then Some i else first_sig w t (Suc i) xs)"

definition objects_result :: "engine \<Rightarrow> thread_wait \<Rightarrow> tid \<Rightarrow> ntstatus option" where
  "objects_result w wt t =
     (if w_select wt = SELECT_WAIT_ALL then if \<forall>x \<in> set (w_objs wt). sig w x t then Some 0 else None
      else map_option of_nat (first_sig w t 0 (w_objs wt)))"

definition interrupted :: "thread \<Rightarrow> thread_wait \<Rightarrow> bool" where
  "interrupted th wt \<longleftrightarrow> w_flags wt AND SELECT_INTERRUPTIBLE \<noteq> 0 \<and> system_apc th \<noteq> []"

definition cooperates :: "thread \<Rightarrow> thread_wait \<Rightarrow> bool" where
  "cooperates th wt \<longleftrightarrow> \<not> interrupted th wt \<and> w_flags wt AND SELECT_COOPERATIVE_SUSPEND \<noteq> 0 \<and> ctx th \<noteq> None"

definition wait_result :: "engine \<Rightarrow> tid \<Rightarrow> ntstatus option" where
  "wait_result w t =
     (let th = thread_of w t in
      case waits th of
        [] \<Rightarrow> None
      | wt # _ \<Rightarrow>
          if interrupted th wt then Some STATUS_KERNEL_APC
          else if cooperates th wt then Some STATUS_THREAD_WAS_SUSPENDED
          else if is_thread_suspended w th then None
          else (case objects_result w wt t of Some st \<Rightarrow> Some st | None \<Rightarrow> check_alerts wt th w))"

definition check_effect :: "engine \<Rightarrow> tid \<Rightarrow> engine" where
  "check_effect w t =
     (case waits (thread_of w t) of
        [] \<Rightarrow> w
      | wt # _ \<Rightarrow>
          if cooperates (thread_of w t) wt
          then upd_thread t (\<lambda>th. th\<lparr>ctx := map_option (\<lambda>c. c\<lparr>cooperative := True\<rparr>) (ctx th)\<rparr>) w
          else w)"

lemma object_sync_signaled_inv:
  assumes "sync_inv K L H w" and "sync_of w x \<noteq> None"
  shows "object_sync_signaled x t w = (sig w x t, w)"
proof -
  obtain s where s: "sync_of w x = Some s"
    using assms(2) by blast
  obtain sy where sy: "live_sync w s sy" "syncs w s = Some sy"
    using inv_sync [OF assms(1) s] .
  then show ?thesis
    using object_sync_signaled_live [OF s sy(1)] s by (simp add: sig_def)
qed

lemma all_signaled_inv:
  assumes "sync_inv K L H w" and "\<forall>x \<in> set xs. sync_of w x \<noteq> None"
  shows "all_signaled xs t w = ((\<forall>x \<in> set xs. sig w x t), w)"
  using assms(2) by (induction xs) (simp_all add: object_sync_signaled_inv [OF assms(1)])

lemma first_signaled_inv:
  assumes "sync_inv K L H w" and "\<forall>x \<in> set xs. sync_of w x \<noteq> None"
  shows "first_signaled i xs t w = (first_sig w t i xs, w)"
  using assms(2) by (induction xs arbitrary: i) (auto simp: object_sync_signaled_inv [OF assms(1)] split: bool.splits)

lemma inv_wait_syncs:
  assumes "sync_inv K {#} H w" and "waits (thread_of w t) = wt # rest"
  shows "\<forall>x \<in> set (w_objs wt). sync_of w x \<noteq> None"
proof
  fix x
  assume "x \<in> set (w_objs wt)"
  then have "x \<in># image_mset snd (entries w)"
    using waits_in_stacks [OF assms(2)] by (intro entries_objs [of "wt # rest"]) (auto simp: in_set_conv_nth)
  then show "sync_of w x \<noteq> None"
    using assms(1) by (auto simp: sync_inv_def queues_ok_def)
qed

lemma check_wait_inv:
  assumes inv: "sync_inv K {#} H w" and t: "waits (thread_of w t) = wt # rest"
  shows "check_wait t w = (wait_result w t, check_effect w t)"
proof -
  have "check_objects wt t w = (objects_result w wt t, w)"
    using inv_wait_syncs [OF inv t]
    by (simp add: check_objects_def objects_result_def all_signaled_inv [OF inv] first_signaled_inv [OF inv])
  with t show ?thesis
    by (auto simp: check_wait_def wait_result_def check_effect_def Let_def interrupted_def cooperates_def
        split: option.splits)
qed

lemma first_sig_Some:
  "first_sig w t i xs = Some j \<Longrightarrow> i \<le> j \<and> j < i + length xs \<and> sig w (xs ! (j - i)) t"
proof (induction xs arbitrary: i)
  case (Cons x xs)
  show ?case
  proof (cases "sig w x t")
    case False
    with Cons.prems have "first_sig w t (Suc i) xs = Some j"
      by simp
    from Cons.IH [OF this] have "Suc i \<le> j \<and> j < Suc i + length xs \<and> sig w (xs ! (j - Suc i)) t" .
    then show ?thesis
      by (auto simp: Suc_le_eq nth_Cons' diff_Suc split: nat.splits)
  qed (use Cons in auto)
qed simp

lemma first_sig_None: "first_sig w t i xs = None \<longleftrightarrow> (\<forall>x \<in> set xs. \<not> sig w x t)"
  by (induction xs arbitrary: i) auto

lemma to_take_big: "length (w_objs wt) \<le> unat st \<Longrightarrow> to_take wt st = []"
  by (simp add: to_take_def)

lemma wait_result_sig:
  assumes inv: "sync_inv K {#} H w" and t: "waits (thread_of w t) = wt # rest" and r: "wait_result w t = Some st"
  shows "\<forall>x \<in> set (to_take wt st). sig w x t"
proof -
  have len: "length (w_objs wt) \<le> 64"
    using inv_wait_ok(1) [OF inv t] by (simp add: wait_ok_def)
  consider "st \<in> {STATUS_KERNEL_APC, STATUS_THREAD_WAS_SUSPENDED, STATUS_USER_APC, STATUS_TIMEOUT}"
    | "objects_result w wt t = Some st"
    using r t by (auto simp: wait_result_def Let_def check_alerts_def split: if_splits option.splits)
  then show ?thesis
  proof cases
    case 1
    then have "length (w_objs wt) \<le> unat st"
      using len by auto
    then show ?thesis
      by (simp add: to_take_big)
  next
    case 2
    show ?thesis
    proof (cases "w_select wt = SELECT_WAIT_ALL")
      case False
      with 2 obtain i where i: "first_sig w t 0 (w_objs wt) = Some i" "st = of_nat i"
        by (auto simp: objects_result_def)
      then have "i < length (w_objs wt)" "sig w (w_objs wt ! i) t"
        using first_sig_Some [OF i(1)] by simp_all
      moreover from this len have "unat st = i"
        by (simp add: i(2) unat_of_nat)
      ultimately show ?thesis
        using False by (simp add: to_take_def)
    qed (use 2 in \<open>auto simp: objects_result_def to_take_def split: if_splits\<close>)
  qed
qed

subsection \<open>Waking a thread\<close>

lemma inv_outer:
  assumes "threads w' = threads w" "objs w' = objs w" "syncs w' = syncs w" "handles w' = handles w"
    "fault w' = fault w"
  shows "sync_inv K L H w' = sync_inv K L H w"
proof -
  have so: "sync_of w' = sync_of w"
    by (simp add: sync_of_def fun_eq_iff assms)
  have st: "stacks w' = stacks w"
    by (simp add: stacks_def assms)
  have "refs_ok K w' = refs_ok K w" for K
    by (simp add: refs_ok_def refs_of_def holders_def live_threads_def st assms)
  moreover have "objs_ok w' = objs_ok w"
    unfolding objs_ok_def so assms ..
  moreover have "waits_ok w' = waits_ok w"
    by (simp add: waits_ok_def wait_ok_def is_semaphore_def [abs_def] st assms)
  ultimately show ?thesis
    by (simp add: sync_inv_def oks_cong [OF so assms(3,1)] assms(5))
qed

lemma room_outer:
  assumes "stacks w' = stacks w" "objs w' = objs w" "syncs w' = syncs w"
  shows "room P w' = room P w"
  by (simp add: room_def sync_of_def assms)

lemma subdued_outer:
  assumes "objs w' = objs w" "syncs w' = syncs w" "threads w' = threads w" "handles w' = handles w"
    "current_time w' = current_time w" "monotonic_time w' = monotonic_time w" "proc_suspend w' = proc_suspend w"
  shows "subdued t w w'"
  using assms by (simp add: subdued_def sig_def sync_of_def capacity_of_def thread_of_cong [of w' w])

lemma set_err_fields [simp]:
  "threads (set_err st w) = threads w" "objs (set_err st w) = objs w" "syncs (set_err st w) = syncs w"
  "handles (set_err st w) = handles w" "fault (set_err st w) = fault w" "sent (set_err st w) = sent w"
  by (simp_all add: set_err_def)

lemma inv_set_err [simp]: "sync_inv K L H (set_err st w) = sync_inv K L H w"
  by (rule inv_outer) simp_all

lemma room_set_err [simp]: "room P (set_err st w) = room P w"
  by (rule room_outer) simp_all

lemma subdued_set_err: "subdued t w (set_err st w)"
  by (rule subdued_outer) (simp_all add: set_err_def)

lemma send_ok:
  assumes "sync_inv K L H w" and "room P w"
  shows "sync_inv K L H (send_thread_wakeup t ck st w)" and "room P (send_thread_wakeup t ck st w)"
    and "subdued t w (send_thread_wakeup t ck st w)"
proof -
  let ?w1 = "upd_thread t (\<lambda>th. th\<lparr>ctx := None\<rparr>) w"
  have 1: "sync_inv K L H ?w1" "room P ?w1"
    using assms by (simp_all add: inv_upd_thread room_outer [of ?w1 w] stacks_upd_thread_same)
  have s: "sync_inv K L H (w'\<lparr>sent := m\<rparr>) = sync_inv K L H w'" "room P (w'\<lparr>sent := m\<rparr>) = room P w'" for w' m
    by (rule inv_outer, simp_all, rule room_outer, simp_all)
  have q: "subdued t w' (w'\<lparr>sent := m\<rparr>)" for w' m
    by (rule subdued_outer) simp_all
  show "sync_inv K L H (send_thread_wakeup t ck st w)" "room P (send_thread_wakeup t ck st w)"
    using assms 1 by (auto simp: send_thread_wakeup_def s split: option.splits)
  show "subdued t w (send_thread_wakeup t ck st w)"
    using q subdued_trans [OF upd_thread_quiet q] by (auto simp: send_thread_wakeup_def split: option.splits)
qed

lemma check_effect_ok:
  assumes "sync_inv K L H w" and "room P w"
  shows "sync_inv K L H (check_effect w t)" and "room P (check_effect w t)" and "subdued t w (check_effect w t)"
    and "syncs (check_effect w t) = syncs w" and "objs (check_effect w t) = objs w"
    and "waits (thread_of (check_effect w t) t) = waits (thread_of w t)"
    and "wait_result w t = None \<Longrightarrow> check_effect w t = w"
proof -
  let ?f = "\<lambda>th. th\<lparr>ctx := map_option (\<lambda>c. c\<lparr>cooperative := True\<rparr>) (ctx th)\<rparr>"
  have "sync_inv K L H (upd_thread t ?f w)" "room P (upd_thread t ?f w)"
    using assms by (simp_all add: inv_upd_thread room_outer [of "upd_thread t ?f w" w] stacks_upd_thread_same)
  with assms show "sync_inv K L H (check_effect w t)" "room P (check_effect w t)" "subdued t w (check_effect w t)"
    "syncs (check_effect w t) = syncs w" "objs (check_effect w t) = objs w"
    "waits (thread_of (check_effect w t) t) = waits (thread_of w t)"
    by (auto simp: check_effect_def upd_thread_quiet thread_of_upd_thread split: list.splits)
  show "wait_result w t = None \<Longrightarrow> check_effect w t = w"
    by (auto simp: check_effect_def wait_result_def Let_def split: list.splits if_splits)
qed

lemma consumed_mono:
  assumes "consumed t w w' x" and "subdued t w' w''"
  shows "consumed t w w'' x"
  using assms unfolding consumed_def subdued_def by (meson le_less_trans)

lemma end_and_send_ok:
  assumes inv: "sync_inv K {#} H w" and room: "room {#} w" and t: "waits (thread_of w t) = wt # rest"
    and a: "\<forall>x \<in> set (to_take wt st). avail w x t"
  shows "sync_inv K {#} H (end_and_send t st w)" and "room {#} (end_and_send t st w)"
    and "subdued t w (end_and_send t st w)" and "\<forall>x \<in> set (to_take wt st). consumed t w (end_and_send t st w) x"
proof -
  obtain st' w' where 1: "end_wait t st w = (st', w')" "sync_inv K {#} H w'" "room {#} w'" "subdued t w w'"
      "\<forall>x \<in> set (to_take wt st). consumed t w w' x"
    by (rule end_wait_ok [OF inv room t a])
  note 2 = send_ok [OF 1(2,3), of t]
  show "sync_inv K {#} H (end_and_send t st w)" "room {#} (end_and_send t st w)"
    "subdued t w (end_and_send t st w)" "\<forall>x \<in> set (to_take wt st). consumed t w (end_and_send t st w) x"
    using 1 2 subdued_trans [OF 1(4) 2(3)] consumed_mono [OF _ 2(3)] by (simp_all add: end_and_send_def Let_def)
qed

definition woken :: "sid option \<Rightarrow> oid multiset \<Rightarrow> tid \<Rightarrow> engine \<Rightarrow> nat \<Rightarrow> engine \<Rightarrow> bool" where
  "woken K H t w n w' \<longleftrightarrow>
     sync_inv K {#} H w' \<and> room {#} w' \<and> subdued t w w' \<and> wait_result w' t = None \<and>
     (n = 0 \<longrightarrow> w' = w) \<and> (n = 0 \<longleftrightarrow> wait_result w t = None) \<and>
     (\<forall>wt rest st. waits (thread_of w t) = wt # rest \<longrightarrow> wait_result w t = Some st \<longrightarrow>
        (\<forall>x \<in> set (to_take wt st). consumed t w w' x))"

lemma wake_thread_ok:
  assumes "sync_inv K {#} H w" and "room {#} w" and "wake_thread t w = (n, w')"
  shows "woken K H t w n w'"
  using assms
proof (induction t w arbitrary: n w' rule: wake_thread.induct)
  case (1 t w)
  show ?case
  proof (cases "waits (thread_of w t)")
    case Nil
    with 1(2-4) show ?thesis
      by (simp add: wake_thread.simps [of t w] woken_def wait_result_def)
  next
    case (Cons wt rest)
    have c: "check_wait t w = (wait_result w t, check_effect w t)"
      by (rule check_wait_inv [OF 1(2) Cons])
    note e = check_effect_ok [OF 1(2,3), of t]
    show ?thesis
    proof (cases "wait_result w t")
      case None
      with 1(2-4) Cons c e(7) show ?thesis
        by (simp add: wake_thread.simps [of t w] woken_def)
    next
      case (Some st)
      let ?c = "check_effect w t"
      have av: "\<forall>x \<in> set (to_take wt st). avail ?c x t"
        using wait_result_sig [OF 1(2) Cons Some] sig_avail e(4,5) by (simp add: avail_def sync_of_def sig_def)
      have t: "waits (thread_of ?c t) = wt # rest"
        using e(6) Cons by simp
      note 2 = end_and_send_ok [OF e(1,2) t av]
      obtain m w2 where r: "wake_thread t (end_and_send t st ?c) = (m, w2)"
        by fastforce
      have w: "woken K H t (end_and_send t st ?c) m w2"
        using 1(1) [OF _ c [symmetric] Some 2(1,2) r] Cons by simp
      have n: "n = Suc m" "w' = w2"
        using 1(4) Cons c Some r by (simp_all add: wake_thread.simps [of t w])
      have q: "subdued t (end_and_send t st ?c) w'"
        using w n by (simp add: woken_def)
      have "consumed t w w' x" if "x \<in> set (to_take wt st)" for x
      proof -
        have "consumed t ?c w' x"
          using 2(4) that consumed_mono [OF _ q] by blast
        then show ?thesis
          using e(4,5) by (simp add: consumed_def sync_of_def sig_def capacity_of_def)
      qed
      moreover have "subdued t w w'"
        using subdued_trans [OF e(3) subdued_trans [OF 2(3) q]] .
      ultimately show ?thesis
        using w n Some Cons by (simp add: woken_def)
    qed
  qed
qed

end
