(* ===== verification/Sync_Settled.thy ===== *)
theory Sync_Settled
  imports Sync_Wake
begin

text \<open>
  No wake-up is lost: a state is settled when no waiting thread could be released. Signaling a sync and
  then running \<open>wake_up\<close> on it leads from a settled state to a settled state, with the limit on the
  number of threads that the callers pass for events and semaphores.
\<close>

definition settled :: "engine \<Rightarrow> bool" where
  "settled w \<longleftrightarrow> (\<forall>t. wait_result w t = None)"

definition anchored :: "sid option \<Rightarrow> oid multiset \<Rightarrow> sid \<Rightarrow> engine \<Rightarrow> bool" where
  "anchored K H s w \<longleftrightarrow> K = Some s \<or> (\<exists>x \<in># H. sync_of w x = Some s)"

text \<open>How the state can differ from the settled state \<open>w0\<close> while the waiters of \<open>s\<close> are being woken.\<close>

definition calm :: "sid \<Rightarrow> engine \<Rightarrow> engine \<Rightarrow> bool" where
  "calm s w0 w \<longleftrightarrow>
     current_time w = current_time w0 \<and> monotonic_time w = monotonic_time w0 \<and>
     proc_suspend w = proc_suspend w0 \<and> handles w = handles w0 \<and> length (threads w) = length (threads w0) \<and>
     (\<forall>y u. sync_of w y \<noteq> Some s \<longrightarrow> sig w y u \<longrightarrow> sig w0 y u) \<and>
     (\<forall>r sy'. syncs w r = Some sy' \<longrightarrow> (\<exists>sy. syncs w0 r = Some sy \<and> shape (s_data sy') = shape (s_data sy))) \<and>
     (\<forall>y ob'. objs w y = Some ob' \<longrightarrow> (\<exists>ob. objs w0 y = Some ob \<and> o_sync ob' = o_sync ob \<and> o_ops ob' = o_ops ob)) \<and>
     (\<forall>u. wait_result w u = None \<or> thread_of w u = thread_of w0 u)"

lemma inv_held:
  assumes inv: "sync_inv K L H w" and x: "x \<in># H"
  obtains ob where "objs w x = Some ob"
proof -
  have "0 < count (holders w + (image_mset snd L + H)) x"
    using x by simp
  then have "0 < refs_of w x"
    using inv unfolding sync_inv_def refs_ok_def by (metis less_le_trans)
  then show ?thesis
    using that by (cases "objs w x") (auto simp: refs_of_def)
qed

lemma anchored_quiet:
  assumes "anchored K H s w" and q: "subdued t w w'" and inv: "sync_inv K L H w'"
  shows "anchored K H s w'"
proof (cases "K = Some s")
  case False
  then obtain x where x: "x \<in># H" "sync_of w x = Some s"
    using assms(1) by (auto simp: anchored_def)
  obtain ob' where ob': "objs w' x = Some ob'"
    using inv_held [OF inv x(1)] .
  then obtain ob where "objs w x = Some ob" "o_sync ob' = o_sync ob"
    using q unfolding subdued_def by metis
  with ob' x have "sync_of w' x = Some s"
    by (simp add: sync_of_def)
  with x show ?thesis
    by (auto simp: anchored_def)
qed (simp add: anchored_def)

lemma anchored_alive:
  assumes "anchored K H s w" and inv: "sync_inv K L H w"
  shows "syncs w s \<noteq> None"
  using assms
proof (cases "K = Some s")
  case False
  then obtain x where "sync_of w x = Some s"
    using assms(1) by (auto simp: anchored_def)
  with inv_sync [OF inv this] show ?thesis
    by (metis option.distinct(1))
qed (auto simp: sync_inv_def syncs_ok_def)

lemma wait_result_mono:
  assumes th: "thread_of w' u = thread_of w u"
    and env: "current_time w' = current_time w" "monotonic_time w' = monotonic_time w" "proc_suspend w' = proc_suspend w"
    and sigs: "\<And>wt rest x. waits (thread_of w u) = wt # rest \<Longrightarrow> x \<in> set (w_objs wt) \<Longrightarrow> sig w' x u \<Longrightarrow> sig w x u"
    and r: "wait_result w u = None"
  shows "wait_result w' u = None"
proof (cases "waits (thread_of w u)")
  case (Cons wt rest)
  have al: "check_alerts wt (thread_of w u) w' = check_alerts wt (thread_of w u) w"
      "is_thread_suspended w' (thread_of w u) = is_thread_suspended w (thread_of w u)"
    by (simp_all add: check_alerts_def wait_expired_def is_thread_suspended_def env)
  have le: "\<forall>x \<in> set (w_objs wt). sig w' x u \<longrightarrow> sig w x u"
    using sigs [OF Cons] by blast
  have "objects_result w' wt u = None" if "objects_result w wt u = None"
  proof (cases "w_select wt = SELECT_WAIT_ALL")
    case True
    with that obtain x where "x \<in> set (w_objs wt)" "\<not> sig w x u"
      by (auto simp: objects_result_def split: if_splits)
    with True le show ?thesis
      by (auto simp: objects_result_def)
  next
    case False
    with that le show ?thesis
      by (simp add: objects_result_def first_sig_None)
  qed
  with r Cons show ?thesis
    by (auto simp: wait_result_def Let_def th al split: if_splits option.splits)
qed (simp add: wait_result_def th)

lemma calm_woken:
  assumes c: "calm s w0 w" and k: "woken K H t w n w'"
  shows "calm s w0 w'"
proof -
  have q: "subdued t w w'" and r: "wait_result w' t = None"
    using k by (simp_all add: woken_def)
  have "wait_result w' u = None \<or> thread_of w' u = thread_of w0 u" for u
  proof (cases "u = t")
    case False
    then have th: "thread_of w' u = thread_of w u"
      using q by (simp add: subdued_def)
    then show ?thesis
      using c q wait_result_mono [of w' u w] unfolding calm_def subdued_def by metis
  qed (use r in simp)
  moreover have "sig w0 y u" if y: "sync_of w' y \<noteq> Some s" "sig w' y u" for y u
  proof -
    have "sync_of w y \<noteq> Some s"
      using y subdued_sync_of [OF q, of y] by (auto simp: sig_alt)
    with c q y show ?thesis
      unfolding calm_def subdued_def by blast
  qed
  moreover have "\<exists>sy. syncs w0 r = Some sy \<and> shape (s_data sy') = shape (s_data sy)" if "syncs w' r = Some sy'" for r sy'
    using c q that unfolding calm_def subdued_def by metis
  moreover have "\<exists>ob. objs w0 y = Some ob \<and> o_sync ob' = o_sync ob \<and> o_ops ob' = o_ops ob" if "objs w' y = Some ob'" for y ob'
    using c q that unfolding calm_def subdued_def by metis
  ultimately show ?thesis
    using c q by (simp add: calm_def subdued_def)
qed

lemma calm_consumes:
  assumes c: "calm s w0 w" and st: "settled w0" and k: "woken K H t w n w'" and n: "n \<noteq> 0"
    and inv: "sync_inv K {#} H w" and sy: "syncs w s = Some sy" and d: "consumable (s_data sy)"
  shows "capacity_of w' s < capacity_of w s"
proof -
  obtain st where r: "wait_result w t = Some st"
    using k n by (auto simp: woken_def)
  then obtain wt rest where t: "waits (thread_of w t) = wt # rest"
    by (cases "waits (thread_of w t)") (simp_all add: wait_result_def)
  have th: "thread_of w t = thread_of w0 t"
    using c r unfolding calm_def by (metis option.distinct(1))
  have r0: "wait_result w0 t = None"
    using st by (simp add: settled_def)
  have al: "check_alerts wt (thread_of w t) w0 = check_alerts wt (thread_of w t) w"
      "is_thread_suspended w0 (thread_of w t) = is_thread_suspended w (thread_of w t)"
    using c by (simp_all add: check_alerts_def wait_expired_def is_thread_suspended_def calm_def)
  have ob: "objects_result w wt t = Some st" "objects_result w0 wt t = None"
    using r r0 t al by (auto simp: wait_result_def Let_def th split: if_splits option.splits)
  have "\<exists>x \<in> set (to_take wt st). \<not> sig w0 x t"
  proof (cases "w_select wt = SELECT_WAIT_ALL")
    case True
    with ob have "st = 0" "\<exists>x \<in> set (w_objs wt). \<not> sig w0 x t"
      by (auto simp: objects_result_def split: if_splits)
    with True show ?thesis
      by (auto simp: to_take_def)
  next
    case False
    with ob obtain i where i: "first_sig w t 0 (w_objs wt) = Some i" "st = of_nat i"
        "\<forall>x \<in> set (w_objs wt). \<not> sig w0 x t"
      by (auto simp: objects_result_def first_sig_None)
    then have "i < length (w_objs wt)" "length (w_objs wt) \<le> 64"
      using first_sig_Some [OF i(1)] inv_wait_ok(1) [OF inv t] by (simp_all add: wait_ok_def)
    then have "unat st = i"
      by (simp add: i(2) unat_of_nat)
    with \<open>i < length (w_objs wt)\<close> i(3) False show ?thesis
      by (simp add: to_take_def)
  qed
  then obtain x where x: "x \<in> set (to_take wt st)" "\<not> sig w0 x t"
    by blast
  have g: "sig w x t"
    using wait_result_sig [OF inv t r] x(1) by blast
  then have "sync_of w x = Some s"
    using c x(2) unfolding calm_def by blast
  moreover have "consumed t w w' x"
    using k t r x(1) by (simp add: woken_def)
  ultimately show ?thesis
    using sy d g by (simp add: consumed_def)
qed

subsection \<open>The end of the loop\<close>

lemma consumable_signaled: "consumable d \<Longrightarrow> sync_signaled d t \<Longrightarrow> 0 < capacity d"
  by (auto simp: consumable_def sync_signaled_def capacity_def event_sync_signaled_def semaphore_sync_signaled_def
      unat_gt_0 word_neq_0_conv split: sync_data.splits)

lemma calm_used_up:
  assumes c: "calm s w0 w" and st: "settled w0" and sy: "syncs w s = Some sy" and d: "consumable (s_data sy)"
    and z: "capacity_of w s = 0"
  shows "settled w"
  unfolding settled_def
proof
  fix u
  have "sig w0 x u" if "sig w x u" for x
  proof (cases "sync_of w x = Some s")
    case True
    with that sy consumable_signaled [OF d, of u] z show ?thesis
      by (auto simp: sig_alt capacity_of_def)
  qed (use c that in \<open>auto simp: calm_def\<close>)
  then show "wait_result w u = None"
    using c st wait_result_mono [of w u w0] unfolding calm_def settled_def by metis
qed

lemma numbered_mem: "x \<in> set xs \<Longrightarrow> \<exists>i. ((t, d, i), x) \<in> set (numbered t d k xs)"
  by (induction xs arbitrary: k) auto

lemma wait_entries_mem:
  "wt \<in> set ws \<Longrightarrow> x \<in> set (w_objs wt) \<Longrightarrow> \<exists>d i. ((t, d, i), x) \<in> set (wait_entries t ws)"
proof (induction ws)
  case (Cons a ws)
  then show ?case
    using numbered_mem [of x "w_objs a" t "length ws" 0] by auto
qed simp

lemma entries_of_thread:
  assumes "wt \<in> set (waits (thread_of w t))" and "x \<in> set (w_objs wt)"
  shows "\<exists>d i. ((t, d, i), x) \<in># entries w"
proof -
  have t: "t < length (stacks w)" "stacks w ! t = waits (thread_of w t)"
    using assms(1) by (auto simp: thread_of_waits split: if_splits)
  have "mset (wait_entries t (stacks w ! t)) \<subseteq># entries w"
    using entries_in_update [OF t(1), of "[]"]
    by (metis add.right_neutral mset_subset_eq_add_right wait_entries.simps(1) mset.simps(1))
  with wait_entries_mem [OF assms, of t] t(2) show ?thesis
    by (metis mset_subset_eqD set_mset_mset)
qed

lemma queue_of_entry:
  assumes inv: "sync_inv K {#} H w" and e: "(e, x) \<in># entries w" and s: "sync_of w x = Some s"
  shows "e \<in> set (queue_of w s)"
proof -
  obtain sy where sy: "syncs w s = Some sy"
    using inv_sync [OF inv s] .
  have "(e, x) \<in># filter_mset (on_sync w s) (entries w + {#})"
    using e s by (simp add: on_sync_def)
  moreover have "mset (s_queue sy) = image_mset fst (filter_mset (on_sync w s) (entries w + {#}))"
    using inv sy unfolding sync_inv_def queues_ok_def by blast
  ultimately have "e \<in># mset (s_queue sy)"
    by force
  with sy show ?thesis
    by (simp add: queue_of_def)
qed

lemma calm_scanned:
  assumes c: "calm s w0 w" and st: "settled w0" and inv: "sync_inv K {#} H w"
    and scan: "\<forall>e \<in> set (queue_of w s). wait_result w (fst e) = None"
  shows "settled w"
  unfolding settled_def
proof (rule allI, rule ccontr)
  fix u
  assume n: "wait_result w u \<noteq> None"
  then have th: "thread_of w u = thread_of w0 u"
    using c unfolding calm_def by metis
  have "sig w0 x u" if x: "waits (thread_of w0 u) = wt # rest" "x \<in> set (w_objs wt)" "sig w x u" for wt rest x
  proof -
    obtain d i where e: "((u, d, i), x) \<in># entries w"
      using entries_of_thread [of wt w u x] x th by auto
    have "sync_of w x \<noteq> Some s"
      using queue_of_entry [OF inv e] scan n by force
    with c x(3) show ?thesis
      unfolding calm_def by blast
  qed
  then have "wait_result w u = None"
    using c st th wait_result_mono [of w u w0] unfolding calm_def settled_def by metis
  with n show False
    by simp
qed

definition budget :: "sid \<Rightarrow> int \<Rightarrow> engine \<Rightarrow> bool" where
  "budget s most w \<longleftrightarrow>
     0 < most \<longrightarrow> int (capacity_of w s) \<le> most \<and> (\<forall>sy. syncs w s = Some sy \<longrightarrow> consumable (s_data sy))"

lemma consumable_shape: "consumable d = consumable (shape d)"
  by (simp add: consumable_def shape_def split: sync_data.splits)

lemma wake_up_loop_ok:
  assumes "sync_inv K {#} H w" and "room {#} w" and "anchored K H s w" and "settled w0" and "calm s w0 w"
    and "\<forall>e \<in> set (queue_of w s). e \<in> set es \<or> wait_result w (fst e) = None" and "budget s most w"
  shows "sync_inv K {#} H (wake_up_loop s most es w) \<and> room {#} (wake_up_loop s most es w) \<and>
    settled (wake_up_loop s most es w) \<and> calm s w0 (wake_up_loop s most es w)"
  using assms
proof (induction s most es w rule: wake_up_loop.induct)
  case (1 s most w)
  then show ?case
    using calm_scanned by auto
next
  case (2 s most e es w)
  obtain n w1 where 1: "wake_thread (fst e) w = (n, w1)"
    by fastforce
  have k: "woken K H (fst e) w n w1"
    by (rule wake_thread_ok [OF 2(3,4) 1])
  have i1: "sync_inv K {#} H w1" "room {#} w1" "subdued (fst e) w w1"
    using k by (simp_all add: woken_def)
  have c1: "calm s w0 w1"
    by (rule calm_woken [OF 2(7) k])
  have a1: "anchored K H s w1"
    by (rule anchored_quiet [OF 2(5) i1(3,1)])
  have al: "syncs w1 s \<noteq> None"
    by (rule anchored_alive [OF a1 i1(1)])
  show ?case
  proof (cases "n = 0")
    case True
    then have w1: "w1 = w" "wait_result w (fst e) = None"
      using k by (simp_all add: woken_def)
    then have "\<forall>e \<in> set (queue_of w s). e \<in> set es \<or> wait_result w (fst e) = None"
      using 2(8) by auto
    with 2(1) [OF 1 [symmetric] True] 2(3-7,9) True 1 w1 show ?thesis
      by (simp add: wake_up_loop.simps(2))
  next
    case False
    have cons: "consumable (s_data sy')" "capacity_of w1 s < capacity_of w s"
      if m: "0 < most" "syncs w1 s = Some sy'" for sy'
    proof -
      obtain sy where sy: "syncs w s = Some sy" "shape (s_data sy') = shape (s_data sy)"
        using i1(3) m(2) unfolding subdued_def by blast
      then have d: "consumable (s_data sy)"
        using 2(9) m(1) by (simp add: budget_def)
      then show "consumable (s_data sy')"
        using sy(2) by (metis consumable_shape)
      show "capacity_of w1 s < capacity_of w s"
        by (rule calm_consumes [OF 2(7,6) k False 2(3) sy(1) d])
    qed
    show ?thesis
    proof (cases "most \<noteq> 0 \<and> most - 1 = 0")
      case True
      obtain sy' where sy': "syncs w1 s = Some sy'"
        using al by blast
      have "capacity_of w1 s = 0"
        using cons(2) [OF _ sy'] 2(9) True by (simp add: budget_def)
      then have "settled w1"
        using calm_used_up [OF c1 2(6) sy' cons(1) [OF _ sy']] True by simp
      with True False 1 i1 c1 show ?thesis
        by (simp add: wake_up_loop.simps(2))
    next
      case go: False
      have "budget s (if most \<noteq> 0 then most - 1 else 0) w1"
        using cons al 2(9) by (auto simp: budget_def)
      moreover have "wake_up_loop s most (e # es) w =
          wake_up_loop s (if most \<noteq> 0 then most - 1 else 0) (queue_of w1 s) w1"
        using go al False 1 by (auto simp: wake_up_loop.simps(2))
      ultimately show ?thesis
        using 2(2) [OF 1 [symmetric] False go al i1(1,2) a1 2(6) c1] by simp
    qed
  qed
qed


subsection \<open>Waking from any state\<close>

definition evolve :: "engine \<Rightarrow> engine \<Rightarrow> bool" where
  "evolve w w' \<longleftrightarrow>
     handles w' = handles w \<and> length (threads w') = length (threads w) \<and>
     current_time w' = current_time w \<and> monotonic_time w' = monotonic_time w \<and>
     (\<forall>r sy'. syncs w' r = Some sy' \<longrightarrow> (\<exists>sy. syncs w r = Some sy \<and> shape (s_data sy') = shape (s_data sy))) \<and>
     (\<forall>y ob'. objs w' y = Some ob' \<longrightarrow> (\<exists>ob. objs w y = Some ob \<and> o_sync ob' = o_sync ob \<and> o_ops ob' = o_ops ob))"

lemma evolve_refl [simp, intro]: "evolve w w"
  by (simp add: evolve_def)

lemma evolve_trans: "evolve w w' \<Longrightarrow> evolve w' w'' \<Longrightarrow> evolve w w''"
  unfolding evolve_def by (intro conjI allI impI; metis)

lemma subdued_evolve: "subdued t w w' \<Longrightarrow> evolve w w'"
  by (simp add: subdued_def evolve_def)

lemma calm_evolve: "calm s w0 w \<Longrightarrow> evolve w0 w"
  by (simp add: calm_def evolve_def)

lemma evolve_held:
  assumes e: "evolve w w'" and inv: "sync_inv K L H w'" and x: "x \<in># H" and ob: "objs w x = Some ob"
  obtains ob' where "objs w' x = Some ob'" and "o_sync ob' = o_sync ob" and "o_ops ob' = o_ops ob"
proof -
  obtain ob' where "objs w' x = Some ob'"
    using inv_held [OF inv x] .
  with e ob that show ?thesis
    unfolding evolve_def by (metis option.inject)
qed

lemma wake_up_loop_inv:
  assumes "sync_inv K {#} H w" and "room {#} w" and "anchored K H s w"
  shows "sync_inv K {#} H (wake_up_loop s most es w) \<and> room {#} (wake_up_loop s most es w) \<and>
    evolve w (wake_up_loop s most es w)"
  using assms
proof (induction s most es w rule: wake_up_loop.induct)
  case (2 s most e es w)
  obtain n w1 where 1: "wake_thread (fst e) w = (n, w1)"
    by fastforce
  have i1: "sync_inv K {#} H w1" "room {#} w1" "subdued (fst e) w w1"
    using wake_thread_ok [OF 2(3,4) 1] by (simp_all add: woken_def)
  have a1: "anchored K H s w1"
    by (rule anchored_quiet [OF 2(5) i1(3,1)])
  have al: "syncs w1 s \<noteq> None"
    by (rule anchored_alive [OF a1 i1(1)])
  note e1 = subdued_evolve [OF i1(3)]
  consider "n = 0" | "n \<noteq> 0" "most \<noteq> 0 \<and> most - 1 = 0" | "n \<noteq> 0" "\<not> (most \<noteq> 0 \<and> most - 1 = 0)"
    by blast
  then show ?case
  proof cases
    case 1
    with 2(1) [OF \<open>wake_thread (fst e) w = (n, w1)\<close> [symmetric] 1 i1(1,2) a1] show ?thesis
      using \<open>wake_thread (fst e) w = (n, w1)\<close> evolve_trans [OF e1] by (simp add: wake_up_loop.simps(2))
  next
    case 2
    with i1 e1 \<open>wake_thread (fst e) w = (n, w1)\<close> show ?thesis
      by (simp add: wake_up_loop.simps(2))
  next
    case 3
    then have "wake_up_loop s most (e # es) w = wake_up_loop s (if most \<noteq> 0 then most - 1 else 0) (queue_of w1 s) w1"
      using al \<open>wake_thread (fst e) w = (n, w1)\<close> by (auto simp: wake_up_loop.simps(2))
    with 2(2) [OF \<open>wake_thread (fst e) w = (n, w1)\<close> [symmetric] 3 al i1(1,2) a1] show ?thesis
      using evolve_trans [OF e1] by simp
  qed
qed auto

lemma wake_up_inv:
  assumes "sync_inv K {#} H w" and "room {#} w" and "anchored K H s w"
  shows "sync_inv K {#} H (wake_up s most w)" and "room {#} (wake_up s most w)" and "evolve w (wake_up s most w)"
    and "anchored K H s (wake_up s most w)"
proof -
  show *: "sync_inv K {#} H (wake_up s most w)" "room {#} (wake_up s most w)" "evolve w (wake_up s most w)"
    using wake_up_loop_inv [OF assms] anchored_alive [OF assms(3,1)] by (auto simp: wake_up_def)
  show "anchored K H s (wake_up s most w)"
  proof (cases "K = Some s")
    case False
    then obtain x ob where x: "x \<in># H" "objs w x = Some ob" "o_sync ob = Some s"
      using assms(3) by (auto simp: anchored_def sync_of_Some)
    obtain ob' where "objs (wake_up s most w) x = Some ob'" "o_sync ob' = o_sync ob"
      using evolve_held [OF *(3,1) x(1,2)] .
    with x show ?thesis
      by (auto simp: anchored_def sync_of_Some)
  qed (simp add: anchored_def)
qed

lemma wake_up_settled:
  assumes "sync_inv K {#} H w" and "room {#} w" and "anchored K H s w" and "settled w0" and "calm s w0 w"
    and "budget s most w"
  shows "settled (wake_up s most w)"
  using wake_up_loop_ok [OF assms(1-5) _ assms(6), of "queue_of w s"] anchored_alive [OF assms(3,1)]
  by (auto simp: wake_up_def)

end
