(* ===== verification/Sync_Signal.thy ===== *)
theory Sync_Signal
  imports Sync_Settled
begin

text \<open>
  Signaling an event, releasing a semaphore and releasing a mutex keep the invariant, and lead from a
  settled state to a settled state.
\<close>

abbreviation put_data :: "sid \<Rightarrow> sync_data \<Rightarrow> engine \<Rightarrow> engine" where
  "put_data s d \<equiv> upd_sync s (\<lambda>sy. sy\<lparr>s_data := d\<rparr>)"

lemma upd_sync_env [simp]:
  "current_time (upd_sync s f w) = current_time w" "monotonic_time (upd_sync s f w) = monotonic_time w"
  "proc_suspend (upd_sync s f w) = proc_suspend w"
  by (simp_all add: upd_sync_def)

lemma upd_thread_env [simp]:
  "current_time (upd_thread t f w) = current_time w" "monotonic_time (upd_thread t f w) = monotonic_time w"
  "proc_suspend (upd_thread t f w) = proc_suspend w" "length (threads (upd_thread t f w)) = length (threads w)"
  by (simp_all add: upd_thread_def)

lemma shape_kind: "shape d = shape d' \<Longrightarrow> kind_ok ops d = kind_ok ops d'"
  by (auto simp: shape_def kind_ok_def split: sync_data.splits)

lemma inv_put_data:
  assumes inv: "sync_inv K L H w" and sy: "syncs w s = Some sy"
    and d: "shape d = shape (s_data sy)" "owner_of d = owner_of (s_data sy)" "data_ok d"
  shows "sync_inv K L H (put_data s d w)"
proof -
  have "sync_ok K w s sy"
    using inv sy by (simp add: sync_inv_def syncs_ok_def)
  then have "sync_ok K w s (sy\<lparr>s_data := d\<rparr>)"
    using d by (auto simp: sync_ok_def)
  then have "syncs_ok K (put_data s d w)"
    using inv sy by (intro syncs_ok_upd_sync) (auto simp: sync_inv_def)
  moreover have "objs_ok (put_data s d w)"
    using inv sy shape_kind [OF d(1)] by (intro objs_ok_upd_sync) (auto simp: sync_inv_def)
  moreover have "queues_ok L (put_data s d w)" "mutexes_ok (put_data s d w)"
    using inv sy d(2) by (auto simp: sync_inv_def intro!: queues_ok_upd_sync mutexes_ok_upd_sync)
  ultimately show ?thesis
    using inv by (simp add: sync_inv_def)
qed

lemma room_put_data:
  assumes "room P w" and "syncs w s = Some sy"
    and "\<And>m'. d = Mutex_sync m' \<Longrightarrow> \<exists>m. s_data sy = Mutex_sync m \<and> unat (recursion m') \<le> unat (recursion m)"
  shows "room P (put_data s d w)"
  unfolding room_def
proof (intro allI impI)
  fix r sy' m'
  assume a: "syncs (put_data s d w) r = Some sy'" "s_data sy' = Mutex_sync m'"
  obtain sy0 m where "syncs w r = Some sy0" "s_data sy0 = Mutex_sync m" "unat (recursion m') \<le> unat (recursion m)"
    using a assms(2,3) by (cases "r = s") auto
  then show "unat (recursion m') + size (filter_mset (\<lambda>x. sync_of (put_data s d w) x = Some r)
      (image_mset snd (entries (put_data s d w)) + P)) < 2 ^ 32"
    using assms(1) unfolding room_def by (fastforce intro: le_less_trans)
qed

lemma sig_put_data:
  "sig (put_data s d w) y u =
     (if sync_of w y = Some s \<and> syncs w s \<noteq> None then sync_signaled d u else sig w y u)"
  by (cases "syncs w s") (auto simp: sig_def split: option.splits bind_splits)

lemma sig_upd_thread [simp]: "sig (upd_thread t f w) = sig w"
  by (simp add: sig_def fun_eq_iff)

lemma evolve_put_data: "syncs w s = Some sy \<Longrightarrow> shape d = shape (s_data sy) \<Longrightarrow> evolve w (put_data s d w)"
  by (auto simp: evolve_def)

lemma anchored_put_data [simp]: "anchored K H r (upd_sync s f w) = anchored K H r w"
  by (simp add: anchored_def)

lemma calm_put_data:
  assumes "settled w" and "syncs w s = Some sy" and "shape d = shape (s_data sy)"
  shows "calm s w (put_data s d w)"
  using assms by (auto simp: calm_def sig_put_data)

lemma first_sig_cong: "(\<And>x. x \<in> set xs \<Longrightarrow> sig w' x t = sig w x t) \<Longrightarrow> first_sig w' t i xs = first_sig w t i xs"
  by (induction xs arbitrary: i) auto

lemma wait_result_cong:
  assumes th: "thread_of w' t = (thread_of w t)\<lparr>mutex_list := l\<rparr>"
    and env: "current_time w' = current_time w" "monotonic_time w' = monotonic_time w" "proc_suspend w' = proc_suspend w"
    and sigs: "\<And>x. sig w' x t = sig w x t"
  shows "wait_result w' t = wait_result w t"
proof -
  have "objects_result w' wt t = objects_result w wt t" for wt
    using sigs by (simp add: objects_result_def first_sig_cong [of _ w' t w])
  moreover have "check_alerts wt (th\<lparr>mutex_list := l\<rparr>) w' = check_alerts wt th w"
    "is_thread_suspended w' (th\<lparr>mutex_list := l\<rparr>) = is_thread_suspended w th"
    "interrupted (th\<lparr>mutex_list := l\<rparr>) wt = interrupted th wt"
    "cooperates (th\<lparr>mutex_list := l\<rparr>) wt = cooperates th wt" for th wt
    by (simp_all add: check_alerts_def wait_expired_def is_thread_suspended_def env interrupted_def cooperates_def)
  ultimately show ?thesis
    by (cases "waits (thread_of w t)") (simp_all add: wait_result_def Let_def th split: option.split)
qed

lemma settled_mono:
  assumes "settled w" and "\<And>u. thread_of w' u = thread_of w u"
    and "current_time w' = current_time w" "monotonic_time w' = monotonic_time w" "proc_suspend w' = proc_suspend w"
    and "\<And>x u. sig w' x u \<Longrightarrow> sig w x u"
  shows "settled w'"
  using assms wait_result_mono [of w' _ w] by (auto simp: settled_def)

lemma settled_set_err [simp]: "settled (set_err st w) = settled w"
proof -
  have "thread_of (set_err st w) = thread_of w" "sig (set_err st w) = sig w"
    by (simp_all add: thread_of_def sig_def sync_of_def fun_eq_iff)
  then have "wait_result (set_err st w) t = wait_result w t" for t
    by (intro wait_result_cong [where l = "mutex_list (thread_of w t)"]) (simp_all add: set_err_def)
  then show ?thesis
    by (simp add: settled_def)
qed

subsection \<open>Events\<close>

lemma event_sync_signal_ok:
  assumes inv: "sync_inv K {#} H w" and room: "room {#} w" and a: "anchored K H s w"
    and sy: "syncs w s = Some sy" and ev: "s_data sy = Event_sync ev"
  shows "sync_inv K {#} H (event_sync_signal s b w)" and "room {#} (event_sync_signal s b w)"
    and "evolve w (event_sync_signal s b w)" and "settled w \<Longrightarrow> settled (event_sync_signal s b w)"
proof -
  let ?d = "Event_sync (ev\<lparr>signaled := b\<rparr>)"
  let ?w1 = "put_data s ?d w"
  let ?most = "if manual ev then 0 else 1 :: int"
  have sh: "shape ?d = shape (s_data sy)"
    by (simp add: ev shape_def)
  have i1: "sync_inv K {#} H ?w1"
    using sh by (rule inv_put_data [OF inv sy]) (simp_all add: ev owner_of_def data_ok_def)
  have r1: "room {#} ?w1"
    by (rule room_put_data [OF room sy]) simp
  have e1: "evolve w ?w1"
    by (rule evolve_put_data [OF sy sh])
  note k = wake_up_inv [OF i1 r1, of s ?most]
  have eq: "event_sync_signal s b w = (if b then wake_up s ?most ?w1 else ?w1)"
    by (simp add: event_sync_signal_def sy ev)
  show "sync_inv K {#} H (event_sync_signal s b w)" "room {#} (event_sync_signal s b w)"
    "evolve w (event_sync_signal s b w)"
    using k a i1 r1 e1 evolve_trans [OF e1] by (auto simp: eq)
  show "settled (event_sync_signal s b w)" if st: "settled w"
  proof (cases b)
    case True
    then have "budget s ?most ?w1"
      using sy by (simp add: budget_def capacity_of_def capacity_def consumable_def)
    then show ?thesis
      unfolding eq using True a wake_up_settled [OF i1 r1 _ st calm_put_data [OF st sy sh]] by simp
  next
    case False
    have "settled ?w1"
      using sy ev False by (intro settled_mono [OF st])
        (auto simp: sig_put_data sync_signaled_def event_sync_signaled_def split: if_splits)
    then show ?thesis
      unfolding eq using False by simp
  qed
qed

subsection \<open>Semaphores\<close>

lemma sint_pos_unat:
  assumes "0 < sint (n :: 32 word)"
  shows "unat n = nat (sint n)"
proof -
  have u: "uint n < 2 ^ 32"
    using uint_lt2p [of n] by simp
  then have "sint n = uint n - 2 ^ 32 * of_bool (bit (uint n) 31)"
    by (simp add: sint_uint signed_take_bit_eq_take_bit_minus take_bit_eq_mod)
  with u assms have "sint n = uint n"
    by (auto simp: of_bool_def split: if_splits)
  then show ?thesis
    by simp
qed

lemma release_semaphore_ok:
  assumes inv: "sync_inv K {#} H w" and room: "room {#} w" and a: "anchored K H s w"
    and sy: "syncs w s = Some sy" and sem: "s_data sy = Semaphore_sync sem"
    and r: "release_semaphore s n w = (prev, ok, w')"
  shows "sync_inv K {#} H w'" and "room {#} w'" and "evolve w w'" and "settled w \<Longrightarrow> settled w'"
proof -
  let ?d = "\<lambda>c. Semaphore_sync (sem\<lparr>sem_count := c\<rparr>)"
  let ?w1 = "\<lambda>c. put_data s (?d c) w"
  have sh: "shape (?d c) = shape (s_data sy)" for c
    by (simp add: sem shape_def)
  have i1: "sync_inv K {#} H (?w1 c)" if "c \<le> sem_max sem" for c
    using sh that by (intro inv_put_data [OF inv sy]) (simp_all add: sem owner_of_def data_ok_def)
  have r1: "room {#} (?w1 c)" for c
    by (rule room_put_data [OF room sy]) simp
  have e1: "evolve w (?w1 c)" for c
    by (rule evolve_put_data [OF sy sh])
  consider (limit) "w' = set_err STATUS_SEMAPHORE_LIMIT_EXCEEDED w"
    | (more) "sem_count sem \<noteq> 0" "sem_count sem + n \<ge> sem_count sem" "sem_count sem + n \<le> sem_max sem"
        "w' = ?w1 (sem_count sem + n)"
    | (wake) "sem_count sem = 0" "n \<le> sem_max sem" "w' = wake_up s (sint n) (?w1 n)"
  proof (cases "sem_count sem + n < sem_count sem \<or> sem_max sem < sem_count sem + n")
    case True
    with r limit show thesis
      by (simp add: release_semaphore_def sy sem)
  next
    case ok: False
    show thesis
    proof (cases "sem_count sem = 0")
      case True
      with r ok wake show thesis
        by (auto simp: release_semaphore_def sy sem not_less split: if_splits)
    next
      case False
      with r ok more show thesis
        by (auto simp: release_semaphore_def sy sem not_less split: if_splits)
    qed
  qed
  then have "sync_inv K {#} H w' \<and> room {#} w' \<and> evolve w w' \<and> (settled w \<longrightarrow> settled w')"
  proof cases
    case limit
    with inv room show ?thesis
      using subdued_evolve [OF subdued_set_err] by simp
  next
    case more
    have on: "sync_signaled (s_data sy) u" for u
      using more(1) by (simp add: sem sync_signaled_def semaphore_sync_signaled_def word_neq_0_conv)
    have le: "sig w x u" if "sig w' x u" for x u
      using that sy on by (cases "sync_of w x = Some s") (auto simp: more(4) sig_put_data, auto simp: sig_alt)
    have "settled w'" if "settled w"
      by (rule settled_mono [OF that _ _ _ _ le]) (simp_all add: more(4))
    with more i1 [OF more(3)] r1 e1 show ?thesis
      by simp
  next
    case wake
    note k = wake_up_inv [OF i1 [OF wake(2)] r1, of s "sint n"]
    have "settled w'" if st: "settled w"
    proof -
      have "budget s (sint n) (?w1 n)"
        using sy by (auto simp: budget_def capacity_of_def capacity_def consumable_def sint_pos_unat)
      with wake st a show ?thesis
        using wake_up_settled [OF i1 [OF wake(2)] r1 _ st calm_put_data [OF st sy sh]] by simp
    qed
    with wake k a evolve_trans [OF e1] show ?thesis
      by simp
  qed
  then show "sync_inv K {#} H w'" "room {#} w'" "evolve w w'" "settled w \<Longrightarrow> settled w'"
    by simp_all
qed

subsection \<open>Mutexes\<close>

lemma mutexes_ok_remove:
  assumes "mutexes_ok w" and "owned_by w s = Some t" and "threads w' = threads w"
    and "owned_by w' = (owned_by w)(s := None)"
  shows "mutexes_ok (upd_thread t (remove_mutex s) w')"
proof -
  have c: "count_list (mutex_list (thread_of w u)) r = of_bool (owned_by w r = Some u)" for u r
    using assms(1) by (simp add: mutexes_ok_def)
  have t: "t < length (threads w)"
    using c [of t s] assms(2) by (auto simp: thread_of_def idle_thread_def split: if_splits)
  have th: "thread_of w' = thread_of w"
    by (rule thread_of_cong [OF assms(3)])
  have "count_list (remove1 s xs) r = count_list xs r - of_bool (r = s)" for xs :: "nat list" and r
    by (induction xs) (auto simp: count_list_0_iff)
  then have "count_list (mutex_list (thread_of (upd_thread t (remove_mutex s) w') u)) r =
      count_list (mutex_list (thread_of w u)) r - of_bool (u = t \<and> r = s)" for u r
    using t assms(3) by (simp add: thread_of_upd_thread th remove_mutex_def)
  with c assms(2) show ?thesis
    by (simp add: mutexes_ok_def assms(4))
qed

text \<open>The state in which the owner has just given the mutex up and not yet woken anybody: the
  owner's reference is the one \<open>do_release\<close> still holds.\<close>

lemma give_up_ok:
  assumes inv: "sync_inv None {#} H w" and sy: "syncs w s = Some sy" and m: "s_data sy = Mutex_sync m"
    and ow: "owner m = Some t"
  defines "w1 \<equiv> put_data s (Mutex_sync (m\<lparr>recursion := 0, owner := None\<rparr>)) (upd_thread t (remove_mutex s) w)"
  shows "sync_inv (Some s) {#} H w1" and "room {#} w \<Longrightarrow> room {#} w1" and "settled w \<Longrightarrow> calm s w w1"
    and "evolve w w1"
proof -
  let ?d = "Mutex_sync (m\<lparr>recursion := 0, owner := None\<rparr>)"
  let ?p = "put_data s ?d w"
  have w1: "w1 = upd_thread t (remove_mutex s) ?p"
    by (simp add: w1_def upd_sync_upd_thread)
  have ok: "sync_ok None w r y" if "syncs w r = Some y" for r y
    using inv that by (simp add: sync_inv_def syncs_ok_def)
  have "syncs_ok (Some s) ?p"
    unfolding syncs_ok_def
  proof (intro conjI allI impI)
    fix r y
    assume y: "syncs ?p r = Some y"
    show "sync_ok (Some s) ?p r y"
    proof (cases "r = s")
      case True
      with y sy ok [OF sy] m ow show ?thesis
        by (auto simp: sync_ok_def data_ok_def owner_of_def)
    next
      case False
      with y ok [of r y] show ?thesis
        by (auto simp: sync_ok_def)
    qed
  qed (use sy in auto)
  moreover have "objs_ok ?p"
    using inv sy m by (intro objs_ok_upd_sync) (auto simp: sync_inv_def kind_ok_def)
  moreover have "queues_ok {#} ?p"
    using inv by (intro queues_ok_upd_sync) (simp_all add: sync_inv_def)
  moreover have "mutexes_ok w1"
    unfolding w1
  proof (rule mutexes_ok_remove [of w])
    show "owned_by w s = Some t"
      using sy m ow by (simp add: owned_by_def owner_of_def)
    show "owned_by ?p = (owned_by w)(s := None)"
      using sy by (auto simp: owned_by_upd_sync owner_of_def)
  qed (use inv in \<open>simp_all add: sync_inv_def\<close>)
  ultimately show "sync_inv (Some s) {#} H w1"
    using inv by (simp add: sync_inv_def w1 upd_thread_same remove_mutex_def)
  show "room {#} w1" if "room {#} w"
  proof -
    have "room {#} ?p"
      using that sy m by (intro room_put_data) auto
    then show ?thesis
      by (simp add: w1 room_outer [of "upd_thread t (remove_mutex s) ?p" ?p] stacks_upd_thread_same remove_mutex_def)
  qed
  show "evolve w w1"
    using evolve_put_data [OF sy, of ?d] m subdued_evolve [OF upd_thread_quiet]
    by (auto simp: w1 shape_def intro: evolve_trans)
  show "calm s w w1" if st: "settled w"
  proof -
    have sg: "sig w1 x u = (if sync_of w x = Some s then True else sig w x u)" for x u
      using sy by (simp add: w1 sig_put_data sync_signaled_def mutex_sync_signaled_def)
    have "wait_result w1 u = None \<or> thread_of w1 u = thread_of w u" for u
    proof (cases "u = t")
      case True
      have "sync_signaled (s_data sy) t"
        by (simp add: m sync_signaled_def mutex_sync_signaled_def ow)
      then have "sig w1 x t = sig w x t" for x
        using sy by (auto simp: sg) (auto simp: sig_alt)
      moreover have "thread_of w1 t = (thread_of w t)\<lparr>mutex_list := mutex_list (thread_of w1 t)\<rparr>"
        by (simp add: w1 thread_of_upd_thread remove_mutex_def)
      ultimately have "wait_result w1 t = wait_result w t"
        by (intro wait_result_cong) (simp_all add: w1 upd_thread_def)
      with True st show ?thesis
        by (simp add: settled_def)
    qed (simp add: w1 thread_of_upd_thread)
    moreover have "calm s w ?p"
      by (rule calm_put_data [OF st sy]) (simp add: m shape_def)
    ultimately show ?thesis
      by (simp add: calm_def w1)
  qed
qed

end
