(* ===== verification/Sync_Safe.thy ===== *)
theory Sync_Safe
  imports Sync_Signal
begin

text \<open>
  Every operation of the engine keeps the invariant: releasing a mutex, the requests through handles,
  \<open>select\<close>, time-outs, suspension and the death of a thread. A client is only asked not to name one
  semaphore twice in one wait for all objects, and to leave room in the 32-bit counts.
\<close>

subsection \<open>Releasing a mutex\<close>

lemma settled_shrinks: "settled w \<Longrightarrow> shrinks w w' \<Longrightarrow> settled w'"
  using shrinks_quiet [of w w' 0] thread_of_cong [of w' w]
  by (intro settled_mono [of w w']) (auto simp: shrinks_def subdued_def)

lemma shrinks_evolve: "shrinks w w' \<Longrightarrow> evolve w w'"
  by (rule subdued_evolve [OF shrinks_quiet [of w w' 0]])

text \<open>What every operation keeps of a state \<open>w\<close> in the state \<open>w'\<close>, with the references \<open>H\<close> it still holds.\<close>

definition upholds :: "oid multiset \<Rightarrow> engine \<Rightarrow> engine \<Rightarrow> bool" where
  "upholds H w w' \<longleftrightarrow>
     sync_inv None {#} H w' \<and> room {#} w' \<and> evolve w w' \<and> (settled w \<longrightarrow> settled w')"

lemma upholdsD:
  assumes "upholds H w w'"
  shows "sync_inv None {#} H w'" "room {#} w'" "evolve w w'" "settled w \<Longrightarrow> settled w'"
  using assms by (simp_all add: upholds_def)

lemma upholds_refl: "sync_inv None {#} H w \<Longrightarrow> room {#} w \<Longrightarrow> upholds H w w"
  by (simp add: upholds_def)

lemma upholds_trans: "upholds H w w' \<Longrightarrow> upholds H' w' w'' \<Longrightarrow> upholds H' w w''"
  by (auto simp: upholds_def intro: evolve_trans)

lemma upholds_set_err: "sync_inv None {#} H w \<Longrightarrow> room {#} w \<Longrightarrow> upholds H w (set_err st w)"
  using subdued_evolve [OF subdued_set_err] by (simp add: upholds_def)

lemma upholds_release_obj:
  assumes "sync_inv None {#} (add_mset x H) w" and "room {#} w"
  shows "upholds H w (release_obj x w)"
  using inv_release_obj [OF assms(1)] shrinks_room [OF shrinks_release_obj assms(2)]
    shrinks_evolve [OF shrinks_release_obj] settled_shrinks [OF _ shrinks_release_obj]
  by (simp add: upholds_def)

lemma do_release_upholds:
  assumes inv: "sync_inv None {#} H w" and room: "room {#} w"
    and sy: "syncs w s = Some sy" and m: "s_data sy = Mutex_sync m" and n: "n = 1 \<or> n = recursion m"
  shows "upholds H w (snd (do_release s t n w))"
proof -
  have dat: "map_option s_data (syncs w s) = Some (Mutex_sync m)"
    by (simp add: sy m)
  consider (foreign) "recursion m = 0 \<or> owner m \<noteq> Some t"
    | (last) "recursion m \<noteq> 0" "owner m = Some t" "recursion m - n = 0"
    | (nested) "recursion m \<noteq> 0" "owner m = Some t" "recursion m - n \<noteq> 0"
    by blast
  then show ?thesis
  proof cases
    case foreign
    with inv room show ?thesis
      by (simp add: do_release_def dat upholds_set_err)
  next
    case last
    let ?w1 = "put_data s (Mutex_sync (m\<lparr>recursion := 0, owner := None\<rparr>)) (upd_thread t (remove_mutex s) w)"
    let ?w2 = "wake_up s 0 ?w1"
    note g = give_up_ok [OF inv sy m last(2)]
    have a: "anchored (Some s) H s ?w1"
      by (simp add: anchored_def)
    note k = wake_up_inv [OF g(1) g(2) [OF room] a, of 0]
    have eq: "snd (do_release s t n w) = release_sync s ?w2"
      using last by (simp add: do_release_def dat)
    obtain sy' where "syncs ?w2 s = Some sy'"
      using anchored_alive [OF k(4,1)] by blast
    then have "sync_inv None {#} H (release_sync s ?w2)"
      by (rule inv_release_sync [OF k(1)])
    moreover have "room {#} (release_sync s ?w2)"
      by (rule shrinks_room [OF shrinks_release_sync k(2)])
    moreover have "evolve w (release_sync s ?w2)"
      using evolve_trans [OF g(4) evolve_trans [OF k(3) shrinks_evolve [OF shrinks_release_sync]]] .
    moreover have "settled (release_sync s ?w2)" if "settled w"
      using wake_up_settled [OF g(1) g(2) [OF room] a that g(3) [OF that], of 0]
      by (intro settled_shrinks [OF _ shrinks_release_sync]) (simp add: budget_def)
    ultimately show ?thesis
      by (simp add: eq upholds_def)
  next
    case nested
    let ?d = "Mutex_sync (m\<lparr>recursion := recursion m - n\<rparr>)"
    have "n = 1"
      using n nested by auto
    then have le: "unat (recursion m - n) \<le> unat (recursion m)"
      using nested(1) by (simp add: unat_minus_one)
    have sh: "shape ?d = shape (s_data sy)"
      by (simp add: m shape_def)
    have "sync_inv None {#} H (put_data s ?d w)"
      using sh nested m by (intro inv_put_data [OF inv sy]) (simp_all add: owner_of_def data_ok_def)
    moreover have "room {#} (put_data s ?d w)"
      using le m by (intro room_put_data [OF room sy]) auto
    moreover have "settled (put_data s ?d w)" if st: "settled w"
    proof (rule settled_mono [OF st])
      fix x u
      assume "sig (put_data s ?d w) x u"
      then show "sig w x u"
        using sy m nested by (auto simp: sig_put_data sync_signaled_def mutex_sync_signaled_def split: if_splits)
          (auto simp: sig_alt sync_signaled_def mutex_sync_signaled_def)
    qed simp_all
    ultimately show ?thesis
      using nested evolve_put_data [OF sy sh] by (simp add: do_release_def dat upholds_def)
  qed
qed

lemma event_upholds:
  assumes "sync_inv None {#} H w" and "room {#} w" and "anchored None H s w"
    and "syncs w s = Some sy" and "s_data sy = Event_sync ev"
  shows "upholds H w (event_sync_signal s b w)"
  using event_sync_signal_ok [OF assms] by (simp add: upholds_def)

lemma semaphore_upholds:
  assumes "sync_inv None {#} H w" and "room {#} w" and "anchored None H s w"
    and "syncs w s = Some sy" and "s_data sy = Semaphore_sync sem"
  shows "upholds H w (snd (snd (release_semaphore s n w)))"
proof -
  obtain prev ok w' where r: "release_semaphore s n w = (prev, ok, w')"
    by (metis prod_cases3)
  then show ?thesis
    using release_semaphore_ok [OF assms r] by (simp add: upholds_def)
qed

subsection \<open>Objects named by handles\<close>

definition refs_low :: "nat \<Rightarrow> engine \<Rightarrow> bool" where
  "refs_low n w \<longleftrightarrow> (\<forall>x ob. objs w x = Some ob \<longrightarrow> o_refs ob + n \<le> INT_MAX)"

definition has_kind :: "(sync_data \<Rightarrow> bool) \<Rightarrow> engine \<Rightarrow> oid \<Rightarrow> bool" where
  "has_kind P w x \<longleftrightarrow> (\<exists>s sy. sync_of w x = Some s \<and> syncs w s = Some sy \<and> P (s_data sy))"

definition is_event :: "sync_data \<Rightarrow> bool" where
  "is_event d = (case d of Event_sync _ \<Rightarrow> True | _ \<Rightarrow> False)"

definition is_mutex :: "sync_data \<Rightarrow> bool" where
  "is_mutex d = (case d of Mutex_sync _ \<Rightarrow> True | _ \<Rightarrow> False)"

definition is_sem :: "sync_data \<Rightarrow> bool" where
  "is_sem d = (case d of Semaphore_sync _ \<Rightarrow> True | _ \<Rightarrow> False)"

lemma is_kind:
  "is_event d \<longleftrightarrow> (\<exists>ev. d = Event_sync ev)" "is_mutex d \<longleftrightarrow> (\<exists>m. d = Mutex_sync m)"
  "is_sem d \<longleftrightarrow> (\<exists>sem. d = Semaphore_sync sem)"
  by (cases d; simp add: is_event_def is_mutex_def is_sem_def)+

lemma kind_shape:
  "shape d = shape d' \<Longrightarrow> is_event d = is_event d'" "shape d = shape d' \<Longrightarrow> is_mutex d = is_mutex d'"
  "shape d = shape d' \<Longrightarrow> is_sem d = is_sem d'"
  by (auto simp: shape_def is_event_def is_mutex_def is_sem_def split: sync_data.splits)

lemma has_kind_evolve:
  assumes k: "has_kind P w x" and e: "evolve w w'" and inv: "sync_inv K L H w'" and x: "x \<in># H"
    and P: "\<And>d d'. shape d = shape d' \<Longrightarrow> P d = P d'"
  shows "has_kind P w' x"
proof -
  obtain s sy where s: "sync_of w x = Some s" "syncs w s = Some sy" "P (s_data sy)"
    using k by (auto simp: has_kind_def)
  then obtain ob where ob: "objs w x = Some ob" "o_sync ob = Some s"
    by (auto simp: sync_of_Some)
  obtain ob' where "objs w' x = Some ob'" "o_sync ob' = Some s"
    using evolve_held [OF e inv x ob(1)] ob(2) by metis
  then have s': "sync_of w' x = Some s"
    by (simp add: sync_of_Some)
  obtain sy' where sy': "syncs w' s = Some sy'"
    using inv_sync [OF inv s'] .
  then have "shape (s_data sy') = shape (s_data sy)"
    using e s(2) unfolding evolve_def by (metis option.inject)
  with s' sy' s(3) P show ?thesis
    unfolding has_kind_def by blast
qed

lemma has_kind_ops:
  assumes inv: "sync_inv K L H w" and x: "objs w x = Some ob"
  shows "o_ops ob = Event_ops \<Longrightarrow> has_kind is_event w x" and "o_ops ob = Mutex_ops \<Longrightarrow> has_kind is_mutex w x"
    and "o_ops ob = Semaphore_ops \<Longrightarrow> has_kind is_sem w x"
    and "o_sync ob \<noteq> None \<Longrightarrow> o_ops ob = Other_ops \<Longrightarrow> has_kind is_event w x"
proof -
  have *: "\<exists>s sy. sync_of w x = Some s \<and> syncs w s = Some sy \<and> kind_ok (o_ops ob) (s_data sy)" if "o_sync ob \<noteq> None"
    using inv that x unfolding sync_inv_def objs_ok_def sync_of_Some by (metis not_None_eq)
  have "o_sync ob \<noteq> None" if "o_ops ob \<noteq> Other_ops"
    using inv that x unfolding sync_inv_def objs_ok_def by blast
  with * show "o_ops ob = Event_ops \<Longrightarrow> has_kind is_event w x" "o_ops ob = Mutex_ops \<Longrightarrow> has_kind is_mutex w x"
    "o_ops ob = Semaphore_ops \<Longrightarrow> has_kind is_sem w x"
    "o_sync ob \<noteq> None \<Longrightarrow> o_ops ob = Other_ops \<Longrightarrow> has_kind is_event w x"
    by (auto simp: has_kind_def kind_ok_def is_event_def is_mutex_def is_sem_def split: sync_data.splits)
qed

lemma grab_obj_upholds:
  assumes inv: "sync_inv None {#} H w" and room: "room {#} w" and x: "objs w x = Some ob" and l: "refs_low (Suc n) w"
  shows "upholds (add_mset x H) w (grab_obj x w)" and "refs_low n (grab_obj x w)"
proof -
  have "o_refs ob + Suc n \<le> INT_MAX"
    using l x unfolding refs_low_def by blast
  then have "o_refs ob < INT_MAX"
    by simp
  then show "upholds (add_mset x H) w (grab_obj x w)"
    using inv_grab_obj [OF inv x] shrinks_room [OF shrinks_grab_obj room] shrinks_evolve [OF shrinks_grab_obj]
      settled_shrinks [OF _ shrinks_grab_obj] by (simp add: upholds_def)
  show "refs_low n (grab_obj x w)"
    using l x by (fastforce simp: refs_low_def grab_obj_def assert_that_def failed_def)
qed

lemma handle_alive:
  assumes inv: "sync_inv K L H w" and h: "find_handle w p h = Some (x, a)"
  obtains ob where "objs w x = Some ob"
proof -
  have "((p, h), x, a) \<in> set (handles w)"
    using h by (simp add: find_handle_def map_of_SomeD)
  then have "x \<in># holders w"
    by (force simp: holders_def)
  then have "0 < count (holders w + (image_mset snd L + H)) x"
    by simp
  then have "0 < refs_of w x"
    using inv unfolding sync_inv_def refs_ok_def by (metis less_le_trans)
  then show ?thesis
    using that by (cases "objs w x") (auto simp: refs_of_def)
qed

lemma get_handle_object_ok:
  assumes inv: "sync_inv None {#} H w" and room: "room {#} w" and l: "refs_low (Suc n) w"
    and g: "get_handle_object p h acc ops w = (r, w1)"
  obtains (refused) "r = None" and "upholds H w w1" and "threads w1 = threads w"
  | (found) x ob where "r = Some x" and "upholds (add_mset x H) w w1" and "refs_low n w1"
      and "objs w1 x = Some ob" and "\<And>k. ops = Some k \<Longrightarrow> o_ops ob = k" and "threads w1 = threads w"
proof (cases r)
  case None
  then obtain st where "w1 = set_err st w"
    using g by (auto simp: get_handle_object_def split: option.splits if_splits)
  with None refused inv room show ?thesis
    by (simp add: upholds_set_err)
next
  case (Some x)
  then obtain a where a: "find_handle w p h = Some (x, a)" "w1 = grab_obj x w"
      "\<not> (ops \<noteq> None \<and> map_option o_ops (objs w x) \<noteq> ops)"
    using g by (auto simp: get_handle_object_def split: option.splits if_splits)
  obtain ob where ob: "objs w x = Some ob"
    using handle_alive [OF inv a(1)] .
  have "objs w1 x = Some (ob\<lparr>o_refs := Suc (o_refs ob)\<rparr>)"
    using ob a(2) by (simp add: grab_obj_def assert_that_def failed_def)
  with found [OF Some _ _ this] grab_obj_upholds [OF inv room ob l] a ob show ?thesis
    by auto
qed


subsection \<open>Operations on a held object\<close>

lemma held_sync:
  assumes "has_kind P w x" and "x \<in># H"
  obtains s sy where "sync_of w x = Some s" and "syncs w s = Some sy" and "P (s_data sy)" and "anchored None H s w"
  using assms unfolding has_kind_def anchored_def by blast

lemma set_event_upholds:
  assumes inv: "sync_inv None {#} H w" and room: "room {#} w" and x: "x \<in># H" and k: "has_kind is_event w x"
  shows "upholds H w (set_event x w)" and "upholds H w (reset_event x w)"
proof -
  obtain s sy where s: "sync_of w x = Some s" "syncs w s = Some sy" "is_event (s_data sy)" "anchored None H s w"
    using held_sync [OF k x] .
  then obtain ev where "s_data sy = Event_sync ev"
    by (auto simp: is_event_def split: sync_data.splits)
  note u = event_upholds [OF inv room s(4,2) this]
  show "upholds H w (set_event x w)" "upholds H w (reset_event x w)"
    using u s(1) by (simp_all add: set_event_def reset_event_def signal_sync_def reset_sync_def)
qed

lemma semaphore_held_upholds:
  assumes inv: "sync_inv None {#} H w" and room: "room {#} w" and x: "x \<in># H" and k: "has_kind is_sem w x"
    and s: "sync_of w x = Some s"
  shows "upholds H w (snd (snd (release_semaphore s n w)))"
proof -
  obtain sy where sy: "syncs w s = Some sy" "is_sem (s_data sy)" "anchored None H s w"
    using held_sync [OF k x] s by (metis option.inject)
  then obtain sem where "s_data sy = Semaphore_sync sem"
    by (auto simp: is_sem_def split: sync_data.splits)
  then show ?thesis
    using semaphore_upholds [OF inv room sy(3,1)] by blast
qed

lemma mutex_held_upholds:
  assumes inv: "sync_inv None {#} H w" and room: "room {#} w" and x: "x \<in># H" and k: "has_kind is_mutex w x"
    and s: "sync_of w x = Some s"
  shows "upholds H w (snd (do_release s t 1 w))"
proof -
  obtain sy where sy: "syncs w s = Some sy" "is_mutex (s_data sy)"
    using held_sync [OF k x] s by (metis option.inject)
  then obtain m where "s_data sy = Mutex_sync m"
    by (auto simp: is_mutex_def split: sync_data.splits)
  then show ?thesis
    using do_release_upholds [OF inv room sy(1)] by blast
qed

lemma has_kind_data:
  shows "has_kind is_event w x \<Longrightarrow>
      \<exists>s sy ev. sync_of w x = Some s \<and> syncs w s = Some sy \<and> s_data sy = Event_sync ev"
    and "has_kind is_mutex w x \<Longrightarrow>
      \<exists>s sy m. sync_of w x = Some s \<and> syncs w s = Some sy \<and> s_data sy = Mutex_sync m"
    and "has_kind is_sem w x \<Longrightarrow>
      \<exists>s sy sem. sync_of w x = Some s \<and> syncs w s = Some sy \<and> s_data sy = Semaphore_sync sem"
  unfolding has_kind_def is_kind by blast+

lemma upholds_release:
  assumes "upholds (add_mset x H) w w1"
  shows "upholds H w (release_obj x w1)"
  using upholds_trans [OF assms upholds_release_obj [OF upholdsD(1,2) [OF assms]]] .

subsection \<open>The requests on events, mutexes and semaphores\<close>

text \<open>The shape all the requests share: look the handle up, work on the object, release it.\<close>

lemma request_upholds:
  assumes inv: "sync_inv None {#} H w" and room: "room {#} w" and l: "refs_low 1 w"
    and g: "get_handle_object p h acc ops w = (r, w1)"
    and no: "r = None \<Longrightarrow> w2 = w1"
    and work: "\<And>x ob. r = Some x \<Longrightarrow> objs w1 x = Some ob \<Longrightarrow> (\<And>k. ops = Some k \<Longrightarrow> o_ops ob = k) \<Longrightarrow>
      sync_inv None {#} (add_mset x H) w1 \<Longrightarrow> room {#} w1 \<Longrightarrow>
      \<exists>w'. w2 = release_obj x w' \<and> upholds (add_mset x H) w1 w'"
  shows "upholds H w w2"
proof (cases rule: get_handle_object_ok [OF inv room l [unfolded One_nat_def] g])
  case 1
  with no show ?thesis
    by simp
next
  case (2 x ob)
  obtain w' where "w2 = release_obj x w'" "upholds (add_mset x H) w1 w'"
    using work [OF 2(1,4,5) upholdsD(1,2) [OF 2(2)]] by blast
  then show ?thesis
    using upholds_release [OF upholds_trans [OF 2(2)]] by simp
qed

lemma event_op_upholds:
  assumes inv: "sync_inv None {#} H w" and room: "room {#} w" and l: "refs_low 1 w"
  shows "upholds H w (snd (event_op t h op w))"
proof -
  obtain r w1 where g: "get_handle_object (process (thread_of w t)) h EVENT_MODIFY_STATE (Some Event_ops) w = (r, w1)"
    by fastforce
  show ?thesis
  proof (rule request_upholds [OF inv room l g])
    fix x ob
    let ?H = "add_mset x H"
    assume r: "r = Some x" and ob: "objs w1 x = Some ob" "\<And>k. Some Event_ops = Some k \<Longrightarrow> o_ops ob = k"
      and u: "sync_inv None {#} ?H w1" "room {#} w1"
    have x: "x \<in># ?H" and k: "has_kind is_event w1 x"
      using has_kind_ops(1) [OF u(1) ob(1)] ob(2) by simp_all
    note s = set_event_upholds [OF u x k]
    note us = upholdsD [OF s(1)]
    have "has_kind is_event (set_event x w1) x"
      by (rule has_kind_evolve [OF k us(3,1) x kind_shape(1)])
    note p = upholds_trans [OF s(1) set_event_upholds(2) [OF us(1,2) x this]]
    let ?w2 = "if op = 0 then reset_event x (set_event x w1) else if op = 1 then set_event x w1
      else if op = 2 then reset_event x w1 else set_err STATUS_INVALID_PARAMETER w1"
    have "snd (event_op t h op w) = release_obj x ?w2"
      using g r has_kind_data(1) [OF k] by (auto simp: event_op_def Let_def)
    moreover have "upholds ?H w1 ?w2"
      using p s upholds_set_err [OF u] by simp
    ultimately show "\<exists>w'. snd (event_op t h op w) = release_obj x w' \<and> upholds ?H w1 w'"
      by blast
  qed (use g in \<open>simp add: event_op_def\<close>)
qed

lemma release_mutex_upholds:
  assumes inv: "sync_inv None {#} H w" and room: "room {#} w" and l: "refs_low 1 w"
  shows "upholds H w (snd (release_mutex t h w))"
proof -
  obtain r w1 where g: "get_handle_object (process (thread_of w t)) h 0 (Some Mutex_ops) w = (r, w1)"
    by fastforce
  show ?thesis
  proof (rule request_upholds [OF inv room l g])
    fix x ob
    assume r: "r = Some x" and ob: "objs w1 x = Some ob" "\<And>k. Some Mutex_ops = Some k \<Longrightarrow> o_ops ob = k"
      and u: "sync_inv None {#} (add_mset x H) w1" "room {#} w1"
    have k: "has_kind is_mutex w1 x"
      using has_kind_ops(2) [OF u(1) ob(1)] ob(2) by simp
    obtain s sy m where d: "sync_of w1 x = Some s" "syncs w1 s = Some sy" "s_data sy = Mutex_sync m"
      using has_kind_data(2) [OF k] by blast
    have "snd (release_mutex t h w) = release_obj x (snd (do_release s t 1 w1))"
      using g r d by (simp add: release_mutex_def)
    with mutex_held_upholds [OF u _ k d(1)]
    show "\<exists>w'. snd (release_mutex t h w) = release_obj x w' \<and> upholds (add_mset x H) w1 w'"
      by fastforce
  qed (use g in \<open>simp add: release_mutex_def\<close>)
qed

lemma release_semaphore_request_upholds:
  assumes inv: "sync_inv None {#} H w" and room: "room {#} w" and l: "refs_low 1 w"
  shows "upholds H w (snd (release_semaphore_request t h n w))"
proof -
  obtain r w1 where
    g: "get_handle_object (process (thread_of w t)) h SEMAPHORE_MODIFY_STATE (Some Semaphore_ops) w = (r, w1)"
    by fastforce
  show ?thesis
  proof (rule request_upholds [OF inv room l g])
    fix x ob
    assume r: "r = Some x" and ob: "objs w1 x = Some ob" "\<And>k. Some Semaphore_ops = Some k \<Longrightarrow> o_ops ob = k"
      and u: "sync_inv None {#} (add_mset x H) w1" "room {#} w1"
    have k: "has_kind is_sem w1 x"
      using has_kind_ops(3) [OF u(1) ob(1)] ob(2) by simp
    obtain s where d: "sync_of w1 x = Some s"
      using has_kind_data(3) [OF k] by blast
    have "snd (release_semaphore_request t h n w) = release_obj x (snd (snd (release_semaphore s n w1)))"
      using g r d by (simp add: release_semaphore_request_def split: prod.split)
    with semaphore_held_upholds [OF u _ k d]
    show "\<exists>w'. snd (release_semaphore_request t h n w) = release_obj x w' \<and> upholds (add_mset x H) w1 w'"
      by fastforce
  qed (use g in \<open>simp add: release_semaphore_request_def\<close>)
qed

lemma query_event_upholds:
  assumes inv: "sync_inv None {#} H w" and room: "room {#} w" and l: "refs_low 1 w"
  shows "upholds H w (snd (query_event t h w))"
proof -
  obtain r w1 where g: "get_handle_object (process (thread_of w t)) h EVENT_QUERY_STATE (Some Event_ops) w = (r, w1)"
    by fastforce
  show ?thesis
  proof (rule request_upholds [OF inv room l g])
    fix x ob
    assume r: "r = Some x" and ob: "objs w1 x = Some ob" "\<And>k. Some Event_ops = Some k \<Longrightarrow> o_ops ob = k"
      and u: "sync_inv None {#} (add_mset x H) w1" "room {#} w1"
    then have "snd (query_event t h w) = release_obj x w1"
      using g has_kind_data(1) [OF has_kind_ops(1) [OF u(1) ob(1)]] by (auto simp: query_event_def)
    with upholds_refl [OF u] show "\<exists>w'. snd (query_event t h w) = release_obj x w' \<and> upholds (add_mset x H) w1 w'"
      by blast
  qed (use g in \<open>simp add: query_event_def\<close>)
qed

lemma query_mutex_upholds:
  assumes inv: "sync_inv None {#} H w" and room: "room {#} w" and l: "refs_low 1 w"
  shows "upholds H w (snd (query_mutex t h w))"
proof -
  obtain r w1 where g: "get_handle_object (process (thread_of w t)) h MUTANT_QUERY_STATE (Some Mutex_ops) w = (r, w1)"
    by fastforce
  show ?thesis
  proof (rule request_upholds [OF inv room l g])
    fix x ob
    assume r: "r = Some x" and ob: "objs w1 x = Some ob" "\<And>k. Some Mutex_ops = Some k \<Longrightarrow> o_ops ob = k"
      and u: "sync_inv None {#} (add_mset x H) w1" "room {#} w1"
    then have "snd (query_mutex t h w) = release_obj x w1"
      using g has_kind_data(2) [OF has_kind_ops(2) [OF u(1) ob(1)]] by (auto simp: query_mutex_def)
    with upholds_refl [OF u] show "\<exists>w'. snd (query_mutex t h w) = release_obj x w' \<and> upholds (add_mset x H) w1 w'"
      by blast
  qed (use g in \<open>simp add: query_mutex_def\<close>)
qed

lemma query_semaphore_upholds:
  assumes inv: "sync_inv None {#} H w" and room: "room {#} w" and l: "refs_low 1 w"
  shows "upholds H w (snd (query_semaphore t h w))"
proof -
  obtain r w1 where
    g: "get_handle_object (process (thread_of w t)) h SEMAPHORE_QUERY_STATE (Some Semaphore_ops) w = (r, w1)"
    by fastforce
  show ?thesis
  proof (rule request_upholds [OF inv room l g])
    fix x ob
    assume r: "r = Some x" and ob: "objs w1 x = Some ob" "\<And>k. Some Semaphore_ops = Some k \<Longrightarrow> o_ops ob = k"
      and u: "sync_inv None {#} (add_mset x H) w1" "room {#} w1"
    then have "snd (query_semaphore t h w) = release_obj x w1"
      using g has_kind_data(3) [OF has_kind_ops(3) [OF u(1) ob(1)]] by (auto simp: query_semaphore_def)
    with upholds_refl [OF u] show "\<exists>w'. snd (query_semaphore t h w) = release_obj x w' \<and> upholds (add_mset x H) w1 w'"
      by blast
  qed (use g in \<open>simp add: query_semaphore_def\<close>)
qed

lemma signal_object_upholds:
  assumes inv: "sync_inv None {#} H w" and room: "room {#} w" and l: "refs_low 1 w"
  shows "upholds H w (snd (signal_object t h w))"
proof -
  let ?p = "process (thread_of w t)"
  obtain r w1 where g: "get_handle_object ?p h 0 None w = (r, w1)"
    by fastforce
  show ?thesis
  proof (rule request_upholds [OF inv room l g])
    fix x ob
    let ?H = "add_mset x H" and ?a = "handle_access w1 ?p h"
    assume r: "r = Some x" and ob: "objs w1 x = Some ob" and u: "sync_inv None {#} ?H w1" "room {#} w1"
    have x: "x \<in># ?H"
      by simp
    note k = has_kind_ops [OF u(1) ob]
    let ?step = "case o_ops ob of Event_ops \<Rightarrow> event_signal x ?a w1 | Mutex_ops \<Rightarrow> mutex_signal t x ?a w1
      | Semaphore_ops \<Rightarrow> semaphore_signal x ?a w1 | Other_ops \<Rightarrow> (False, set_err STATUS_OBJECT_TYPE_MISMATCH w1)"
    have "snd (signal_object t h w) = release_obj x (snd ?step)"
      using g r ob by (simp add: signal_object_def Let_def split: prod.split object_ops.split)
    moreover have "upholds ?H w1 (snd ?step)"
    proof (cases "o_ops ob")
      case Event_ops
      with set_event_upholds(1) [OF u x k(1)] upholds_set_err [OF u] show ?thesis
        by (simp add: event_signal_def)
    next
      case Mutex_ops
      then obtain s where "sync_of w1 x = Some s"
        using has_kind_data(2) [OF k(2)] by blast
      with Mutex_ops mutex_held_upholds [OF u x k(2)] upholds_set_err [OF u] show ?thesis
        by (simp add: mutex_signal_def)
    next
      case Semaphore_ops
      then obtain s where "sync_of w1 x = Some s"
        using has_kind_data(3) [OF k(3)] by blast
      with Semaphore_ops semaphore_held_upholds [OF u x k(3)] upholds_set_err [OF u] show ?thesis
        by (simp add: semaphore_signal_def)
    next
      case Other_ops
      with upholds_set_err [OF u] show ?thesis
        by simp
    qed
    ultimately show "\<exists>w'. snd (signal_object t h w) = release_obj x w' \<and> upholds ?H w1 w'"
      by blast
  qed (use g in \<open>simp add: signal_object_def\<close>)
qed

end
