(* ===== verification/Sync_Select.thy ===== *)
theory Sync_Select
  imports Sync_Safe
begin

text \<open>
  Building a wait and \<open>select\<close>: entering the queues of the objects, the check that the wait is needed
  at all, and the failures on the way, all of which leave the engine consistent.
\<close>

subsection \<open>Entering a queue\<close>

lemma distinct_filter_mono: "distinct (filter P xs) \<Longrightarrow> (\<And>x. Q x \<Longrightarrow> P x) \<Longrightarrow> distinct (filter Q xs)"
  by (induction xs) (auto split: if_splits)

lemma wait_ok_subdued:
  assumes q: "subdued t w w'" and ok: "wait_ok w wt"
  shows "wait_ok w' wt"
proof -
  have "\<exists>ob. objs w y = Some ob \<and> o_sync ob' = o_sync ob \<and> o_ops ob' = o_ops ob" if "objs w' y = Some ob'" for y ob'
    using q that unfolding subdued_def by metis
  then have "is_semaphore w x" if "is_semaphore w' x" for x
    using that by (fastforce simp: is_semaphore_def)
  with ok show ?thesis
    using distinct_filter_mono [of "is_semaphore w" "w_objs wt" "is_semaphore w'"] by (auto simp: wait_ok_def)
qed

lemma grab_obj_upd_sync: "grab_obj x (upd_sync s f w) = upd_sync s f (grab_obj x w)"
  by (simp add: grab_obj_def upd_sync_def assert_that_def failed_def split: option.split)

lemma subdued_add_queue: "subdued t w (upd_sync s (add_queue e) w)"
  by (auto simp: subdued_def sig_alt capacity_of_def add_queue_def thread_of_def split: if_splits option.splits)

lemma entries_push_obj:
  assumes "waits (thread_of w t) = wt # rest"
  shows "entries (upd_thread t (push_obj x) w) = add_mset ((t, length rest, length (w_objs wt)), x) (entries w)"
proof -
  note t = waits_in_stacks [OF assms]
  have "entries (upd_thread t (push_obj x) w) + mset (wait_entries t (wt # rest)) =
      entries w + mset (wait_entries t (wt\<lparr>w_objs := w_objs wt @ [x]\<rparr> # rest))"
    using entries_in_update [OF t(2), of "wt\<lparr>w_objs := w_objs wt @ [x]\<rparr> # rest"] t(3) assms
    by (simp add: stacks_upd_thread push_obj_def)
  then show ?thesis
    by (simp add: numbered_append)
qed

lemma push_obj_fields [simp]:
  "t_obj (push_obj x th) = t_obj th" "terminated (push_obj x th) = terminated th"
  "mutex_list (push_obj x th) = mutex_list th"
  by (simp_all add: push_obj_def split: list.split)

lemma room_shift:
  assumes room: "room P w" and p: "image_mset snd (entries w') + P' = image_mset snd (entries w) + P"
    and so: "sync_of w' = sync_of w"
    and sy: "\<And>r sy'. syncs w' r = Some sy' \<Longrightarrow> \<exists>sy. syncs w r = Some sy \<and> s_data sy = s_data sy'"
  shows "room P' w'"
  unfolding room_def p so using sy room unfolding room_def by metis

lemma enter_one_ok:
  assumes inv: "sync_inv None {#} H w" and room: "room (add_mset x P) w" and t: "waits (thread_of w t) = wt # rest"
    and ok: "wait_ok w (wt\<lparr>w_objs := w_objs wt @ [x]\<rparr>)" and s: "sync_of w x = Some s" and l: "refs_low (Suc n) w"
  defines "e \<equiv> (t, length rest, length (w_objs wt))"
  defines "w2 \<equiv> upd_thread t (push_obj x) (grab_obj x (upd_sync s (add_queue e) w))"
  shows "object_sync_add_queue x e w = (True, upd_sync s (add_queue e) w)"
    and "sync_inv None {#} H w2" and "room P w2" and "subdued t w w2" and "refs_low n w2"
    and "waits (thread_of w2 t) = wt\<lparr>w_objs := w_objs wt @ [x]\<rparr> # rest"
proof -
  let ?g = "grab_obj x w" and ?q = "upd_sync s (add_queue e) (grab_obj x w)"
  obtain sy ob where sy: "live_sync w s sy" "syncs w s = Some sy" and ob: "objs w x = Some ob" "o_sync ob = Some s"
    using inv_sync [OF inv s] .
  show "object_sync_add_queue x e w = (True, upd_sync s (add_queue e) w)"
    by (rule object_sync_add_queue_live [OF s sy(1)])
  have "o_refs ob + Suc n \<le> INT_MAX"
    using l ob(1) unfolding refs_low_def by blast
  then have lt: "o_refs ob < INT_MAX"
    by simp
  have w2: "w2 = upd_thread t (push_obj x) ?q"
    by (simp add: w2_def grab_obj_upd_sync)
  have g: "?g = w\<lparr>objs := (objs w)(x \<mapsto> ob\<lparr>o_refs := Suc (o_refs ob)\<rparr>)\<rparr>"
    using ob lt by (simp add: grab_obj_def assert_that_def)
  have so: "sync_of ?g = sync_of w"
    using ob by (auto simp: g sync_of_def fun_eq_iff)
  have qg: "subdued t w ?q"
    using subdued_trans [OF shrinks_quiet [OF shrinks_grab_obj] subdued_add_queue] .
  have tq: "thread_of ?g = thread_of w" "thread_of ?q = thread_of w"
    by (simp_all add: thread_of_def fun_eq_iff)
  have i: "sync_inv None {#(e, x)#} H ?q"
    using inv_add_queue [OF inv_grab_obj [OF inv ob(1) lt]] s so by simp
  have en: "entries w2 = add_mset (e, x) (entries ?q)"
    unfolding w2 e_def by (rule entries_push_obj) (simp add: tq t)
  show "subdued t w w2"
    unfolding w2 by (rule subdued_trans [OF qg upd_thread_quiet])
  have wok: "\<forall>wt \<in> set (waits (push_obj x (thread_of ?q t))). wait_ok ?q wt"
    using wait_ok_subdued [OF qg] ok inv_wait_ok(2) [OF inv t] by (auto simp: tq push_obj_def t)
  show "sync_inv None {#} H w2"
    unfolding w2 by (rule inv_upd_waits [OF i]) (use en w2 wok in simp_all)
  have "image_mset snd (entries w2) + P = image_mset snd (entries w) + add_mset x P"
    unfolding en by simp
  moreover have "sync_of w2 = sync_of w"
    by (simp add: w2 so)
  moreover have "\<exists>sy. syncs w r = Some sy \<and> s_data sy = s_data sy'" if "syncs w2 r = Some sy'" for r sy'
    using that by (auto simp: w2 g add_queue_def split: if_splits)
  ultimately show "room P w2"
    by (rule room_shift [OF room])
  show "refs_low n w2"
    using grab_obj_upholds(2) [OF inv _ ob(1) l] l ob by (fastforce simp: refs_low_def w2 g)
  show "waits (thread_of w2 t) = wt\<lparr>w_objs := w_objs wt @ [x]\<rparr> # rest"
    using waits_in_stacks(1) [OF t] t by (simp add: w2 thread_of_upd_thread tq push_obj_def)
qed


lemma cancel_wait_ok:
  assumes inv: "sync_inv K {#} H w" and room: "room {#} w" and t: "waits (thread_of w t) = wt # rest"
    and st: "64 \<le> unat st"
  shows "sync_inv K {#} H (snd (end_wait t st w))" and "room {#} (snd (end_wait t st w))"
    and "subdued t w (snd (end_wait t st w))" and "waits (thread_of (snd (end_wait t st w)) t) = rest"
    and "errors (snd (end_wait t st w)) = errors w"
proof -
  have "to_take wt st = []"
    using inv_wait_ok(1) [OF inv t] st by (simp add: to_take_big wait_ok_def)
  then have a: "\<forall>x \<in> set (to_take wt st). avail w x t"
    by simp
  obtain st' w' where e: "end_wait t st w = (st', w')" "sync_inv K {#} H w'" "room {#} w'" "subdued t w w'"
      "errors w' = errors w"
    using end_wait_ok [OF inv room t a] by metis
  then show "sync_inv K {#} H (snd (end_wait t st w))" "room {#} (snd (end_wait t st w))"
    "subdued t w (snd (end_wait t st w))" "errors (snd (end_wait t st w)) = errors w"
    by simp_all
  show "waits (thread_of (snd (end_wait t st w)) t) = rest"
    using stacks_end_wait [OF e(1)] waits_in_stacks [OF t] t e(1) by (simp add: thread_of_waits)
qed

lemma refused_queue_ok:
  assumes inv: "sync_inv None {#} H w" and room: "room P w" and x: "x \<in># H" and s: "sync_of w x = None"
    and l: "refs_low (Suc n) w"
  obtains w1 where "object_sync_add_queue x e w = (False, w1)" and "sync_inv None {#} H w1" and "room P w1"
    and "get_err w1 = STATUS_OBJECT_TYPE_MISMATCH" and "\<And>t. subdued t w w1" and "threads w1 = threads w"
proof -
  obtain ob where ob: "objs w x = Some ob"
    using inv_held [OF inv x] .
  have "o_refs ob + Suc n \<le> INT_MAX"
    using l ob unfolding refs_low_def by blast
  then have lt: "o_refs ob < INT_MAX"
    by simp
  let ?g = "grab_obj x w"
  let ?e = "set_err STATUS_OBJECT_TYPE_MISMATCH ?g"
  let ?w1 = "release_obj x ?e"
  show ?thesis
  proof (rule that [of ?w1])
    show "object_sync_add_queue x e w = (False, ?w1)"
      by (simp add: object_sync_add_queue_def get_obj_sync_def s)
    have "sync_inv None {#} (add_mset x H) ?e"
      using inv_grab_obj [OF inv ob lt] by simp
    then show "sync_inv None {#} H ?w1"
      by (rule inv_release_obj)
    show "room P ?w1"
      using shrinks_room [OF shrinks_grab_obj room] by (intro shrinks_room [OF shrinks_release_obj]) simp
    show "get_err ?w1 = STATUS_OBJECT_TYPE_MISMATCH"
      by (simp add: get_err_def set_err_def)
    show "subdued t w ?w1" for t
      by (rule subdued_trans [OF subdued_trans [OF shrinks_quiet [OF shrinks_grab_obj] subdued_set_err]
            shrinks_quiet [OF shrinks_release_obj]])
    show "threads ?w1 = threads w"
      using shrinks_release_obj [of ?e x] by (simp add: shrinks_def)
  qed
qed

lemma enter_queues_ok:
  assumes "sync_inv None {#} H w" and "room (mset xs) w" and "waits (thread_of w t) = wt # rest"
    and "wait_ok w (wt\<lparr>w_objs := w_objs wt @ xs\<rparr>)" and "\<forall>x \<in> set xs. x \<in># H" and "refs_low (length xs + n) w"
  obtains b w' where "enter_queues t (length rest) (length (w_objs wt)) xs w = (b, w')"
    and "sync_inv None {#} H w'" and "room {#} w'" and "subdued t w w'" and "b \<Longrightarrow> refs_low n w'"
    and "waits (thread_of w' t) = (if b then wt\<lparr>w_objs := w_objs wt @ xs\<rparr> # rest else rest)"
  using assms
proof (induction xs arbitrary: w wt thesis)
  case Nil
  then show ?case
    by simp
next
  case (Cons x xs)
  let ?e = "(t, length rest, length (w_objs wt))"
  show ?case
  proof (cases "sync_of w x")
    case None
    obtain w1 where 1: "object_sync_add_queue x ?e w = (False, w1)" "sync_inv None {#} H w1" "room {#} w1"
        "get_err w1 = STATUS_OBJECT_TYPE_MISMATCH" "subdued t w w1" "threads w1 = threads w"
      using refused_queue_ok [OF Cons.prems(2) _ _ None] Cons.prems(3,6,7) room_mono [OF Cons.prems(3), of "{#}"]
      by (metis add_Suc empty_le length_Cons list.set_intros(1))
    have t: "waits (thread_of w1 t) = wt # rest"
      using Cons.prems(4) thread_of_cong [OF 1(6)] by simp
    have st: "64 \<le> unat (get_err w1)"
      by (simp add: 1(4))
    note c = cancel_wait_ok [OF 1(2,3) t st]
    show ?thesis
      by (rule Cons.prems(1) [of False "snd (end_wait t (get_err w1) w1)"])
        (use 1(1) c subdued_trans [OF 1(5) c(3)] in simp_all)
  next
    case (Some s)
    let ?wt = "wt\<lparr>w_objs := w_objs wt @ [x]\<rparr>"
    let ?w1 = "upd_sync s (add_queue ?e) w"
    let ?w2 = "upd_thread t (push_obj x) (grab_obj x ?w1)"
    have ok: "wait_ok w ?wt"
      using Cons.prems(5) by (auto simp: wait_ok_def)
    have r: "room (add_mset x (mset xs)) w" and l: "refs_low (Suc (length xs + n)) w"
      using Cons.prems(3,7) by simp_all
    note o = enter_one_ok [OF Cons.prems(2) r Cons.prems(4) ok Some l]
    have "wait_ok ?w2 (?wt\<lparr>w_objs := w_objs ?wt @ xs\<rparr>)"
      using wait_ok_subdued [OF o(4) Cons.prems(5)] by simp
    from Cons.IH [OF _ o(2,3,6) this _ o(5)] Cons.prems(6) obtain b w' where
      2: "enter_queues t (length rest) (length (w_objs ?wt)) xs ?w2 = (b, w')" "sync_inv None {#} H w'" "room {#} w'"
        "subdued t ?w2 w'" "b \<Longrightarrow> refs_low n w'"
        "waits (thread_of w' t) = (if b then ?wt\<lparr>w_objs := w_objs ?wt @ xs\<rparr> # rest else rest)"
      by auto
    show ?thesis
      by (rule Cons.prems(1) [of b w']) (use o(1) 2 subdued_trans [OF o(4) 2(4)] in simp_all)
  qed
qed


lemma set_env_ok:
  assumes "sync_inv K L H w"
  shows "sync_inv K L H (w\<lparr>errors := e\<rparr>)" and "room P (w\<lparr>errors := e\<rparr>) = room P w" and "subdued t w (w\<lparr>errors := e\<rparr>)"
    and "thread_of (w\<lparr>errors := e\<rparr>) = thread_of w"
proof -
  show "sync_inv K L H (w\<lparr>errors := e\<rparr>)"
    using assms by (subst inv_outer [of _ w]) simp_all
  show "room P (w\<lparr>errors := e\<rparr>) = room P w"
    by (rule room_outer) simp_all
  show "subdued t w (w\<lparr>errors := e\<rparr>)"
    by (rule subdued_outer) simp_all
  show "thread_of (w\<lparr>errors := e\<rparr>) = thread_of w"
    by (rule thread_of_cong) simp
qed

lemma push_wait_ok:
  fixes op fl timeout
  assumes inv: "sync_inv K {#} H w" and room: "room P w" and t: "t < length (threads w)"
  defines "w1 \<equiv> upd_thread t (\<lambda>th. th\<lparr>waits := new_wait op fl timeout # waits th\<rparr>) w"
  shows "sync_inv K {#} H w1" and "room P w1" and "subdued t w w1"
    and "waits (thread_of w1 t) = new_wait op fl timeout # waits (thread_of w t)"
proof -
  let ?wt = "new_wait op fl timeout" and ?rest = "waits (thread_of w t)"
  have "stacks w1 = (stacks w)[t := ?wt # ?rest]"
    by (simp add: w1_def stacks_upd_thread)
  moreover have "t < length (stacks w)" "stacks w ! t = ?rest"
    using t by (simp_all add: stacks_def thread_of_def)
  ultimately have en: "entries w1 = entries w"
    using entries_in_update [of t "stacks w" "?wt # ?rest"] by (simp add: new_wait_def)
  have "\<forall>wt \<in> set ?rest. wait_ok w wt"
  proof (cases ?rest)
    case (Cons a r)
    then show ?thesis
      using inv_wait_ok [OF inv Cons] by simp
  qed simp
  then show "sync_inv K {#} H w1"
    unfolding w1_def using en by (intro inv_upd_waits [OF inv]) (simp_all add: wait_ok_def new_wait_def w1_def)
  show "room P w1"
    by (rule room_shift [OF room]) (use en in \<open>simp_all add: w1_def sync_of_def fun_eq_iff\<close>)
  show "subdued t w w1"
    unfolding w1_def by (rule upd_thread_quiet)
  show "waits (thread_of w1 t) = ?wt # ?rest"
    using t by (simp add: w1_def thread_of_upd_thread)
qed

lemma wait_on_ok:
  assumes inv: "sync_inv None {#} H w" and room: "room (mset xs) w" and t: "t < length (threads w)"
    and n: "length xs \<le> 64" and all: "op = SELECT_WAIT_ALL \<Longrightarrow> distinct (filter (is_semaphore w) xs)"
    and held: "\<forall>x \<in> set xs. x \<in># H" and l: "refs_low (length xs + n) w"
  obtains b w' where "wait_on t op xs fl timeout w = (b, w')" and "sync_inv None {#} H w'" and "room {#} w'"
    and "subdued t w w'" and "b \<Longrightarrow> refs_low n w'"
    and "waits (thread_of w' t) = (if b then (new_wait op fl timeout)\<lparr>w_objs := xs\<rparr> # waits (thread_of w t)
      else waits (thread_of w t))"
proof -
  obtain ok e where e: "mem_alloc (errors w) = (ok, e)"
    by fastforce
  let ?w0 = "w\<lparr>errors := e\<rparr>" and ?wt = "new_wait op fl timeout" and ?rest = "waits (thread_of w t)"
  note 0 = set_env_ok [OF inv, where e = e]
  show ?thesis
  proof (cases ok)
    case False
    with e 0 room_mono [OF room, of "{#}"] show ?thesis
      by (intro that [of False ?w0]) (simp_all add: wait_on_def)
  next
    case True
    let ?w1 = "upd_thread t (\<lambda>th. th\<lparr>waits := ?wt # waits th\<rparr>) ?w0"
    have r0: "room (mset xs) ?w0" and t0: "t < length (threads ?w0)"
      using room t 0(2) by simp_all
    note 1 = push_wait_ok [OF 0(1) r0 t0, of op fl timeout]
    have q: "subdued t w ?w1"
      by (rule subdued_trans [OF 0(3) 1(3)])
    have th: "waits (thread_of ?w1 t) = ?wt # ?rest"
      using 1(4) 0(4) by simp
    have "wait_ok w (?wt\<lparr>w_objs := xs\<rparr>)"
      using n all by (simp add: wait_ok_def new_wait_def)
    then have "wait_ok ?w1 (?wt\<lparr>w_objs := w_objs ?wt @ xs\<rparr>)"
      using wait_ok_subdued [OF q] by (simp add: new_wait_def)
    moreover have "refs_low (length xs + n) ?w1"
      using l by (simp add: refs_low_def)
    ultimately obtain b w' where "enter_queues t (length ?rest) (length (w_objs ?wt)) xs ?w1 = (b, w')"
        "sync_inv None {#} H w'" "room {#} w'" "subdued t ?w1 w'" "b \<Longrightarrow> refs_low n w'"
        "waits (thread_of w' t) = (if b then ?wt\<lparr>w_objs := w_objs ?wt @ xs\<rparr> # ?rest else ?rest)"
      using enter_queues_ok [OF 1(1,2) th _ held] by blast
    with e True q 0(4) show ?thesis
      by (intro that [of b w']) (auto simp: wait_on_def Let_def new_wait_def intro: subdued_trans split: bool.split)
  qed
qed

subsection \<open>Waiting for handles\<close>

definition targets :: "engine \<Rightarrow> pid \<Rightarrow> obj_handle list \<Rightarrow> oid list" where
  "targets w p hs = List.map_filter (\<lambda>h. map_option fst (find_handle w p h)) hs"

lemma shrinks_set_err: "shrinks w (set_err st w)"
  by (simp add: shrinks_def set_err_def)

lemma shrinks_get_handle_object: "get_handle_object p h acc ops w = (r, w1) \<Longrightarrow> shrinks w w1"
  using shrinks_grab_obj shrinks_set_err by (auto simp: get_handle_object_def split: option.splits if_splits)

lemma get_handle_object_target:
  "get_handle_object p h acc ops w = (Some x, w1) \<Longrightarrow> \<exists>a. find_handle w p h = Some (x, a)"
  by (auto simp: get_handle_object_def split: option.splits if_splits)

lemma get_objects_ok:
  assumes "sync_inv None {#} (mset acc + H) w" and "room {#} w" and "refs_low (length hs + n) w"
  obtains found ys w1 where "get_objects p hs acc w = (found, acc @ ys, w1)"
    and "sync_inv None {#} (mset (acc @ ys) + H) w1" and "shrinks w w1" and "length ys \<le> length hs"
    and "found \<Longrightarrow> refs_low n w1" and "found \<Longrightarrow> ys = targets w p hs"
  using assms
proof (induction hs arbitrary: acc w thesis)
  case Nil
  then show ?case
    by (simp add: targets_def)
next
  case (Cons h hs)
  obtain r w1 where g: "get_handle_object p h SYNCHRONIZE None w = (r, w1)"
    by fastforce
  note sh = shrinks_get_handle_object [OF g]
  have l: "refs_low (Suc (length hs + n)) w"
    using Cons.prems(4) by simp
  show ?case
  proof (cases rule: get_handle_object_ok [OF Cons.prems(2,3) l g])
    case 1
    with g sh upholdsD(1) [OF 1(2)] show ?thesis
      by (intro Cons.prems(1) [of False "[]" w1]) simp_all
  next
    case (2 x ob)
    obtain a where a: "find_handle w p h = Some (x, a)"
      using get_handle_object_target [of p h SYNCHRONIZE None w x w1] g 2(1) by auto
    have "sync_inv None {#} (mset (acc @ [x]) + H) w1"
      using upholdsD(1) [OF 2(2)] by simp
    from Cons.IH [OF _ this upholdsD(2) [OF 2(2)] 2(3)] obtain found ys w2 where
      3: "get_objects p hs (acc @ [x]) w1 = (found, (acc @ [x]) @ ys, w2)"
        "sync_inv None {#} (mset ((acc @ [x]) @ ys) + H) w2" "shrinks w1 w2" "length ys \<le> length hs"
        "found \<Longrightarrow> refs_low n w2" "found \<Longrightarrow> ys = targets w1 p hs"
      by blast
    have "find_handle w1 = find_handle w"
      using sh by (simp add: shrinks_def find_handle_def fun_eq_iff)
    then have "targets w p (h # hs) = x # targets w1 p hs"
      by (simp add: targets_def map_filter_simps a)
    with 3 g 2(1) shrinks_trans [OF sh 3(3)] show ?thesis
      by (intro Cons.prems(1) [of found "x # ys" w2]) simp_all
  qed
qed

lemma release_all_ok:
  assumes "sync_inv None {#} (mset xs + H) w"
  shows "sync_inv None {#} H (fold release_obj xs w)" and "shrinks w (fold release_obj xs w)"
proof -
  have "sync_inv None {#} H (fold release_obj xs w) \<and> shrinks w (fold release_obj xs w)"
    using assms
  proof (induction xs arbitrary: w)
    case (Cons x xs)
    have "sync_inv None {#} (mset xs + H) (release_obj x w)"
      by (rule inv_release_obj) (use Cons.prems in simp)
    with Cons.IH [of "release_obj x w"] show ?case
      using shrinks_trans [OF shrinks_release_obj] by auto
  qed simp
  then show "sync_inv None {#} H (fold release_obj xs w)" "shrinks w (fold release_obj xs w)"
    by simp_all
qed


lemma refs_low_release_obj: "refs_low n w \<Longrightarrow> refs_low n (release_obj x w)"
  by (fastforce simp: refs_low_def release_obj_def obj_destroy_def release_sync_def sync_destroy_def assert_that_def
      failed_def upd_sync_def Let_def split: option.splits if_splits sync_data.splits)

lemma refs_low_release_all: "refs_low n w \<Longrightarrow> refs_low n (fold release_obj xs w)"
  by (induction xs arbitrary: w) (simp_all add: refs_low_release_obj)

lemma refs_low_mono: "refs_low m w \<Longrightarrow> n \<le> m \<Longrightarrow> refs_low n w"
  unfolding refs_low_def by (meson add_left_mono order_trans)

lemma wait_on_handles_ok:
  assumes inv: "sync_inv None {#} H w" and room: "room (mset (targets w (process (thread_of w t)) hs)) w"
    and t: "t < length (threads w)" and n: "length hs \<le> 64" and l: "refs_low (length hs + (length hs + n)) w"
    and all: "op = SELECT_WAIT_ALL \<Longrightarrow> distinct (filter (is_semaphore w) (targets w (process (thread_of w t)) hs))"
  obtains b w' where "wait_on_handles t op hs fl timeout w = (b, w')" and "sync_inv None {#} H w'" and "room {#} w'"
    and "subdued t w w'" and "b \<Longrightarrow> refs_low n w'"
    and "waits (thread_of w' t) =
      (if b then (new_wait op fl timeout)\<lparr>w_objs := targets w (process (thread_of w t)) hs\<rparr> # waits (thread_of w t)
       else waits (thread_of w t))"
proof -
  let ?p = "process (thread_of w t)"
  let ?ts = "targets w ?p hs"
  have i0: "sync_inv None {#} (mset [] + H) w" and r0: "room {#} w"
    using inv room_mono [OF room] by simp_all
  obtain found xs w1 where g: "get_objects ?p hs [] w = (found, [] @ xs, w1)"
      and i: "sync_inv None {#} (mset ([] @ xs) + H) w1" and sh: "shrinks w w1" and le: "length xs \<le> length hs"
      and l1: "found \<Longrightarrow> refs_low (length hs + n) w1" and xs: "found \<Longrightarrow> xs = ?ts"
    using get_objects_ok [OF i0 r0 l, of ?p] by metis
  have i1: "sync_inv None {#} (mset xs + H) w1"
    using i by simp
  note q1 = shrinks_quiet [OF sh, of t]
  have th: "thread_of w1 = thread_of w" "threads w1 = threads w"
    using sh by (simp_all add: shrinks_def thread_of_def fun_eq_iff)
  have "\<exists>b w2. (if found then wait_on t op xs fl timeout w1 else (False, w1)) = (b, w2) \<and>
      sync_inv None {#} (mset xs + H) w2 \<and> room {#} w2 \<and> subdued t w w2 \<and> (b \<longrightarrow> refs_low n w2) \<and>
      waits (thread_of w2 t) = (if b then (new_wait op fl timeout)\<lparr>w_objs := ?ts\<rparr> # waits (thread_of w t)
        else waits (thread_of w t))"
  proof (cases found)
    case False
    with i1 q1 shrinks_room [OF sh r0] th show ?thesis
      by auto
  next
    case True
    have r: "room (mset xs) w1"
      using shrinks_room [OF sh room] xs [OF True] by simp
    have "is_semaphore w x" if "is_semaphore w1 x" for x
      using sh that unfolding is_semaphore_def shrinks_def by fastforce
    then have d: "distinct (filter (is_semaphore w1) xs)" if "op = SELECT_WAIT_ALL"
      using all [OF that] xs [OF True] distinct_filter_mono by blast
    have t1: "t < length (threads w1)" and n1: "length xs \<le> 64" and h1: "\<forall>x \<in> set xs. x \<in># mset xs + H"
      using t th n le by simp_all
    have ll: "refs_low (length xs + n) w1"
      using refs_low_mono [OF l1 [OF True]] le by simp
    obtain b w2 where "wait_on t op xs fl timeout w1 = (b, w2)" "sync_inv None {#} (mset xs + H) w2" "room {#} w2"
        "subdued t w1 w2" "b \<Longrightarrow> refs_low n w2" "waits (thread_of w2 t) =
          (if b then (new_wait op fl timeout)\<lparr>w_objs := xs\<rparr> # waits (thread_of w1 t) else waits (thread_of w1 t))"
      by (rule wait_on_ok [OF i1 r t1 n1 d h1 ll, of op fl timeout]) auto
    with True xs th subdued_trans [OF q1] show ?thesis
      by simp
  qed
  then obtain b w2 where 2: "(if found then wait_on t op xs fl timeout w1 else (False, w1)) = (b, w2)"
      "sync_inv None {#} (mset (rev xs) + H) w2" "room {#} w2" "subdued t w w2" "b \<longrightarrow> refs_low n w2"
      "waits (thread_of w2 t) = (if b then (new_wait op fl timeout)\<lparr>w_objs := ?ts\<rparr> # waits (thread_of w t)
        else waits (thread_of w t))"
    by auto
  note f = release_all_ok [OF 2(2)]
  have "thread_of (fold release_obj (rev xs) w2) = thread_of w2"
    using f(2) by (simp add: shrinks_def thread_of_def fun_eq_iff)
  then show ?thesis
    using g 2 n f shrinks_room [OF f(2) 2(3)] subdued_trans [OF 2(4) shrinks_quiet [OF f(2)]] refs_low_release_all
    by (intro that [of b "fold release_obj (rev xs) w2"]) (simp_all add: wait_on_handles_def assert_that_def)
qed


subsection \<open>The end of select\<close>

lemma arm_wait_ok:
  assumes inv: "sync_inv K {#} H w" and room: "room {#} w" and t: "waits (thread_of w t) = wt # rest"
    and r: "wait_result w t = None" and ck: "ck \<noteq> 0"
  defines "w1 \<equiv> upd_thread t (arm_wait ck) w"
  shows "sync_inv K {#} H w1" and "room {#} w1" and "subdued t w w1" and "wait_result w1 t = None"
    and "waits (thread_of w1 t) = wt\<lparr>w_cookie := ck, w_user := w_when wt \<noteq> TIMEOUT_INFINITE\<rparr> # rest"
proof -
  let ?wt = "wt\<lparr>w_cookie := ck, w_user := w_when wt \<noteq> TIMEOUT_INFINITE\<rparr>"
  note ts = waits_in_stacks [OF t]
  have st: "stacks w1 = (stacks w)[t := ?wt # rest]"
    by (simp add: w1_def stacks_upd_thread arm_wait_def t)
  have en: "entries w1 = entries w"
    unfolding st by (rule entries_same_objs) (simp add: ts)
  show "sync_inv K {#} H w1"
    unfolding w1_def
  proof (rule inv_upd_waits [OF inv])
    show "\<forall>wt \<in> set (waits (arm_wait ck (thread_of w t))). wait_ok w wt"
      using inv_wait_ok [OF inv t] ck by (simp add: arm_wait_def t wait_ok_def)
    show "entries (upd_thread t (arm_wait ck) w) + {#} = entries w + {#}"
      using en by (simp add: w1_def)
  qed (simp_all add: arm_wait_def split: list.split)
  show "room {#} w1"
    by (rule room_shift [OF room]) (use en in \<open>simp_all add: w1_def sync_of_def fun_eq_iff\<close>)
  show "subdued t w w1"
    unfolding w1_def by (rule upd_thread_quiet)
  have th: "thread_of w1 t = (thread_of w t)\<lparr>waits := ?wt # rest\<rparr>"
    using ts(1) by (simp add: w1_def thread_of_upd_thread arm_wait_def t)
  then show "waits (thread_of w1 t) = ?wt # rest"
    by simp
  have sg: "sig w1 = sig w"
    by (simp add: w1_def)
  let ?th = "thread_of w t"
  have "interrupted (?th\<lparr>waits := ?wt # rest\<rparr>) ?wt = interrupted ?th wt"
    "cooperates (?th\<lparr>waits := ?wt # rest\<rparr>) ?wt = cooperates ?th wt"
    "is_thread_suspended w1 (?th\<lparr>waits := ?wt # rest\<rparr>) = is_thread_suspended w ?th"
    "objects_result w1 ?wt t = objects_result w wt t"
    "check_alerts ?wt (?th\<lparr>waits := ?wt # rest\<rparr>) w1 = check_alerts wt ?th w"
    using first_sig_cong [of "w_objs wt" w1 t w]
    by (simp_all add: interrupted_def cooperates_def is_thread_suspended_def objects_result_def check_alerts_def
        wait_expired_def sg, simp_all add: w1_def)
  then have "wait_result w1 t = wait_result w t"
    by (simp add: wait_result_def Let_def th t split: option.split)
  with r show "wait_result w1 t = None"
    by simp
qed

lemma end_now_ok:
  assumes inv: "sync_inv K {#} H w" and room: "room {#} w" and t: "waits (thread_of w t) = wt # rest"
    and r: "wait_result w t = Some st"
  obtains st' w' where "end_wait t st (check_effect w t) = (st', w')" and "sync_inv K {#} H w'" and "room {#} w'"
    and "subdued t w w'" and "waits (thread_of w' t) = rest"
proof -
  let ?c = "check_effect w t"
  note e = check_effect_ok [OF inv room, of t]
  have a: "\<forall>x \<in> set (to_take wt st). avail ?c x t"
    using wait_result_sig [OF inv t r] sig_avail e(4,5) by (simp add: avail_def sync_of_def sig_def)
  have tc: "waits (thread_of ?c t) = wt # rest"
    using e(6) t by simp
  obtain st' w' where 1: "end_wait t st ?c = (st', w')" "sync_inv K {#} H w'" "room {#} w'" "subdued t ?c w'"
    by (rule end_wait_ok [OF e(1,2) tc a])
  have "waits (thread_of w' t) = rest"
    using stacks_end_wait [OF 1(1)] waits_in_stacks [OF tc] tc by (simp add: thread_of_waits)
  with 1 subdued_trans [OF e(3) 1(4)] that show ?thesis
    by blast
qed

lemma thread_of_set_err [simp]: "thread_of (set_err st w) = thread_of w"
  by (rule thread_of_cong) simp

lemma get_err_set_err [simp]: "get_err (set_err st w) = st"
  by (simp add: get_err_def set_err_def)

lemma wait_result_outer:
  assumes "threads w' = threads w" "objs w' = objs w" "syncs w' = syncs w" "current_time w' = current_time w"
    "monotonic_time w' = monotonic_time w" "proc_suspend w' = proc_suspend w"
  shows "wait_result w' t = wait_result w t"
proof -
  have "sig w' = sig w"
    using assms by (simp add: sig_def [abs_def] sync_of_def)
  with thread_of_cong [OF assms(1)] assms show ?thesis
    by (intro wait_result_cong [where l = "mutex_list (thread_of w t)"]) simp_all
qed

lemma finish_select_ok:
  assumes inv: "sync_inv None {#} H w" and room: "room {#} w" and t: "waits (thread_of w t) = wt # rest" and ck: "ck \<noteq> 0"
  obtains b w' where "finish_select t ck w = (b, w')" and "sync_inv None {#} H w'" and "room {#} w'" and "subdued t w w'"
    and "b \<Longrightarrow> waits (thread_of w' t) = rest" and "\<not> b \<Longrightarrow> wait_result w' t = None"
    and "\<not> b \<Longrightarrow> waits (thread_of w' t) = wt\<lparr>w_cookie := ck, w_user := w_when wt \<noteq> TIMEOUT_INFINITE\<rparr> # rest"
    and "\<not> b \<Longrightarrow> get_err w' = STATUS_PENDING" and "\<not> b \<longleftrightarrow> wait_result w t = None \<and> fst (mem_alloc (errors w)) \<or>
      wait_result w t = None \<and> w_when wt = TIMEOUT_INFINITE"
proof -
  note c = check_wait_inv [OF inv t]
  show ?thesis
  proof (cases "wait_result w t")
    case (Some st)
    obtain st' w' where "end_wait t st (check_effect w t) = (st', w')" "sync_inv None {#} H w'" "room {#} w'"
        "subdued t w w'" "waits (thread_of w' t) = rest"
      by (rule end_now_ok [OF inv room t Some])
    with c Some subdued_trans [OF _ subdued_set_err] show ?thesis
      by (intro that [of True "set_err st' w'"]) (simp_all add: finish_select_def)
  next
    case None
    then have c': "check_wait t w = (None, w)"
      using c check_effect_ok(7) [OF inv room None] by simp
    obtain ok e where e: "mem_alloc (errors w) = (ok, e)"
      by fastforce
    let ?w0 = "if w_when wt \<noteq> TIMEOUT_INFINITE then w\<lparr>errors := e\<rparr> else w"
    note s = set_env_ok [OF inv, where e = e]
    have 0: "sync_inv None {#} H ?w0" "room {#} ?w0" "subdued t w ?w0" "thread_of ?w0 = thread_of w"
      using inv room s by simp_all
    then have t0: "waits (thread_of ?w0 t) = wt # rest"
      using t by simp
    show ?thesis
    proof (cases "w_when wt \<noteq> TIMEOUT_INFINITE \<and> \<not> ok")
      case True
      then have st: "64 \<le> unat (cur_error e)"
        using mem_alloc_fail [of "errors w" e] e by simp
      note x = cancel_wait_ok [OF 0(1,2) t0 st]
      show ?thesis
        by (rule that [of True "snd (end_wait t (cur_error e) ?w0)"])
          (use True c' t e x None subdued_trans [OF 0(3) x(3)] in \<open>simp_all add: finish_select_def\<close>)
    next
      case False
      have r0: "wait_result ?w0 t = None"
        using None by (subst wait_result_outer [of _ w]) simp_all
      note x = arm_wait_ok [OF 0(1,2) t0 r0 ck]
      let ?w1 = "set_err STATUS_PENDING (upd_thread t (arm_wait ck) ?w0)"
      have "wait_result ?w1 t = None"
        using x(4) by (subst wait_result_outer [of _ "upd_thread t (arm_wait ck) ?w0"]) (simp_all add: set_err_def)
      with False c' t e x None subdued_trans [OF 0(3) subdued_trans [OF x(3) subdued_set_err]] show ?thesis
        by (intro that [of False ?w1]) (auto simp: finish_select_def split: if_splits)
    qed
  qed
qed


subsection \<open>Select\<close>

lemma settled_subdued: "settled w \<Longrightarrow> subdued t w w' \<Longrightarrow> wait_result w' t = None \<Longrightarrow> settled w'"
  using wait_result_mono [of w' _ w] unfolding settled_def subdued_def by metis

lemma do_release_False: "do_release s t n w = (False, w') \<Longrightarrow> \<not> fault w' \<Longrightarrow> w' = set_err STATUS_MUTANT_NOT_OWNED w"
  by (auto simp: do_release_def Let_def failed_def split: option.splits sync_data.splits if_splits)

lemma release_semaphore_False:
  "release_semaphore s n w = (prev, False, w') \<Longrightarrow> \<not> fault w' \<Longrightarrow> w' = set_err STATUS_SEMAPHORE_LIMIT_EXCEEDED w"
  by (auto simp: release_semaphore_def Let_def failed_def split: option.splits sync_data.splits if_splits)

lemma signals_False:
  assumes f: "\<not> fault w'"
  shows "event_signal x a w = (False, w') \<Longrightarrow> w' = set_err STATUS_ACCESS_DENIED w"
    and "mutex_signal t x a w = (False, w') \<Longrightarrow>
      w' = set_err STATUS_ACCESS_DENIED w \<or> w' = set_err STATUS_MUTANT_NOT_OWNED w"
    and "semaphore_signal x a w = (False, w') \<Longrightarrow>
      w' = set_err STATUS_ACCESS_DENIED w \<or> w' = set_err STATUS_SEMAPHORE_LIMIT_EXCEEDED w"
proof -
  show "event_signal x a w = (False, w') \<Longrightarrow> w' = set_err STATUS_ACCESS_DENIED w"
    by (auto simp: event_signal_def split: if_splits)
  show "mutex_signal t x a w = (False, w') \<Longrightarrow>
      w' = set_err STATUS_ACCESS_DENIED w \<or> w' = set_err STATUS_MUTANT_NOT_OWNED w"
    using do_release_False [OF _ f] f by (auto simp: mutex_signal_def failed_def split: if_splits option.splits)
  assume s: "semaphore_signal x a w = (False, w')"
  obtain p b v where "release_semaphore (the (sync_of w x)) 1 w = (p, b, v)"
    by (metis prod_cases3)
  with s show "w' = set_err STATUS_ACCESS_DENIED w \<or> w' = set_err STATUS_SEMAPHORE_LIMIT_EXCEEDED w"
    using release_semaphore_False [OF _ f] f by (auto simp: semaphore_signal_def failed_def split: if_splits option.splits)
qed

lemma fault_release_obj: "fault w \<Longrightarrow> fault (release_obj x w)"
  by (auto simp: release_obj_def obj_destroy_def release_sync_def sync_destroy_def assert_that_def failed_def
      upd_sync_def Let_def split: option.split sync_data.split)

lemma signal_object_False:
  assumes s: "signal_object t h w = (False, w')" and f: "\<not> fault w'"
  shows "threads w' = threads w" and "64 \<le> unat (get_err w')"
proof -
  let ?p = "process (thread_of w t)"
  obtain r w1 where g: "get_handle_object ?p h 0 None w = (r, w1)"
    by fastforce
  have th: "threads w1 = threads w"
    using shrinks_get_handle_object [OF g] by (simp add: shrinks_def)
  have "threads w' = threads w \<and> 64 \<le> unat (get_err w')"
  proof (cases r)
    case None
    then obtain st where "w1 = set_err st w" "st \<in> {STATUS_INVALID_HANDLE, STATUS_ACCESS_DENIED}"
      using g by (auto simp: get_handle_object_def split: option.splits if_splits)
    with None g s show ?thesis
      by (auto simp: signal_object_def)
  next
    case (Some x)
    then obtain w2 where w2: "w' = release_obj x w2"
        "(case map_option o_ops (objs w1 x) of
           Some Event_ops \<Rightarrow> event_signal x (handle_access w1 ?p h) w1
         | Some Mutex_ops \<Rightarrow> mutex_signal t x (handle_access w1 ?p h) w1
         | Some Semaphore_ops \<Rightarrow> semaphore_signal x (handle_access w1 ?p h) w1
         | _ \<Rightarrow> (False, set_err STATUS_OBJECT_TYPE_MISMATCH w1)) = (False, w2)"
      using s g by (auto simp: signal_object_def Let_def split: prod.splits)
    have f2: "\<not> fault w2"
      using f fault_release_obj w2(1) by blast
    let ?a = "handle_access w1 ?p h"
    let ?S = "{STATUS_ACCESS_DENIED, STATUS_MUTANT_NOT_OWNED, STATUS_SEMAPHORE_LIMIT_EXCEEDED, STATUS_OBJECT_TYPE_MISMATCH}"
    have "event_signal x ?a w1 = (False, w2) \<or> mutex_signal t x ?a w1 = (False, w2) \<or>
        semaphore_signal x ?a w1 = (False, w2) \<or> w2 = set_err STATUS_OBJECT_TYPE_MISMATCH w1"
      using w2(2) by (simp split: option.splits object_ops.splits)
    then obtain st where "w2 = set_err st w1" "st \<in> ?S"
      using signals_False [OF f2] by blast
    then show ?thesis
      using shrinks_release_obj [of w2 x] th by (auto simp: w2(1) shrinks_def get_err_def set_err_def)
  qed
  then show "threads w' = threads w" "64 \<le> unat (get_err w')"
    by simp_all
qed

definition wait_handles :: "32 word list \<Rightarrow> obj_handle list" where
  "wait_handles data =
     (if op_word data 0 = 1 \<or> op_word data 0 = 2 then tl data
      else if op_word data 0 = 3 then [op_word data 1] else [])"

text \<open>
  What is asked of the caller of \<open>select\<close>: a cookie, no semaphore twice in a wait for all objects, and
  that the recursion counts of the mutexes involved cannot reach the width of the field.
\<close>

definition select_ok :: "tid \<Rightarrow> 32 word list \<Rightarrow> cookie \<Rightarrow> engine \<Rightarrow> bool" where
  "select_ok t data ck w \<longleftrightarrow>
     t < length (threads w) \<and> ck \<noteq> 0 \<and>
     (let xs = targets w (process (thread_of w t)) (wait_handles data)
      in room (mset xs) w \<and> (op_word data 0 = 2 \<longrightarrow> distinct (filter (is_semaphore w) xs)))"

lemma finish_select_sound:
  assumes inv: "sync_inv None {#} H w" and room: "room {#} w" and t: "waits (thread_of w t) = wt # rest" and ck: "ck \<noteq> 0"
  shows "sync_inv None {#} H (snd (finish_select t ck w))" and "room {#} (snd (finish_select t ck w))"
    and "evolve w (snd (finish_select t ck w))"
    and "rest = [] \<Longrightarrow> subdued t w0 w \<Longrightarrow> settled w0 \<Longrightarrow> settled (snd (finish_select t ck w))"
proof -
  obtain b w' where f: "finish_select t ck w = (b, w')" "sync_inv None {#} H w'" "room {#} w'" "subdued t w w'"
      "b \<Longrightarrow> waits (thread_of w' t) = rest" "\<not> b \<Longrightarrow> wait_result w' t = None"
    by (rule finish_select_ok [OF inv room t ck], rule that)
  then show "sync_inv None {#} H (snd (finish_select t ck w))" "room {#} (snd (finish_select t ck w))"
    "evolve w (snd (finish_select t ck w))"
    by (simp_all add: subdued_evolve)
  assume "rest = []" "subdued t w0 w" "settled w0"
  with f settled_subdued [OF _ subdued_trans [OF _ f(4)]] show "settled (snd (finish_select t ck w))"
    by (cases b) (auto simp: wait_result_def)
qed


text \<open>A wait without a signal, and a signal with a wait.\<close>

lemma wait_and_finish_ok:
  assumes inv: "sync_inv None {#} H w" and ok: "select_ok t data ck w" and l: "refs_low 129 w"
    and hs: "wait_handles data = hs" "length hs \<le> 64" and all: "op = SELECT_WAIT_ALL \<Longrightarrow> op_word data 0 = 2"
  obtains b w1 where "wait_on_handles t op hs fl timeout w = (b, w1)" and "sync_inv None {#} H w1" and "room {#} w1"
    and "subdued t w w1" and "b \<Longrightarrow> refs_low 1 w1"
    and "\<not> b \<Longrightarrow> waits (thread_of w1 t) = waits (thread_of w t)"
    and "b \<Longrightarrow> \<exists>wt. waits (thread_of w1 t) = wt # waits (thread_of w t)"
proof -
  let ?xs = "targets w (process (thread_of w t)) hs"
  have r: "room (mset ?xs) w" and t: "t < length (threads w)"
    and d: "op = SELECT_WAIT_ALL \<Longrightarrow> distinct (filter (is_semaphore w) ?xs)"
    using ok all hs(1) by (auto simp: select_ok_def Let_def)
  have ll: "refs_low (length hs + (length hs + 1)) w"
    using refs_low_mono [OF l] hs(2) by simp
  obtain b w1 where "wait_on_handles t op hs fl timeout w = (b, w1)" "sync_inv None {#} H w1" "room {#} w1"
      "subdued t w w1" "b \<Longrightarrow> refs_low 1 w1"
      "waits (thread_of w1 t) = (if b then (new_wait op fl timeout)\<lparr>w_objs := ?xs\<rparr> # waits (thread_of w t)
        else waits (thread_of w t))"
    by (rule wait_on_handles_ok [OF inv r t hs(2) ll d, of op fl timeout]) auto
  then show ?thesis
    by (intro that [of b w1]) simp_all
qed

lemma wait_finish_sound:
  fixes fl timeout
  assumes inv: "sync_inv None {#} H w" and ok: "select_ok t data ck w" and l: "refs_low 129 w"
    and hs: "wait_handles data = hs" "length hs \<le> 64" and all: "op = SELECT_WAIT_ALL \<Longrightarrow> op_word data 0 = 2"
  defines "w' \<equiv> (case wait_on_handles t op hs fl timeout w of (False, w1) \<Rightarrow> w1 | (True, w1) \<Rightarrow> snd (finish_select t ck w1))"
  shows "sync_inv None {#} H w'" and "room {#} w'" and "evolve w w'"
    and "settled w \<Longrightarrow> waits (thread_of w t) = [] \<Longrightarrow> settled w'"
proof -
  have ck: "ck \<noteq> 0"
    using ok by (simp add: select_ok_def)
  obtain b w1 where 1: "wait_on_handles t op hs fl timeout w = (b, w1)" "sync_inv None {#} H w1" "room {#} w1"
      "subdued t w w1" "\<not> b \<Longrightarrow> waits (thread_of w1 t) = waits (thread_of w t)"
      "b \<Longrightarrow> \<exists>wt. waits (thread_of w1 t) = wt # waits (thread_of w t)"
    by (rule wait_and_finish_ok [OF inv ok l hs, where op = op and fl = fl and timeout = timeout], erule all, rule that)
  have "sync_inv None {#} H w' \<and> room {#} w' \<and> evolve w w' \<and>
      (settled w \<longrightarrow> waits (thread_of w t) = [] \<longrightarrow> settled w')"
  proof (cases b)
    case False
    with 1 settled_subdued [OF _ 1(4)] show ?thesis
      by (simp add: w'_def subdued_evolve wait_result_def)
  next
    case True
    then obtain wt where t: "waits (thread_of w1 t) = wt # waits (thread_of w t)"
      using 1(6) by blast
    note f = finish_select_sound [OF 1(2,3) t ck]
    show ?thesis
      using True 1 f evolve_trans [OF subdued_evolve [OF 1(4)] f(3)] f(4) [OF _ 1(4)] by (simp add: w'_def)
  qed
  then show "sync_inv None {#} H w'" "room {#} w'" "evolve w w'"
    "settled w \<Longrightarrow> waits (thread_of w t) = [] \<Longrightarrow> settled w'"
    by simp_all
qed

lemma signal_wait_sound:
  fixes fl timeout h
  assumes inv: "sync_inv None {#} H w" and ok: "select_ok t data ck w" and l: "refs_low 129 w"
    and hs: "wait_handles data = hs" "length hs \<le> 64"
  defines "w' \<equiv>
    (case wait_on_handles t SELECT_SIGNAL_AND_WAIT hs fl timeout w of
       (False, w1) \<Rightarrow> w1
     | (True, w1) \<Rightarrow>
         (case signal_object t h w1 of
            (False, w2) \<Rightarrow> snd (end_wait t (get_err w2) w2)
          | (True, w2) \<Rightarrow> if waits (thread_of w2 t) = [] then w2 else snd (finish_select t ck w2)))"
  shows "sync_inv None {#} H w'" and "room {#} w'" and "evolve w w'"
proof -
  have ck: "ck \<noteq> 0"
    using ok by (simp add: select_ok_def)
  obtain b w1 where 1: "wait_on_handles t SELECT_SIGNAL_AND_WAIT hs fl timeout w = (b, w1)" "sync_inv None {#} H w1"
      "room {#} w1" "subdued t w w1" "b \<Longrightarrow> refs_low 1 w1"
      "b \<Longrightarrow> \<exists>wt. waits (thread_of w1 t) = wt # waits (thread_of w t)"
    by (rule wait_and_finish_ok [OF inv ok l hs, where op = SELECT_SIGNAL_AND_WAIT and fl = fl and timeout = timeout],
        simp, rule that)
  have "sync_inv None {#} H w' \<and> room {#} w' \<and> evolve w w'"
  proof (cases b)
    case False
    with 1 show ?thesis
      by (simp add: w'_def subdued_evolve)
  next
    case True
    obtain c w2 where s: "signal_object t h w1 = (c, w2)"
      by fastforce
    note u = upholdsD [OF signal_object_upholds [OF 1(2,3) 1(5) [OF True], of t h], unfolded s snd_conv]
    have e2: "evolve w w2"
      by (rule evolve_trans [OF subdued_evolve [OF 1(4)] u(3)])
    show ?thesis
    proof (cases c)
      case False
      have sf: "signal_object t h w1 = (False, w2)" and nf: "\<not> fault w2"
        using s False u(1) by (simp_all add: sync_inv_def)
      note f = signal_object_False [OF sf nf]
      obtain wt where t2: "waits (thread_of w2 t) = wt # waits (thread_of w t)"
        using 1(6) [OF True] thread_of_cong [OF f(1)] by auto
      note x = cancel_wait_ok [OF u(1,2) t2 f(2)]
      show ?thesis
        using True False 1(1) s x evolve_trans [OF e2 subdued_evolve [OF x(3)]] by (simp add: w'_def)
    next
      case c: True
      show ?thesis
      proof (cases "waits (thread_of w2 t)")
        case Nil
        with True c 1(1) s u e2 show ?thesis
          by (simp add: w'_def)
      next
        case (Cons wt rest)
        note f = finish_select_sound [OF u(1,2) Cons ck]
        show ?thesis
          using True c 1(1) s Cons f evolve_trans [OF e2 f(3)] by (simp add: w'_def)
      qed
    qed
  qed
  then show "sync_inv None {#} H w'" "room {#} w'" "evolve w w'"
    by simp_all
qed

text \<open>A wait on nothing is a wait on no handles.\<close>

lemma wait_on_none: "wait_on t op [] fl timeout w = wait_on_handles t op [] fl timeout w"
  by (simp add: wait_on_handles_def assert_that_def split: prod.split)

lemma select_on_sound:
  assumes inv: "sync_inv None {#} H w" and room: "room {#} w" and ok: "select_ok t data ck w" and l: "refs_low 129 w"
  shows "sync_inv None {#} H (snd (select_on t data ck fl timeout w))" (is "sync_inv None {#} H ?w'")
    and "room {#} (snd (select_on t data ck fl timeout w))" and "evolve w (snd (select_on t data ck fl timeout w))"
    and "settled w \<Longrightarrow> waits (thread_of w t) = [] \<Longrightarrow> op_word data 0 \<noteq> 3 \<or> op_word data 2 = 0 \<Longrightarrow>
      settled (snd (select_on t data ck fl timeout w))"
proof -
  have "sync_inv None {#} H ?w' \<and> room {#} ?w' \<and> evolve w ?w' \<and>
      (settled w \<longrightarrow> waits (thread_of w t) = [] \<longrightarrow> op_word data 0 \<noteq> 3 \<or> op_word data 2 = 0 \<longrightarrow> settled ?w')"
  proof -
    let ?c = "op_word data 0"
    let ?wait = "\<lambda>op hs. case wait_on_handles t op hs fl timeout w of
      (False, w1) \<Rightarrow> w1 | (True, w1) \<Rightarrow> snd (finish_select t ck w1)"
    note s = upholdsD [OF upholds_set_err [OF inv room, of STATUS_INVALID_PARAMETER]]
    note W = wait_finish_sound [OF inv ok l, where fl = fl and timeout = timeout]
    consider (none) "?c = 0" | (wait) "?c = 1 \<or> ?c = 2" "data \<noteq> []" "length data - 1 \<le> 64"
      | (bad) "?c \<notin> {0, 1, 2, 3} \<or> ?c \<in> {1, 2} \<and> (data = [] \<or> 64 < length data - 1)"
      | (one) "?c = 3" "op_word data 2 = 0" | (both) "?c = 3" "op_word data 2 \<noteq> 0"
      by fastforce
    then show ?thesis
    proof cases
      case none
      then have "?w' = ?wait SELECT_NONE []" "wait_handles data = []"
        by (simp_all add: select_on_def wait_on_none wait_handles_def split: prod.split bool.split)
      with W [of "[]" SELECT_NONE] show ?thesis
        by simp
    next
      case wait
      let ?op = "if ?c = 1 then SELECT_WAIT else SELECT_WAIT_ALL"
      have "?w' = ?wait ?op (tl data)" "wait_handles data = tl data"
        using wait by (auto simp: select_on_def wait_handles_def split: prod.split bool.split)
      with wait W [of "tl data" ?op] show ?thesis
        by (simp split: if_splits)
    next
      case one
      then have "?w' = ?wait SELECT_SIGNAL_AND_WAIT [op_word data 1]" "wait_handles data = [op_word data 1]"
        by (simp_all add: select_on_def wait_handles_def split: prod.split bool.split)
      with W [of "[op_word data 1]" SELECT_SIGNAL_AND_WAIT] show ?thesis
        by simp
    next
      case both
      then have hs: "wait_handles data = [op_word data 1]" "length [op_word data 1] \<le> 64"
        by (simp_all add: wait_handles_def)
      have "?w' = (case wait_on_handles t SELECT_SIGNAL_AND_WAIT [op_word data 1] fl timeout w of
          (False, w1) \<Rightarrow> w1
        | (True, w1) \<Rightarrow>
            (case signal_object t (op_word data 2) w1 of
               (False, w2) \<Rightarrow> snd (end_wait t (get_err w2) w2)
             | (True, w2) \<Rightarrow> if waits (thread_of w2 t) = [] then w2 else snd (finish_select t ck w2)))"
        using both by (simp add: select_on_def split: prod.split bool.split)
      with signal_wait_sound [OF inv ok l hs, where fl = fl and timeout = timeout and h = "op_word data 2"] both
      show ?thesis
        by simp
    next
      case bad
      then have "?w' = set_err STATUS_INVALID_PARAMETER w"
        by (auto simp: select_on_def)
      with s show ?thesis
        by simp
    qed
  qed
  then show "sync_inv None {#} H ?w'" "room {#} ?w'" "evolve w ?w'"
    "settled w \<Longrightarrow> waits (thread_of w t) = [] \<Longrightarrow> op_word data 0 \<noteq> 3 \<or> op_word data 2 = 0 \<Longrightarrow> settled ?w'"
    by blast+
qed

end
