(* ===== verification/Sync_Create.thy ===== *)
theory Sync_Create
  imports Sync_Select
begin

text \<open>
  Creating events, mutexes and semaphores without a name (server/event.c, server/mutex.c,
  server/semaphore.c and \<open>create_object_without_name\<close> of server/object.c) and closing the handles.

  The addresses of a new object and of its sync, and the handle of the new table entry, are the
  answers of the C allocator and of the handle table: arguments of the operations, with \<open>None\<close> for a
  table that is full. An access mask is the mask of the table entry, already mapped.
\<close>

subsection \<open>The operations\<close>

definition alloc_sync :: "sid \<Rightarrow> sync_data \<Rightarrow> engine \<Rightarrow> bool \<times> engine" where
  "alloc_sync s d w =
     (case mem_alloc (errors w) of
        (False, e) \<Rightarrow> (False, w\<lparr>errors := e\<rparr>)
      | (True, e) \<Rightarrow> (True, w\<lparr>errors := e, syncs := (syncs w)(s \<mapsto> \<lparr>s_refs = 1, s_queue = [], s_data = d\<rparr>)\<rparr>))"

definition create_event_sync :: "sid \<Rightarrow> bool \<Rightarrow> bool \<Rightarrow> engine \<Rightarrow> bool \<times> engine" where
  "create_event_sync s man initial = alloc_sync s (Event_sync \<lparr>manual = man, signaled = initial\<rparr>)"

definition free_mutex :: mutex_sync where
  "free_mutex = \<lparr>owner = None, recursion = 0, abandoned = False\<rparr>"

definition create_mutex_sync :: "sid \<Rightarrow> bool \<Rightarrow> tid \<Rightarrow> engine \<Rightarrow> bool \<times> engine" where
  "create_mutex_sync s owned t w =
     (case alloc_sync s (Mutex_sync free_mutex) w of
        (False, w1) \<Rightarrow> (False, w1)
      | (True, w1) \<Rightarrow> (True, if owned then do_grab s free_mutex t w1 else w1))"

definition create_semaphore_sync :: "sid \<Rightarrow> 32 word \<Rightarrow> 32 word \<Rightarrow> engine \<Rightarrow> bool \<times> engine" where
  "create_semaphore_sync s initial most = alloc_sync s (Semaphore_sync \<lparr>sem_count = initial, sem_max = most\<rparr>)"

text \<open>The \<open>init\<close> callback of the type makes the sync; on failure the new object is freed again.\<close>

definition create_object_without_name ::
  "oid \<Rightarrow> sid \<Rightarrow> object_ops \<Rightarrow> (engine \<Rightarrow> bool \<times> engine) \<Rightarrow> engine \<Rightarrow> bool \<times> engine" where
  "create_object_without_name x s ops init w =
     (case mem_alloc (errors w) of
        (False, e) \<Rightarrow> (False, w\<lparr>errors := e\<rparr>)
      | (True, e) \<Rightarrow>
          (case init (w\<lparr>errors := e\<rparr>) of
             (False, w1) \<Rightarrow> (False, w1)
           | (True, w1) \<Rightarrow> (True, w1\<lparr>objs := (objs w1)(x \<mapsto> \<lparr>o_refs = 1, o_ops = ops, o_sync = Some s\<rparr>)\<rparr>)))"

definition alloc_object_handle :: "pid \<Rightarrow> obj_handle \<Rightarrow> oid \<Rightarrow> access \<Rightarrow> engine \<Rightarrow> engine" where
  "alloc_object_handle p h x acc w = (grab_obj x w)\<lparr>handles := ((p, h), x, acc) # handles w\<rparr>"

definition create_obj_handle ::
  "pid \<Rightarrow> access \<Rightarrow> obj_handle option \<Rightarrow> oid \<Rightarrow> sid \<Rightarrow> object_ops \<Rightarrow> (engine \<Rightarrow> bool \<times> engine) \<Rightarrow> engine \<Rightarrow>
   obj_handle \<times> engine" where
  "create_obj_handle p acc slot x s ops init w =
     (case create_object_without_name x s ops init (set_err 0 w) of
        (False, w1) \<Rightarrow> (0, w1)
      | (True, w1) \<Rightarrow>
          (case slot of
             None \<Rightarrow> (0, release_obj x (set_err STATUS_INSUFFICIENT_RESOURCES w1))
           | Some h \<Rightarrow> (h, release_obj x (alloc_object_handle p h x acc w1))))"

definition create_event ::
  "tid \<Rightarrow> access \<Rightarrow> bool \<Rightarrow> bool \<Rightarrow> obj_handle option \<Rightarrow> oid \<Rightarrow> sid \<Rightarrow> engine \<Rightarrow> obj_handle \<times> engine" where
  "create_event t acc man initial slot x s w =
     create_obj_handle (process (thread_of w t)) acc slot x s Event_ops (create_event_sync s man initial) w"

definition create_mutex ::
  "tid \<Rightarrow> access \<Rightarrow> bool \<Rightarrow> obj_handle option \<Rightarrow> oid \<Rightarrow> sid \<Rightarrow> engine \<Rightarrow> obj_handle \<times> engine" where
  "create_mutex t acc owned slot x s w =
     create_obj_handle (process (thread_of w t)) acc slot x s Mutex_ops (create_mutex_sync s owned t) w"

definition create_semaphore ::
  "tid \<Rightarrow> access \<Rightarrow> 32 word \<Rightarrow> 32 word \<Rightarrow> obj_handle option \<Rightarrow> oid \<Rightarrow> sid \<Rightarrow> engine \<Rightarrow> obj_handle \<times> engine" where
  "create_semaphore t acc initial most slot x s w =
     (if most = 0 \<or> most < initial then (0, set_err STATUS_INVALID_PARAMETER w)
      else create_obj_handle (process (thread_of w t)) acc slot x s Semaphore_ops
             (create_semaphore_sync s initial most) w)"

definition close_object_handle :: "pid \<Rightarrow> obj_handle \<Rightarrow> engine \<Rightarrow> ntstatus \<times> engine" where
  "close_object_handle p h w =
     (case find_handle w p h of
        None \<Rightarrow> (STATUS_INVALID_HANDLE, w)
      | Some (x, a) \<Rightarrow> (0, release_obj x (w\<lparr>handles := remove1 ((p, h), x, a) (handles w)\<rparr>)))"

subsection \<open>The invariant\<close>

lemma new_sync_fields [simp]:
  "sync_of (w\<lparr>syncs := f\<rparr>) = sync_of w" "on_sync (w\<lparr>syncs := f\<rparr>) = on_sync w" "thread_of (w\<lparr>syncs := f\<rparr>) = thread_of w"
  by (simp_all add: sync_of_def on_sync_def thread_of_def fun_eq_iff)

lemma inv_new_sync:
  assumes inv: "sync_inv None L H w" and s: "syncs w s = None"
    and sy: "s_refs sy = 1" "s_queue sy = []" and d: "data_ok (s_data sy)" "owner_of (s_data sy) = None"
  shows "sync_inv (Some s) L H (w\<lparr>syncs := (syncs w)(s \<mapsto> sy)\<rparr>)" (is "sync_inv _ L H ?w")
proof -
  have so: "sync_of ?w = sync_of w" and st: "stacks ?w = stacks w"
    by (simp_all add: sync_of_def fun_eq_iff stacks_def)
  have free: "sync_of w x \<noteq> Some s" for x
    using inv s unfolding sync_inv_def objs_ok_def sync_of_Some by (metis option.distinct(1))
  have on: "on_sync ?w = on_sync w"
    by (simp add: on_sync_def fun_eq_iff so)
  have "refs_ok (image_mset snd L + H) ?w"
    using inv by (simp add: sync_inv_def refs_ok_def refs_of_def holders_def live_threads_def st)
  moreover have "objs_ok ?w"
    using inv free unfolding sync_inv_def objs_ok_def so by (fastforce simp: sync_of_Some)
  moreover have "syncs_ok (Some s) ?w"
    unfolding syncs_ok_def
  proof (intro conjI allI impI)
    fix r sy'
    assume r: "syncs ?w r = Some sy'"
    show "sync_ok (Some s) ?w r sy'"
    proof (cases "r = s")
      case False
      then have ok: "sync_ok None w r sy'" and eq: "(Some s = Some r) = (None = Some r)"
        using inv r by (simp_all add: sync_inv_def syncs_ok_def)
      show ?thesis
        using ok unfolding sync_ok_def so eq .
    qed (use r d sy free in \<open>auto simp: sync_ok_def so\<close>)
  qed simp
  moreover have "queues_ok L ?w"
    unfolding queues_ok_def on st so
  proof (intro conjI allI impI ballI)
    fix r sy'
    assume r: "syncs ?w r = Some sy'"
    show "mset (s_queue sy') = image_mset fst (filter_mset (on_sync w r) (entries w + L))"
    proof (cases "r = s")
      case True
      then have "filter_mset (on_sync w r) (entries w + L) = {#}"
        using free by (simp add: on_sync_def)
      with True r sy show ?thesis
        by simp
    qed (use inv r in \<open>auto simp: sync_inv_def queues_ok_def\<close>)
  qed (use inv in \<open>auto simp: sync_inv_def queues_ok_def\<close>)
  moreover have "owned_by ?w = owned_by w"
    using d s by (auto simp: owned_by_def fun_eq_iff)
  then have "mutexes_ok ?w"
    using inv by (simp add: sync_inv_def mutexes_ok_def thread_of_def)
  moreover have "waits_ok ?w"
    using inv by (simp add: sync_inv_def waits_ok_def wait_ok_def st is_semaphore_def [abs_def])
  ultimately show ?thesis
    using inv by (simp add: sync_inv_def)
qed


lemma inv_new_obj:
  assumes inv: "sync_inv (Some s) L H w" and x: "objs w x = None" and s: "\<And>y. sync_of w y \<noteq> Some s"
    and sy: "syncs w s = Some sy" "kind_ok (o_ops ob) (s_data sy)" and ob: "o_refs ob = 1" "o_sync ob = Some s"
  shows "sync_inv None L (add_mset x H) (w\<lparr>objs := (objs w)(x \<mapsto> ob)\<rparr>)" (is "sync_inv _ L _ ?w")
proof -
  let ?c = "\<lambda>H y. count (holders w + (image_mset snd L + H)) y"
  have so: "sync_of ?w y = (if y = x then Some s else sync_of w y)" for y
    by (simp add: sync_of_def ob)
  have st: "stacks ?w = stacks w" and ho: "holders ?w = holders w"
    by (simp_all add: stacks_def holders_def live_threads_def)
  have c: "?c H y \<le> refs_of w y" for y
    using inv by (simp only: sync_inv_def refs_ok_def)
  then have x0: "?c H x = 0"
    using x by (metis le_zero_eq option.simps(4) refs_of_def)
  have "?c (add_mset x H) y \<le> refs_of ?w y" for y
    using c [of y] x0 ob by (auto simp: refs_of_def)
  then have "refs_ok (image_mset snd L + add_mset x H) ?w"
    using inv ob by (auto simp: refs_ok_def ho sync_inv_def)
  moreover have "objs_ok ?w"
    using inv sy s ob unfolding sync_inv_def objs_ok_def so by (auto split: if_splits)
  moreover have "syncs_ok None ?w"
    unfolding syncs_ok_def
  proof (intro conjI allI impI)
    fix r sy'
    assume r: "syncs ?w r = Some sy'"
    then have ok: "sync_ok (Some s) w r sy'"
      using inv by (simp add: sync_inv_def syncs_ok_def)
    show "sync_ok None ?w r sy'"
    proof (cases "r = s")
      case True
      with ok s show ?thesis
        by (auto simp: sync_ok_def so)
    next
      case False
      moreover have "sync_of w x = None"
        using x by (simp add: sync_of_def)
      ultimately have eq: "(\<exists>y. sync_of ?w y = Some r) = (\<exists>y. sync_of w y = Some r)" "(Some s = Some r) = (None = Some r)"
        unfolding so by (auto split: if_splits) (metis option.distinct(1))
      show ?thesis
        using ok unfolding sync_ok_def eq .
    qed
  qed simp
  moreover have "snd ex \<noteq> x" if "ex \<in># entries w + L" for ex
  proof -
    have "sync_of w (snd ex) \<noteq> None"
      using inv that unfolding sync_inv_def queues_ok_def by blast
    then show ?thesis
      using x by (auto simp: sync_of_def)
  qed
  then have on: "\<forall>ex \<in># entries w + L. sync_of ?w (snd ex) = sync_of w (snd ex)"
    unfolding so by metis
  have "filter_mset (on_sync ?w r) (entries w + L) = filter_mset (on_sync w r) (entries w + L)" for r
    using on by (intro filter_mset_cong refl) (simp add: on_sync_def)
  then have "queues_ok L ?w"
    using inv on unfolding sync_inv_def queues_ok_def st by simp
  moreover have "thread_of ?w = thread_of w" "owned_by ?w = owned_by w"
    by (simp_all add: thread_of_def owned_by_def fun_eq_iff)
  then have "mutexes_ok ?w"
    using inv by (simp add: sync_inv_def mutexes_ok_def)
  moreover have "count (image_mset snd (entries w)) x = 0"
    using x0 by (simp add: holders_def)
  then have "x \<notin># image_mset snd (entries w)"
    unfolding not_in_iff .
  then have "is_semaphore ?w y = is_semaphore w y" if "y \<in># image_mset snd (entries w)" for y
    using that by (cases "y = x") (simp_all add: is_semaphore_def)
  then have "waits_ok ?w"
    using inv by (intro waits_ok_cong [OF _ st]) (simp_all only: sync_inv_def)
  ultimately show ?thesis
    using inv by (simp add: sync_inv_def)
qed

lemma inv_add_handle:
  assumes inv: "sync_inv K L (add_mset x H) w"
  shows "sync_inv K L H (w\<lparr>handles := ((p, h), x, a) # handles w\<rparr>)" (is "sync_inv K L H ?w")
proof -
  have so: "sync_of ?w = sync_of w" and st: "stacks ?w = stacks w"
    by (simp_all add: sync_of_def fun_eq_iff stacks_def)
  have "holders ?w + (image_mset snd L + H) = holders w + (image_mset snd L + add_mset x H)"
    by (simp add: holders_def live_threads_def st)
  then have "refs_ok (image_mset snd L + H) ?w"
    using inv unfolding sync_inv_def refs_ok_def by (simp add: refs_of_def)
  moreover have "objs_ok ?w" "waits_ok ?w"
    using inv by (simp_all add: sync_inv_def objs_ok_def so waits_ok_def wait_ok_def st is_semaphore_def [abs_def])
  ultimately show ?thesis
    using inv oks_cong [OF so] by (simp add: sync_inv_def)
qed

lemma inv_drop_handle:
  assumes inv: "sync_inv K L H w" and h: "mset (handles w) = add_mset ((p, h), x, a) (mset hs)"
  shows "sync_inv K L (add_mset x H) (w\<lparr>handles := hs\<rparr>)" (is "sync_inv K L _ ?w")
proof -
  have so: "sync_of ?w = sync_of w" and st: "stacks ?w = stacks w"
    by (simp_all add: sync_of_def fun_eq_iff stacks_def)
  have e: "holders ?w + (image_mset snd L + add_mset x H) = holders w + (image_mset snd L + H)"
    by (simp add: holders_def live_threads_def st h)
  have r: "refs_of ?w = refs_of w"
    by (simp add: refs_of_def fun_eq_iff)
  have "refs_ok (image_mset snd L + add_mset x H) ?w"
    unfolding refs_ok_def e r using inv by (simp add: sync_inv_def refs_ok_def)
  moreover have "objs_ok ?w" "waits_ok ?w"
    using inv by (simp_all add: sync_inv_def objs_ok_def so waits_ok_def wait_ok_def st is_semaphore_def [abs_def])
  ultimately show ?thesis
    using inv oks_cong [OF so] by (simp add: sync_inv_def)
qed


lemma room_new_obj:
  assumes inv: "sync_inv K {#} H w" and room: "room {#} w" and x: "objs w x = None"
  shows "room {#} (w\<lparr>objs := (objs w)(x \<mapsto> ob)\<rparr>)" (is "room {#} ?w")
proof -
  have "snd ex \<noteq> x" if "ex \<in># entries w" for ex
  proof -
    have "sync_of w (snd ex) \<noteq> None"
      using inv that unfolding sync_inv_def queues_ok_def by simp
    then show ?thesis
      using x by (auto simp: sync_of_def)
  qed
  then have "filter_mset (\<lambda>y. sync_of ?w y = Some r) (image_mset snd (entries w)) =
      filter_mset (\<lambda>y. sync_of w y = Some r) (image_mset snd (entries w))" for r
    by (intro filter_mset_cong refl) (auto simp: sync_of_def)
  moreover have "stacks ?w = stacks w"
    by (simp add: stacks_def)
  ultimately show ?thesis
    using room by (simp add: room_def)
qed

subsection \<open>The contract of an \<open>init\<close> callback\<close>

text \<open>What making the sync \<open>s\<close> leaves alone.\<close>

definition made :: "sid \<Rightarrow> engine \<Rightarrow> engine \<Rightarrow> bool" where
  "made s w w' \<longleftrightarrow>
     objs w' = objs w \<and> handles w' = handles w \<and> current_time w' = current_time w \<and>
     monotonic_time w' = monotonic_time w \<and> proc_suspend w' = proc_suspend w \<and>
     length (threads w') = length (threads w) \<and> (\<forall>r. r \<noteq> s \<longrightarrow> syncs w' r = syncs w r) \<and>
     (\<forall>u. \<exists>l. thread_of w' u = (thread_of w u)\<lparr>mutex_list := l\<rparr>)"

lemma settled_made:
  assumes inv: "sync_inv K {#} H w" and st: "settled w" and m: "made s w v" and s: "\<And>x. sync_of w x \<noteq> Some s"
    and x: "objs w x = None"
  shows "settled (v\<lparr>objs := (objs w)(x \<mapsto> ob)\<rparr>)" (is "settled ?w")
  unfolding settled_def
proof
  fix u
  let ?v = "?w\<lparr>threads := threads w\<rparr>"
  have th: "thread_of ?v = thread_of w"
    by (rule thread_of_cong) simp
  have sg: "sig w y u" if "waits (thread_of w u) = wt # rest" "y \<in> set (w_objs wt)" "sig ?v y u" for wt rest y
  proof -
    have "sync_of w y \<noteq> None"
      using inv_wait_syncs [OF inv that(1)] that(2) by blast
    then obtain r where r: "sync_of w y = Some r" "r \<noteq> s" "y \<noteq> x"
      using s x by (metis not_Some_eq option.simps(4) sync_of_def bind.bind_lzero)
    then have "sync_of ?v y = Some r" "syncs ?v r = syncs w r"
      using m by (simp_all add: sync_of_def made_def)
    with r that(3) show ?thesis
      by (auto simp: sig_alt)
  qed
  have "wait_result ?v u = None"
    by (rule wait_result_mono [of ?v u w])
      (use st m sg in \<open>simp_all add: th settled_def made_def\<close>)
  moreover have tv: "thread_of ?w = thread_of v"
    by (rule thread_of_cong) simp
  obtain l where "thread_of ?w u = (thread_of ?v u)\<lparr>mutex_list := l\<rparr>"
    using m th tv by (auto simp: made_def)
  moreover have "sig ?w = sig ?v"
    by (simp add: sig_def [abs_def] sync_of_def)
  ultimately show "wait_result ?w u = None"
    using wait_result_cong [of ?w u l ?v] by simp
qed

lemma settled_outer:
  assumes "threads w' = threads w" "objs w' = objs w" "syncs w' = syncs w" "current_time w' = current_time w"
    "monotonic_time w' = monotonic_time w" "proc_suspend w' = proc_suspend w"
  shows "settled w' = settled w"
  unfolding settled_def wait_result_outer [OF assms] ..

lemma upholds_handle:
  assumes inv: "sync_inv None {#} (add_mset x H) w" and room: "room {#} w" and x: "objs w x = Some ob" "o_refs ob < INT_MAX"
  shows "sync_inv None {#} H (release_obj x (alloc_object_handle p h x acc w))"
    and "room {#} (release_obj x (alloc_object_handle p h x acc w))"
    and "settled w \<Longrightarrow> settled (release_obj x (alloc_object_handle p h x acc w))"
    and "find_handle (release_obj x (alloc_object_handle p h x acc w)) p h = Some (x, acc)"
proof -
  let ?g = "grab_obj x w"
  let ?a = "alloc_object_handle p h x acc w"
  have hg: "handles ?g = handles w"
    using shrinks_grab_obj [of w x] by (simp add: shrinks_def)
  have a: "?a = ?g\<lparr>handles := ((p, h), x, acc) # handles ?g\<rparr>"
    by (simp add: alloc_object_handle_def hg)
  have i: "sync_inv None {#} (add_mset x H) ?a"
    unfolding a by (rule inv_add_handle [OF inv_grab_obj [OF inv x]])
  have r: "room {#} ?a"
    using shrinks_room [OF shrinks_grab_obj room, of x] unfolding a
    by (subst room_outer [of _ ?g]) (simp_all add: stacks_def)
  show "sync_inv None {#} H (release_obj x ?a)"
    by (rule inv_release_obj [OF i])
  show "room {#} (release_obj x ?a)"
    by (rule shrinks_room [OF shrinks_release_obj r])
  show "settled (release_obj x ?a)" if "settled w"
    using settled_shrinks [OF that shrinks_grab_obj, of x] settled_outer [of ?a ?g]
    by (intro settled_shrinks [OF _ shrinks_release_obj]) (simp add: a)
  have "handles (release_obj x ?a) = handles ?a"
    using shrinks_release_obj [of ?a x] by (simp add: shrinks_def)
  then show "find_handle (release_obj x ?a) p h = Some (x, acc)"
    by (simp add: find_handle_def a)
qed

locale sync_init =
  fixes s :: sid and ops :: object_ops and pre :: "engine \<Rightarrow> bool" and init :: "engine \<Rightarrow> bool \<times> engine"
  assumes pre_env: "pre (w\<lparr>errors := e\<rparr>) = pre w"
    and init_fails: "init w = (False, w') \<Longrightarrow> \<exists>e. w' = w\<lparr>errors := e\<rparr>"
    and init_inv: "init w = (True, w') \<Longrightarrow> sync_inv None {#} H w \<Longrightarrow> room {#} w \<Longrightarrow> syncs w s = None \<Longrightarrow> pre w \<Longrightarrow>
      sync_inv (Some s) {#} H w' \<and> room {#} w' \<and> (\<exists>sy. syncs w' s = Some sy \<and> kind_ok ops (s_data sy))"
    and init_made: "init w = (True, w') \<Longrightarrow> made s w w'"
begin

lemma create_ok:
  assumes inv: "sync_inv None {#} H w" and room: "room {#} w" and x: "objs w x = None" and s: "syncs w s = None"
    and pre: "pre w" and c: "create_object_without_name x s ops init w = (b, w')"
  shows "\<not> b \<Longrightarrow> \<exists>e. w' = w\<lparr>errors := e\<rparr>"
    and "b \<Longrightarrow> sync_inv None {#} (add_mset x H) w' \<and> room {#} w' \<and>
      (\<exists>v. made s w v \<and> w' = v\<lparr>objs := (objs w)(x \<mapsto> \<lparr>o_refs = 1, o_ops = ops, o_sync = Some s\<rparr>)\<rparr>)"
proof -
  obtain ok e where e: "mem_alloc (errors w) = (ok, e)"
    by fastforce
  let ?w0 = "w\<lparr>errors := e\<rparr>" and ?ob = "\<lparr>o_refs = 1, o_ops = ops, o_sync = Some s\<rparr>"
  note 0 = set_env_ok [OF inv, where e = e]
  obtain c1 w1 where i: "init ?w0 = (c1, w1)"
    by fastforce
  show "\<exists>e. w' = w\<lparr>errors := e\<rparr>" if "\<not> b"
  proof (cases ok)
    case True
    with that c e i have "init ?w0 = (False, w')"
      by (auto simp: create_object_without_name_def split: bool.splits)
    from init_fails [OF this] show ?thesis
      by auto
  qed (use that c e in \<open>auto simp: create_object_without_name_def\<close>)
  assume b
  with c e i have ok: "init ?w0 = (True, w1)" and w': "w' = w1\<lparr>objs := (objs w1)(x \<mapsto> ?ob)\<rparr>"
    by (auto simp: create_object_without_name_def split: bool.splits)
  have 1: "sync_inv (Some s) {#} H w1" "room {#} w1" and "\<exists>sy. syncs w1 s = Some sy \<and> kind_ok ops (s_data sy)"
    using init_inv [OF ok 0(1)] 0(2) room s pre pre_env by simp_all
  then obtain sy where sy: "syncs w1 s = Some sy" "kind_ok (o_ops ?ob) (s_data sy)"
    by auto
  have m: "made s w w1"
    using init_made [OF ok] by (simp add: made_def 0(4))
  have o1: "objs w1 = objs w"
    using m by (simp add: made_def)
  have free: "sync_of w1 y \<noteq> Some s" for y
    using inv s o1 unfolding sync_inv_def objs_ok_def sync_of_Some by (metis option.distinct(1))
  have x1: "objs w1 x = None"
    using x o1 by simp
  have "sync_inv None {#} (add_mset x H) w'"
    unfolding w' by (rule inv_new_obj [OF 1(1) x1 free sy]) simp_all
  moreover have "room {#} w'"
    unfolding w' by (rule room_new_obj [OF 1 x1])
  ultimately show "sync_inv None {#} (add_mset x H) w' \<and> room {#} w' \<and>
      (\<exists>v. made s w v \<and> w' = v\<lparr>objs := (objs w)(x \<mapsto> ?ob)\<rparr>)"
    using m w' o1 by auto
qed

lemma create_handle_ok:
  assumes inv: "sync_inv None {#} H w" and room: "room {#} w" and x: "objs w x = None" and s: "syncs w s = None"
    and pre: "pre w" and c: "create_obj_handle p acc slot x s ops init w = (h, w')"
  shows "sync_inv None {#} H w' \<and> room {#} w' \<and> (settled w \<longrightarrow> settled w') \<and>
    (h \<noteq> 0 \<longrightarrow> find_handle w' p h = Some (x, acc))"
proof -
  let ?e = "set_err 0 w"
  have e: "sync_inv None {#} H ?e" "room {#} ?e" "objs ?e x = None" "syncs ?e s = None" "pre ?e"
    using inv room x s pre pre_env by (simp_all add: set_err_def)
      (simp_all flip: set_err_def [of 0 w])
  obtain b w1 where 1: "create_object_without_name x s ops init ?e = (b, w1)"
    by fastforce
  note k = create_ok [OF e 1]
  show ?thesis
  proof (cases b)
    case False
    then obtain f where f: "w1 = ?e\<lparr>errors := f\<rparr>"
      using k(1) by blast
    note i = set_env_ok [OF e(1), where e = f]
    show ?thesis
      using False 1 c e i f settled_outer [of "?e\<lparr>errors := f\<rparr>" ?e] by (auto simp: create_obj_handle_def)
  next
    case True
    then obtain v where v: "sync_inv None {#} (add_mset x H) w1" "room {#} w1" "made s ?e v"
        "w1 = v\<lparr>objs := (objs ?e)(x \<mapsto> \<lparr>o_refs = 1, o_ops = ops, o_sync = Some s\<rparr>)\<rparr>"
      using k(2) by blast
    have "sync_of ?e y \<noteq> Some s" for y
      using e(1,4) unfolding sync_inv_def objs_ok_def sync_of_Some by (metis option.distinct(1))
    then have st: "settled w \<Longrightarrow> settled w1"
      unfolding v(4) by (intro settled_made [OF e(1) _ v(3) _ e(3)]) simp_all
    show ?thesis
    proof (cases slot)
      case None
      then have w': "h = 0" "w' = release_obj x (set_err STATUS_INSUFFICIENT_RESOURCES w1)"
        using True 1 c by (simp_all add: create_obj_handle_def)
      have "sync_inv None {#} (add_mset x H) (set_err STATUS_INSUFFICIENT_RESOURCES w1)"
          "room {#} (set_err STATUS_INSUFFICIENT_RESOURCES w1)"
        using v(1,2) by simp_all
      from upholdsD [OF upholds_release_obj [OF this]] show ?thesis
        using st by (simp add: w')
    next
      case (Some h')
      then have w': "h = h'" "w' = release_obj x (alloc_object_handle p h' x acc w1)"
        using True 1 c by (auto simp: create_obj_handle_def)
      have ob: "objs w1 x = Some \<lparr>o_refs = 1, o_ops = ops, o_sync = Some s\<rparr>"
        by (simp add: v(4))
      show ?thesis
        using upholds_handle [OF v(1,2) ob] st by (simp add: w')
    qed
  qed
qed

end

lemma alloc_sync_fails: "alloc_sync s d w = (False, w') \<Longrightarrow> \<exists>e. w' = w\<lparr>errors := e\<rparr>"
  by (auto simp: alloc_sync_def split: prod.splits bool.splits)

lemma same_mutex_list: "\<exists>l. th = (th :: thread)\<lparr>mutex_list := l\<rparr>"
  by (rule exI [of _ "mutex_list th"]) simp

lemma alloc_sync_made:
  assumes "alloc_sync s d w = (True, w')"
  shows "made s w w'"
proof -
  have "threads w' = threads w"
    using assms by (auto simp: alloc_sync_def split: prod.splits bool.splits)
  then have "thread_of w' = thread_of w"
    by (rule thread_of_cong)
  with assms same_mutex_list show ?thesis
    by (auto simp: alloc_sync_def made_def split: prod.splits bool.splits)
qed

lemma alloc_sync_ok:
  assumes a: "alloc_sync s d w = (True, w')" and inv: "sync_inv None {#} H w" and room: "room {#} w"
    and s: "syncs w s = None" and d: "data_ok d" "owner_of d = None"
  shows "sync_inv (Some s) {#} H w'" and "room {#} w'" and "syncs w' s = Some \<lparr>s_refs = 1, s_queue = [], s_data = d\<rparr>"
    and "threads w' = threads w" and "objs w' = objs w"
proof -
  let ?sy = "\<lparr>s_refs = 1, s_queue = [], s_data = d\<rparr>"
  obtain e where "mem_alloc (errors w) = (True, e)" and w': "w' = w\<lparr>errors := e, syncs := (syncs w)(s \<mapsto> ?sy)\<rparr>"
    using a by (auto simp: alloc_sync_def split: prod.splits bool.splits)
  let ?w0 = "w\<lparr>errors := e\<rparr>"
  note 0 = set_env_ok [OF inv, where e = e]
  have "sync_inv (Some s) {#} H (?w0\<lparr>syncs := (syncs ?w0)(s \<mapsto> ?sy)\<rparr>)"
    by (rule inv_new_sync [OF 0(1)]) (use s d in simp_all)
  then show "sync_inv (Some s) {#} H w'"
    by (simp add: w')
  show "syncs w' s = Some ?sy" "threads w' = threads w" "objs w' = objs w"
    by (simp_all add: w')
  have free: "sync_of w x \<noteq> Some s" for x
    using inv s unfolding sync_inv_def objs_ok_def sync_of_Some by (metis option.distinct(1))
  have st: "stacks w' = stacks w" and so: "sync_of w' = sync_of w"
    by (simp_all add: w' stacks_def sync_of_def fun_eq_iff)
  show "room {#} w'"
    unfolding room_def st so
  proof (intro allI impI)
    fix r sy m
    assume r: "syncs w' r = Some sy" "s_data sy = Mutex_sync m"
    show "unat (recursion m) + size {#x \<in># image_mset snd (entries w) + {#}. sync_of w x = Some r#} < 2 ^ 32"
    proof (cases "r = s")
      case True
      with r d have "recursion m = 0"
        by (auto simp: w' data_ok_def owner_of_def)
      with True free show ?thesis
        by simp
    next
      case False
      with r have "syncs w r = Some sy"
        by (simp add: w')
      with r(2) room show ?thesis
        unfolding room_def by blast
    qed
  qed
qed

interpretation event_init: sync_init s Event_ops "\<lambda>_. True" "create_event_sync s man initial" for s man initial
proof unfold_locales
  fix w w' H
  assume "create_event_sync s man initial w = (True, w')" "sync_inv None {#} H w" "room {#} w" "syncs w s = None"
  from alloc_sync_ok [OF this [unfolded create_event_sync_def]]
  show "sync_inv (Some s) {#} H w' \<and> room {#} w' \<and> (\<exists>sy. syncs w' s = Some sy \<and> kind_ok Event_ops (s_data sy))"
    by (simp add: data_ok_def owner_of_def kind_ok_def)
qed (simp_all add: create_event_sync_def alloc_sync_fails alloc_sync_made)

interpretation semaphore_init: sync_init s Semaphore_ops "\<lambda>_. initial \<le> most" "create_semaphore_sync s initial most"
  for s initial most
proof unfold_locales
  fix w w' H
  assume le: "initial \<le> most"
  assume "create_semaphore_sync s initial most w = (True, w')" "sync_inv None {#} H w" "room {#} w" "syncs w s = None"
  from alloc_sync_ok [OF this [unfolded create_semaphore_sync_def]] le
  show "sync_inv (Some s) {#} H w' \<and> room {#} w' \<and> (\<exists>sy. syncs w' s = Some sy \<and> kind_ok Semaphore_ops (s_data sy))"
    by (simp add: data_ok_def owner_of_def kind_ok_def)
qed (simp_all add: create_semaphore_sync_def alloc_sync_fails alloc_sync_made)

lemma do_grab_free:
  assumes "syncs w s = Some \<lparr>s_refs = 1, s_queue = [], s_data = Mutex_sync free_mutex\<rparr>"
  shows "do_grab s free_mutex t w = take_sync s (Mutex_sync free_mutex) t w"
  using assms
  by (auto simp: do_grab_def take_sync_def free_mutex_def assert_that_def grab_sync_def newly_owned_def taken_def
      upd_sync_upd_sync intro!: arg_cong [where f = "upd_thread t (add_mutex s)"] upd_sync_cong)

lemma room_take_free:
  assumes room: "room {#} w" and free: "\<And>x. sync_of w x \<noteq> Some s"
  shows "room {#} (take_sync s (Mutex_sync free_mutex) t w)" (is "room {#} ?w")
  unfolding room_def
proof (intro allI impI)
  fix r sy m
  assume r: "syncs ?w r = Some sy" "s_data sy = Mutex_sync m"
  show "unat (recursion m) + size {#x \<in># image_mset snd (entries ?w) + {#}. sync_of ?w x = Some r#} < 2 ^ 32"
  proof (cases "r = s")
    case True
    with r have "recursion m = 1"
      by (auto simp: syncs_take_sync taken_def free_mutex_def)
    with True free show ?thesis
      by simp
  next
    case False
    with r have "syncs w r = Some sy"
      by (simp add: syncs_take_sync)
    with r(2) room show ?thesis
      unfolding room_def by simp
  qed
qed

lemma create_mutex_sync_made:
  assumes "create_mutex_sync s owned t w = (True, w')"
  shows "made s w w'"
proof -
  obtain w1 where a: "alloc_sync s (Mutex_sync free_mutex) w = (True, w1)"
      and w': "w' = (if owned then do_grab s free_mutex t w1 else w1)"
    using assms by (auto simp: create_mutex_sync_def split: prod.splits bool.splits)
  have w1: "syncs w1 s = Some \<lparr>s_refs = 1, s_queue = [], s_data = Mutex_sync free_mutex\<rparr>"
    using a by (auto simp: alloc_sync_def split: prod.splits bool.splits)
  have m: "made s w w1"
    by (rule alloc_sync_made [OF a])
  have "threads w1 = threads w"
    using a by (auto simp: alloc_sync_def split: prod.splits bool.splits)
  then have "thread_of w1 = thread_of w"
    by (rule thread_of_cong)
  then have "\<exists>l. thread_of (take_sync s d t w1) u = (thread_of w u)\<lparr>mutex_list := l\<rparr>" for d u
    using same_mutex_list by (auto simp: take_sync_def thread_of_upd_thread add_mutex_def Let_def)
  with m have "made s w (take_sync s d t w1)" for d
    by (simp add: made_def syncs_take_sync)
  with m w' do_grab_free [OF w1] show ?thesis
    by simp
qed

interpretation mutex_init: sync_init s Mutex_ops "\<lambda>w. t < length (threads w)" "create_mutex_sync s owned t" for s t owned
proof unfold_locales
  fix w w' H
  assume c: "create_mutex_sync s owned t w = (True, w')" and w: "sync_inv None {#} H w" "room {#} w" "syncs w s = None"
    and t: "t < length (threads w)"
  obtain w1 where a: "alloc_sync s (Mutex_sync free_mutex) w = (True, w1)"
      and w': "w' = (if owned then do_grab s free_mutex t w1 else w1)"
    using c by (auto simp: create_mutex_sync_def split: prod.splits bool.splits)
  note 1 = alloc_sync_ok [OF a w]
  show "sync_inv (Some s) {#} H w' \<and> room {#} w' \<and> (\<exists>sy. syncs w' s = Some sy \<and> kind_ok Mutex_ops (s_data sy))"
  proof (cases owned)
    case True
    let ?d = "Mutex_sync free_mutex"
    have d: "data_ok ?d" "owner_of ?d = None"
      by (simp_all add: free_mutex_def data_ok_def owner_of_def)
    note 1 = 1 [OF d]
    have w': "w' = take_sync s ?d t w1"
      using w' True do_grab_free [OF 1(3)] by simp
    have "sync_inv (Some s) {#} H (take_sync s (s_data \<lparr>s_refs = 1, s_queue = [], s_data = ?d\<rparr>) t w1)"
      using t 1 by (intro inv_take_sync) (simp_all add: ready_def free_mutex_def)
    moreover have "sync_of w1 x \<noteq> Some s" for x
      using w(1,3) 1(5) unfolding sync_inv_def objs_ok_def sync_of_Some by (metis option.distinct(1))
    then have "room {#} (take_sync s ?d t w1)"
      by (rule room_take_free [OF 1(2)])
    ultimately show ?thesis
      using 1(3) by (simp add: w' syncs_take_sync taken_def kind_ok_def)
  next
    case False
    with 1 w' show ?thesis
      by (simp add: free_mutex_def data_ok_def owner_of_def kind_ok_def)
  qed
qed (auto simp: create_mutex_sync_def create_mutex_sync_made alloc_sync_fails split: prod.splits bool.splits)


subsection \<open>Creating and closing\<close>

lemma create_event_ok:
  assumes "sync_inv None {#} H w" and "room {#} w" and "objs w x = None" and "syncs w s = None"
    and "create_event t acc man initial slot x s w = (h, w')"
  shows "sync_inv None {#} H w' \<and> room {#} w' \<and> (settled w \<longrightarrow> settled w') \<and>
    (h \<noteq> 0 \<longrightarrow> find_handle w' (process (thread_of w t)) h = Some (x, acc))"
  using event_init.create_handle_ok [OF assms(1-4) TrueI] assms(5) by (simp add: create_event_def)

lemma create_mutex_ok:
  assumes "sync_inv None {#} H w" and "room {#} w" and "objs w x = None" and "syncs w s = None"
    and "t < length (threads w)" and "create_mutex t acc owned slot x s w = (h, w')"
  shows "sync_inv None {#} H w' \<and> room {#} w' \<and> (settled w \<longrightarrow> settled w') \<and>
    (h \<noteq> 0 \<longrightarrow> find_handle w' (process (thread_of w t)) h = Some (x, acc))"
  using mutex_init.create_handle_ok [OF assms(1-5)] assms(6) by (simp add: create_mutex_def)

lemma create_semaphore_ok:
  assumes w: "sync_inv None {#} H w" "room {#} w" "objs w x = None" "syncs w s = None"
    and c: "create_semaphore t acc initial most slot x s w = (h, w')"
  shows "sync_inv None {#} H w' \<and> room {#} w' \<and> (settled w \<longrightarrow> settled w') \<and>
    (h \<noteq> 0 \<longrightarrow> find_handle w' (process (thread_of w t)) h = Some (x, acc))"
proof (cases "most = 0 \<or> most < initial")
  case True
  with w c show ?thesis
    by (auto simp: create_semaphore_def)
next
  case False
  then have "initial \<le> most"
    by (simp add: not_less)
  from semaphore_init.create_handle_ok [OF w this] False c show ?thesis
    by (simp add: create_semaphore_def)
qed

lemma close_object_handle_ok:
  assumes inv: "sync_inv None {#} H w" and room: "room {#} w"
  shows "sync_inv None {#} H (snd (close_object_handle p h w))" and "room {#} (snd (close_object_handle p h w))"
    and "settled w \<Longrightarrow> settled (snd (close_object_handle p h w))"
proof -
  have "sync_inv None {#} H (snd (close_object_handle p h w)) \<and> room {#} (snd (close_object_handle p h w)) \<and>
      (settled w \<longrightarrow> settled (snd (close_object_handle p h w)))"
  proof (cases "find_handle w p h")
    case None
    with inv room show ?thesis
      by (simp add: close_object_handle_def)
  next
    case (Some xa)
    then obtain x a where xa: "find_handle w p h = Some (x, a)"
      by (cases xa) auto
    let ?w = "w\<lparr>handles := remove1 ((p, h), x, a) (handles w)\<rparr>"
    have "((p, h), x, a) \<in> set (handles w)"
      using xa by (simp add: find_handle_def map_of_SomeD)
    then have "mset (handles w) = add_mset ((p, h), x, a) (mset (remove1 ((p, h), x, a) (handles w)))"
      by simp
    then have i: "sync_inv None {#} (add_mset x H) ?w"
      by (rule inv_drop_handle [OF inv])
    have r: "room {#} ?w"
      using room by (subst room_outer [of _ w]) (simp_all add: stacks_def)
    have "settled ?w = settled w"
      by (rule settled_outer) simp_all
    with upholdsD [OF upholds_release_obj [OF i r]] xa show ?thesis
      by (simp add: close_object_handle_def)
  qed
  then show "sync_inv None {#} H (snd (close_object_handle p h w))" "room {#} (snd (close_object_handle p h w))"
    "settled w \<Longrightarrow> settled (snd (close_object_handle p h w))"
    by simp_all
qed

end
