(* ===== verification/Sync_Life.thy ===== *)
theory Sync_Life
  imports Sync_Create
begin

text \<open>
  Time-outs, suspension and the death of a thread: the waits end without taking anything, the mutexes
  of a dead thread go to their waiters as abandoned ones, and the thread's own object is signaled last.
\<close>

subsection \<open>What an operation leaves alone in the threads\<close>

text \<open>
  A view of the threads that the threads in \<open>T\<close> can change without being noticed, as long as their
  objects and their states stay. Threads outside \<open>T\<close> that do not wait are left alone by every wake-up.
\<close>

locale thread_view =
  fixes V :: "engine \<Rightarrow> 'a" and T :: "tid set"
  assumes view_threads: "threads w' = threads w \<Longrightarrow> V w' = V w"
    and view_upd: "t \<in> T \<Longrightarrow> (\<And>th. t_obj (f th) = t_obj th) \<Longrightarrow> (\<And>th. terminated (f th) = terminated th) \<Longrightarrow>
      V (upd_thread t f w) = V w"
    and view_waits: "V w' = V w \<Longrightarrow> t \<notin> T \<Longrightarrow> waits (thread_of w' t) = waits (thread_of w t)"
begin

lemma view_prims [simp]:
  "V (upd_sync s f w) = V w" "V (failed w) = V w" "V (assert_that b w) = V w" "V (set_err st w) = V w"
  "V (grab_sync s w) = V w" "V (grab_obj x w) = V w" "V (release_sync s w) = V w" "V (w\<lparr>errors := e\<rparr>) = V w"
  "V (w\<lparr>sent := m\<rparr>) = V w" "V (w\<lparr>handles := hs\<rparr>) = V w"
  by (rule view_threads, simp)+

lemma view_shrinks: "shrinks w w' \<Longrightarrow> V w' = V w"
  by (rule view_threads) (simp add: shrinks_def)

lemmas view_release_obj [simp] = view_shrinks [OF shrinks_release_obj]

lemma view_sync_satisfied: "sync_satisfied s d t wt w = (wt', w') \<Longrightarrow> t \<in> T \<Longrightarrow> V w' = V w"
  by (auto simp: sync_satisfied_def mutex_sync_satisfied_def do_grab_def view_upd add_mutex_def
      semaphore_sync_satisfied_def Let_def split: sync_data.splits)

lemma view_get_obj_sync: "get_obj_sync x w = (so, w') \<Longrightarrow> V w' = V w"
  by (auto simp: get_obj_sync_def split: option.splits)

lemma view_object_sync_satisfied:
  "object_sync_satisfied x t (wt, w) = (wt', w') \<Longrightarrow> t \<in> T \<Longrightarrow> V w' = V w"
  by (auto simp: object_sync_satisfied_def view_sync_satisfied view_get_obj_sync split: prod.splits option.splits)

lemma view_satisfy_all: "satisfy_all xs t (wt, w) = (wt', w') \<Longrightarrow> t \<in> T \<Longrightarrow> V w' = V w"
proof (induction xs arbitrary: wt w)
  case (Cons x xs)
  obtain wt1 w1 where 1: "object_sync_satisfied x t (wt, w) = (wt1, w1)"
    by fastforce
  with Cons show ?case
    by (simp add: view_object_sync_satisfied [OF 1])
qed simp

lemma view_satisfy_wait: "satisfy_wait t st wt w = (st', w') \<Longrightarrow> t \<in> T \<Longrightarrow> V w' = V w"
  by (auto simp: satisfy_wait_def Let_def split: if_splits prod.splits
      dest: view_satisfy_all view_object_sync_satisfied)

lemma view_remove_queue [simp]: "V (object_sync_remove_queue x e w) = V w"
  by (auto simp: object_sync_remove_queue_def split: prod.splits option.splits dest: view_get_obj_sync)

lemma view_leave_queues [simp]: "V (leave_queues t d i xs w) = V w"
  by (induction t d i xs w rule: leave_queues.induct) simp_all

lemma view_end_wait: "t \<in> T \<Longrightarrow> V (snd (end_wait t st w)) = V w"
proof (cases "waits (thread_of w t)")
  case (Cons wt rest)
  assume t: "t \<in> T"
  let ?w1 = "upd_thread t (\<lambda>th. th\<lparr>waits := rest\<rparr>) w"
  obtain st1 w2 where 2: "satisfy_wait t st wt ?w1 = (st1, w2)"
    by fastforce
  with Cons t show ?thesis
    by (simp add: end_wait_def view_satisfy_wait [OF 2] view_upd)
qed (simp add: end_wait_def)

lemma view_check_wait: "t \<in> T \<Longrightarrow> V (snd (check_wait t w)) = V w"
proof (cases "waits (thread_of w t)")
  case (Cons wt rest)
  assume t: "t \<in> T"
  obtain r1 w1 where 1: "check_objects wt t w = (r1, w1)"
    by fastforce
  then have "threads w1 = threads w"
    by (auto simp: check_objects_def split: if_splits prod.splits dest: threads_all_signaled threads_first_signaled)
  then have "V w1 = V w"
    by (rule view_threads)
  with Cons 1 t show ?thesis
    by (simp add: check_wait_def Let_def view_upd split: option.split)
qed (simp add: check_wait_def)

lemma view_send: "t \<in> T \<Longrightarrow> V (send_thread_wakeup t ck st w) = V w"
  by (simp add: send_thread_wakeup_def view_upd split: option.split)

lemma view_end_and_send: "t \<in> T \<Longrightarrow> V (end_and_send t st w) = V w"
  using view_end_wait [of t st w] by (cases "end_wait t st w") (simp add: end_and_send_def Let_def view_send)

lemma view_wake_thread: "t \<in> T \<Longrightarrow> V (snd (wake_thread t w)) = V w"
proof (induction t w rule: wake_thread.induct)
  case (1 t w)
  obtain r w1 where c: "check_wait t w = (r, w1)"
    by fastforce
  then have "V w1 = V w"
    using view_check_wait [OF 1(2), of w] by simp
  with 1(1) [OF _ c [symmetric]] c 1(2) view_end_and_send [OF 1(2)] show ?case
    by (auto simp: wake_thread.simps [of t w] split: option.split prod.split)
qed

lemma view_wake_up_loop:
  "(\<And>u. u \<notin> T \<Longrightarrow> waits (thread_of w u) = []) \<Longrightarrow> V (wake_up_loop s most es w) = V w"
proof (induction s most es w rule: wake_up_loop.induct)
  case (2 s most e es w)
  obtain n w1 where 1: "wake_thread (fst e) w = (n, w1)"
    by fastforce
  have v: "V w1 = V w"
  proof (cases "fst e \<in> T")
    case True
    then show ?thesis
      using view_wake_thread [of "fst e" w] 1 by simp
  next
    case False
    with 2(3) 1 show ?thesis
      by (simp add: wake_thread.simps [of "fst e" w])
  qed
  then have "waits (thread_of w1 u) = []" if "u \<notin> T" for u
    using view_waits [OF v that] 2(3) [OF that] by simp
  with 2(1,2) [OF 1 [symmetric]] 1 v show ?case
    by (auto simp: wake_up_loop.simps(2) [of s most e])
qed simp

lemma view_wake_up: "(\<And>u. u \<notin> T \<Longrightarrow> waits (thread_of w u) = []) \<Longrightarrow> V (wake_up s most w) = V w"
  by (simp add: wake_up_def view_wake_up_loop split: option.split)

lemma view_event_sync_signal:
  "(\<And>u. u \<notin> T \<Longrightarrow> waits (thread_of w u) = []) \<Longrightarrow> V (event_sync_signal s b w) = V w"
  by (simp add: event_sync_signal_def Let_def view_wake_up split: option.split sync_data.split)

lemma view_set_event:
  assumes "\<And>u. u \<notin> T \<Longrightarrow> waits (thread_of w u) = []"
  shows "V (set_event x w) = V w" and "V (reset_event x w) = V w"
  using view_event_sync_signal [OF assms]
  by (simp_all add: set_event_def reset_event_def signal_sync_def reset_sync_def split: option.split)

end

subsection \<open>The object of a thread\<close>

text \<open>No operation but the death of a thread changes its object or its state.\<close>

definition idents :: "engine \<Rightarrow> (oid \<times> bool) list" where
  "idents w = map (\<lambda>th. (t_obj th, terminated th)) (threads w)"

interpretation idents: thread_view idents UNIV
proof unfold_locales
  fix t w and f :: "thread \<Rightarrow> thread"
  assume f: "\<And>th. t_obj (f th) = t_obj th" "\<And>th. terminated (f th) = terminated th"
  show "idents (upd_thread t f w) = idents w"
  proof (cases "t < length (threads w)")
    case True
    then show ?thesis
      by (simp add: idents_def upd_thread_def map_update f thread_of_def list_update_same_conv [THEN iffD2])
  qed (simp add: idents_def upd_thread_def list_update_beyond)
qed (simp_all add: idents_def)

interpretation others: thread_view "\<lambda>w. thread_of w u" "{t. t \<noteq> u}" for u
  by unfold_locales (simp_all add: thread_of_def upd_thread_def)

lemmas idents_upd_thread = idents.view_upd [OF UNIV_I]
lemmas idents_shrinks = idents.view_shrinks

lemma idents_views [simp]:
  "idents (snd (end_wait t st w)) = idents w" "idents (snd (check_wait t w)) = idents w"
  "idents (send_thread_wakeup t ck st w) = idents w" "idents (snd (wake_thread t w)) = idents w"
  "idents (wake_up s most w) = idents w" "idents (event_sync_signal s b w) = idents w"
  "idents (set_event x w) = idents w" "idents (reset_event x w) = idents w"
  by (rule idents.view_end_wait idents.view_check_wait idents.view_send idents.view_wake_thread
      idents.view_wake_up idents.view_event_sync_signal idents.view_set_event; simp)+

lemma idents_do_release [simp]: "idents (snd (do_release s t n w)) = idents w"
  by (simp add: do_release_def Let_def idents_upd_thread remove_mutex_def split: option.split sync_data.split)

lemma idents_release_semaphore [simp]: "idents (snd (snd (release_semaphore s n w))) = idents w"
  by (simp add: release_semaphore_def Let_def split: option.split sync_data.split)

lemma idents_get_handle_object: "get_handle_object p h acc ops w = (r, w1) \<Longrightarrow> idents w1 = idents w"
  by (rule idents_shrinks [OF shrinks_get_handle_object])

lemma idents_event_op [simp]: "idents (snd (event_op t h op w)) = idents w"
  by (auto simp: event_op_def Let_def split: prod.split option.split sync_data.split dest!: idents_get_handle_object)

lemma idents_query_event [simp]: "idents (snd (query_event t h w)) = idents w"
  by (auto simp: query_event_def split: prod.split option.split sync_data.split dest!: idents_get_handle_object)

lemma idents_release_mutex [simp]: "idents (snd (release_mutex t h w)) = idents w"
  by (auto simp: release_mutex_def split: prod.split option.split sync_data.split dest!: idents_get_handle_object)

lemma idents_query_mutex [simp]: "idents (snd (query_mutex t h w)) = idents w"
  by (auto simp: query_mutex_def split: prod.split option.split sync_data.split dest!: idents_get_handle_object)

lemma idents_release_semaphore_request [simp]: "idents (snd (release_semaphore_request t h n w)) = idents w"
proof -
  have "idents w2 = idents w1" if "release_semaphore s n w1 = (prev, ok, w2)" for s w1 prev ok w2
    using that idents_release_semaphore [of s n w1] by simp
  then show ?thesis
    by (auto simp: release_semaphore_request_def split: prod.split option.split dest!: idents_get_handle_object)
qed

lemma idents_query_semaphore [simp]: "idents (snd (query_semaphore t h w)) = idents w"
  by (auto simp: query_semaphore_def split: prod.split option.split sync_data.split dest!: idents_get_handle_object)

lemma idents_signals [simp]:
  "idents (snd (event_signal x a w)) = idents w" "idents (snd (mutex_signal t x a w)) = idents w"
  "idents (snd (semaphore_signal x a w)) = idents w"
  by (simp_all add: event_signal_def mutex_signal_def semaphore_signal_def split: option.split)

lemma idents_signal_object [simp]: "idents (snd (signal_object t h w)) = idents w"
proof -
  let ?p = "process (thread_of w t)"
  obtain r w1 where g: "get_handle_object ?p h 0 None w = (r, w1)"
    by fastforce
  show ?thesis
  proof (cases r)
    case (Some x)
    let ?step = "case map_option o_ops (objs w1 x) of
        Some Event_ops \<Rightarrow> event_signal x (handle_access w1 ?p h) w1
      | Some Mutex_ops \<Rightarrow> mutex_signal t x (handle_access w1 ?p h) w1
      | Some Semaphore_ops \<Rightarrow> semaphore_signal x (handle_access w1 ?p h) w1
      | _ \<Rightarrow> (False, set_err STATUS_OBJECT_TYPE_MISMATCH w1)"
    have "idents (snd ?step) = idents w1"
      by (simp split: option.split object_ops.split)
    with g Some show ?thesis
      by (cases ?step) (simp add: signal_object_def Let_def idents_get_handle_object [OF g])
  qed (use g idents_get_handle_object [OF g] in \<open>simp add: signal_object_def\<close>)
qed

lemma idents_enter_queues: "enter_queues t d i xs w = (b, w') \<Longrightarrow> idents w' = idents w"
proof (induction t d i xs w rule: enter_queues.induct)
  case (2 t d i x xs w)
  obtain c w1 where c: "object_sync_add_queue x (t, d, i) w = (c, w1)"
    by fastforce
  then have w1: "idents w1 = idents w"
    by (auto simp: object_sync_add_queue_def split: prod.splits option.splits dest: idents.view_get_obj_sync)
  show ?case
  proof (cases c)
    case True
    with 2(1) [OF c [symmetric]] 2(2) c w1 show ?thesis
      by (simp add: idents_upd_thread)
  next
    case False
    with 2(2) c have "w' = snd (end_wait t (get_err w1) w1)"
      by simp
    with w1 show ?thesis
      by simp
  qed
qed simp

lemma idents_wait_on: "wait_on t op xs fl timeout w = (b, w') \<Longrightarrow> idents w' = idents w"
  by (auto simp: wait_on_def Let_def idents_upd_thread split: prod.splits bool.splits dest!: idents_enter_queues)

lemma idents_get_objects: "get_objects p hs acc w = (b, xs, w') \<Longrightarrow> idents w' = idents w"
  by (induction p hs acc w rule: get_objects.induct)
    (auto split: prod.splits option.splits dest!: idents_get_handle_object)

lemma idents_fold_release [simp]: "idents (fold release_obj xs w) = idents w"
  by (induction xs arbitrary: w) simp_all

lemma idents_wait_on_handles: "wait_on_handles t op hs fl timeout w = (b, w') \<Longrightarrow> idents w' = idents w"
  by (auto simp: wait_on_handles_def Let_def split: prod.splits if_splits dest!: idents_wait_on idents_get_objects)

lemma idents_finish_select [simp]: "idents (snd (finish_select t ck w)) = idents w"
proof -
  obtain r w1 where c: "check_wait t w = (r, w1)"
    by fastforce
  have "idents w2 = idents w1" if "end_wait t st w1 = (st1, w2)" for st st1 w2
    using idents_views(1) [of t st w1] that by simp
  moreover have "idents (upd_thread t (arm_wait ck) v) = idents v" for v
    by (rule idents_upd_thread) (simp_all add: arm_wait_def split: list.split)
  moreover have "idents w1 = idents w"
    using idents_views(2) [of t w] c by simp
  ultimately show ?thesis
    using c by (auto simp: finish_select_def split: option.split prod.split bool.split)
qed

lemma idents_select_on [simp]: "idents (snd (select_on t data ck fl timeout w)) = idents w"
proof -
  have w: "idents (snd (case wait_on_handles t op hs fl timeout w of
      (False, w1) \<Rightarrow> (True, w1) | (True, w1) \<Rightarrow> finish_select t ck w1)) = idents w" for op hs
    by (auto split: prod.split bool.split dest!: idents_wait_on_handles)
  have "idents (snd (case wait_on_handles t op hs fl timeout w of
      (False, w1) \<Rightarrow> (True, w1)
    | (True, w1) \<Rightarrow>
        if h \<noteq> 0 then
          (case signal_object t h w1 of
             (False, w2) \<Rightarrow> (True, snd (end_wait t (get_err w2) w2))
           | (True, w2) \<Rightarrow> if waits (thread_of w2 t) = [] then (True, w2) else finish_select t ck w2)
        else finish_select t ck w1)) = idents w" for op hs h
  proof -
    have "idents w2 = idents w1" if "signal_object t h w1 = (b, w2)" for b w1 w2
      using idents_signal_object [of t h w1] that by simp
    then show ?thesis
      by (auto split: prod.split bool.split dest!: idents_wait_on_handles)
  qed
  with w show ?thesis
    by (simp add: select_on_def wait_on_none)
qed


subsection \<open>Time-outs\<close>

lemma disarm_fields [simp]:
  "t_obj (disarm d th) = t_obj th" "terminated (disarm d th) = terminated th" "mutex_list (disarm d th) = mutex_list th"
  "map w_objs (waits (disarm d th)) = map w_objs (waits th)" "length (waits (disarm d th)) = length (waits th)"
  by (simp_all add: disarm_def Let_def map_update list_update_same_conv [THEN iffD2])

lemma disarm_ok:
  fixes t d
  assumes inv: "sync_inv K {#} H w" and room: "room {#} w"
  defines "w1 \<equiv> upd_thread t (disarm d) w"
  shows "sync_inv K {#} H w1" and "room {#} w1" and "subdued t w w1"
proof -
  have "map w_objs (stacks w ! t) = map w_objs (waits (disarm d (thread_of w t)))" if "t < length (stacks w)"
    using that by (simp add: thread_of_waits)
  then have en: "entries w1 = entries w"
    unfolding w1_def stacks_upd_thread by (rule entries_same_objs)
  have "wait_ok w wt" if "wt \<in> set (waits (thread_of w t))" for wt
    using inv_wait_ok [OF inv] that by (cases "waits (thread_of w t)") auto
  then have "\<forall>wt \<in> set (waits (disarm d (thread_of w t))). wait_ok w wt"
    by (auto simp: disarm_def Let_def wait_ok_def dest!: set_update_subset_insert [THEN subsetD] split: if_splits)
  then show "sync_inv K {#} H w1"
    unfolding w1_def using en by (intro inv_upd_waits [OF inv]) (simp_all add: w1_def)
  show "room {#} w1"
    by (rule room_shift [OF room]) (use en in \<open>simp_all add: w1_def sync_of_def fun_eq_iff\<close>)
  show "subdued t w w1"
    unfolding w1_def by (rule upd_thread_quiet)
qed


text \<open>The timer of the wait at depth \<open>d\<close> is armed.\<close>

definition armed :: "tid \<Rightarrow> nat \<Rightarrow> engine \<Rightarrow> bool" where
  "armed t d w \<longleftrightarrow>
     (let ws = waits (thread_of w t) in d < length ws \<and> w_user (ws ! (length ws - Suc d)))"

lemma thread_timeout_ok:
  assumes inv: "sync_inv None {#} H w" and room: "room {#} w" and a: "armed t d w"
  shows "sync_inv None {#} H (thread_timeout t d w)" and "room {#} (thread_timeout t d w)"
    and "subdued t w (thread_timeout t d w)"
    and "Suc d = length (waits (thread_of w t)) \<Longrightarrow> \<not> is_thread_suspended w (thread_of w t) \<Longrightarrow>
      wait_result (thread_timeout t d w) t = None"
proof -
  let ?w1 = "upd_thread t (disarm d) w"
  let ?th = "thread_of ?w1 t"
  note 1 = disarm_ok [OF inv room, of t d]
  have t: "t < length (threads w)"
    using a by (auto simp: armed_def thread_of_def idle_thread_def split: if_splits)
  then have th: "?th = disarm d (thread_of w t)"
    by (simp add: thread_of_upd_thread)
  have susp: "is_thread_suspended ?w1 ?th = is_thread_suspended w (thread_of w t)"
    by (simp add: th is_thread_suspended_def disarm_def Let_def)
  show "sync_inv None {#} H (thread_timeout t d w)" "room {#} (thread_timeout t d w)" "subdued t w (thread_timeout t d w)"
    "Suc d = length (waits (thread_of w t)) \<Longrightarrow> \<not> is_thread_suspended w (thread_of w t) \<Longrightarrow>
      wait_result (thread_timeout t d w) t = None"
  proof -
    have "sync_inv None {#} H (thread_timeout t d w) \<and> room {#} (thread_timeout t d w) \<and> subdued t w (thread_timeout t d w) \<and>
        (Suc d = length (waits (thread_of w t)) \<longrightarrow> \<not> is_thread_suspended w (thread_of w t) \<longrightarrow>
          wait_result (thread_timeout t d w) t = None)"
    proof (cases "Suc d \<noteq> length (waits ?th) \<or> is_thread_suspended ?w1 ?th")
      case True
      then have "thread_timeout t d w = ?w1"
        by (auto simp: thread_timeout_def Let_def)
      with 1 True susp show ?thesis
        by (auto simp: th)
    next
      case False
      then obtain wt rest where ws: "waits (thread_of w t) = wt # rest" "d = length rest"
        by (cases "waits (thread_of w t)") (auto simp: th)
      have ws1: "waits ?th = wt\<lparr>w_user := False\<rparr> # rest"
        unfolding th by (simp add: disarm_def ws)
      have ck: "w_cookie wt \<noteq> 0"
        using a inv_wait_ok(1) [OF inv ws(1)] by (simp add: armed_def ws wait_ok_def)
      have big: "64 \<le> unat (STATUS_TIMEOUT :: ntstatus)"
        by simp
      let ?w2 = "snd (end_wait t STATUS_TIMEOUT ?w1)"
      let ?w3 = "send_thread_wakeup t (w_cookie wt) STATUS_TIMEOUT ?w2"
      note 2 = cancel_wait_ok [OF 1(1,2) ws1 big]
      note 3 = send_ok [OF 2(1,2), of t "w_cookie wt" STATUS_TIMEOUT]
      obtain n w4 where w4: "wake_thread t ?w3 = (n, w4)"
        by fastforce
      have k: "woken None H t ?w3 n w4"
        by (rule wake_thread_ok [OF 3(1,2) w4])
      have "thread_timeout t d w = w4"
        using False ws1 ck w4 by (simp add: thread_timeout_def Let_def assert_that_def)
      with k subdued_trans [OF subdued_trans [OF 1(3) 2(3)] subdued_trans [OF 3(3)]] show ?thesis
        by (simp add: woken_def)
    qed
    then show "sync_inv None {#} H (thread_timeout t d w)" "room {#} (thread_timeout t d w)"
      "subdued t w (thread_timeout t d w)"
      "Suc d = length (waits (thread_of w t)) \<Longrightarrow> \<not> is_thread_suspended w (thread_of w t) \<Longrightarrow>
        wait_result (thread_timeout t d w) t = None"
      by simp_all
  qed
qed

lemma idents_thread_timeout [simp]: "idents (thread_timeout t d w) = idents w"
  by (simp add: thread_timeout_def Let_def idents_upd_thread)

subsection \<open>Suspension\<close>

lemma inv_upd_misc:
  assumes "sync_inv K {#} H w" and "room {#} w"
    and "\<And>th. t_obj (f th) = t_obj th" "\<And>th. terminated (f th) = terminated th"
      "\<And>th. waits (f th) = waits th" "\<And>th. mutex_list (f th) = mutex_list th"
  shows "sync_inv K {#} H (upd_thread t f w)" and "room {#} (upd_thread t f w)"
  using inv_upd_thread [OF assms(1,3-6)] assms(2,5)
  by (simp_all add: room_outer [of "upd_thread t f w" w] stacks_upd_thread_same)

lemma stop_thread_ok:
  assumes inv: "sync_inv None {#} H w" and room: "room {#} w"
  shows "sync_inv None {#} H (stop_thread t w)" and "room {#} (stop_thread t w)" and "evolve w (stop_thread t w)"
    and "idents (stop_thread t w) = idents w"
proof -
  let ?f = "\<lambda>th :: thread. th\<lparr>ctx := Some \<lparr>cooperative = False, native_flags = 0, wow_flags = 0\<rparr>\<rparr>"
  have e: "sync_inv None {#} H (w\<lparr>errors := e\<rparr>)" "room {#} (w\<lparr>errors := e\<rparr>)" "evolve w (w\<lparr>errors := e\<rparr>)" for e
    using set_env_ok [OF inv, where e = e] room by (simp_all add: subdued_evolve)
  have u: "sync_inv None {#} H (upd_thread t ?f (w\<lparr>errors := e\<rparr>))" "room {#} (upd_thread t ?f (w\<lparr>errors := e\<rparr>))"
      "evolve w (upd_thread t ?f (w\<lparr>errors := e\<rparr>))" for e
    using inv_upd_misc [OF e(1,2), of ?f] evolve_trans [OF e(3) subdued_evolve [OF upd_thread_quiet]] by simp_all
  show "sync_inv None {#} H (stop_thread t w)" "room {#} (stop_thread t w)" "evolve w (stop_thread t w)"
    "idents (stop_thread t w) = idents w"
    using inv room e u by (auto simp: stop_thread_def idents_upd_thread split: prod.split bool.split)
qed

lemma suspend_thread_ok:
  assumes inv: "sync_inv None {#} H w" and room: "room {#} w"
  shows "sync_inv None {#} H (snd (suspend_thread t w))" and "room {#} (snd (suspend_thread t w))"
    and "evolve w (snd (suspend_thread t w))" and "idents (snd (suspend_thread t w)) = idents w"
proof -
  let ?f = "\<lambda>th :: thread. th\<lparr>suspend := Suc (suspend th)\<rparr>"
  let ?w1 = "if \<not> is_thread_suspended w (thread_of w t) then stop_thread t w else w"
  have 1: "sync_inv None {#} H ?w1" "room {#} ?w1" "evolve w ?w1" "idents ?w1 = idents w"
    using stop_thread_ok [OF inv room] inv room by simp_all
  have 2: "sync_inv None {#} H (upd_thread t ?f ?w1)" "room {#} (upd_thread t ?f ?w1)"
    "evolve w (upd_thread t ?f ?w1)" "idents (upd_thread t ?f ?w1) = idents w"
    using inv_upd_misc [OF 1(1,2), of ?f] evolve_trans [OF 1(3) subdued_evolve [OF upd_thread_quiet]] 1(4)
    by (simp_all add: idents_upd_thread)
  show "sync_inv None {#} H (snd (suspend_thread t w))" "room {#} (snd (suspend_thread t w))"
    "evolve w (snd (suspend_thread t w))" "idents (snd (suspend_thread t w)) = idents w"
    using 2 inv room subdued_evolve [OF subdued_set_err] by (simp_all add: suspend_thread_def Let_def)
qed

lemma resume_thread_ok:
  assumes inv: "sync_inv None {#} H w" and room: "room {#} w"
  shows "sync_inv None {#} H (snd (resume_thread t w))" and "room {#} (snd (resume_thread t w))"
    and "subdued t w (snd (resume_thread t w))" and "idents (snd (resume_thread t w)) = idents w"
    and "0 < suspend (thread_of w t) \<Longrightarrow> \<not> is_thread_suspended (snd (resume_thread t w)) (thread_of (snd (resume_thread t w)) t) \<Longrightarrow>
      wait_result (snd (resume_thread t w)) t = None"
proof -
  let ?f = "\<lambda>th :: thread. th\<lparr>suspend := suspend th - 1\<rparr>"
  let ?w1 = "upd_thread t ?f w"
  have 1: "sync_inv None {#} H ?w1" "room {#} ?w1" "subdued t w ?w1" "idents ?w1 = idents w"
    using inv_upd_misc [OF inv room, of ?f] upd_thread_quiet by (simp_all add: idents_upd_thread)
  obtain n w2 where 2: "wake_thread t ?w1 = (n, w2)"
    by fastforce
  have k: "woken None H t ?w1 n w2"
    by (rule wake_thread_ok [OF 1(1,2) 2])
  have i2: "idents w2 = idents w"
    using idents_views(4) [of t ?w1] unfolding 2 1(4) snd_conv .
  show "sync_inv None {#} H (snd (resume_thread t w))" "room {#} (snd (resume_thread t w))"
    "subdued t w (snd (resume_thread t w))" "idents (snd (resume_thread t w)) = idents w"
    "0 < suspend (thread_of w t) \<Longrightarrow> \<not> is_thread_suspended (snd (resume_thread t w)) (thread_of (snd (resume_thread t w)) t) \<Longrightarrow>
      wait_result (snd (resume_thread t w)) t = None"
    using inv room 1 k 2 i2 subdued_trans [OF 1(3)]
    by (auto simp: resume_thread_def Let_def woken_def split: if_splits)
qed


subsection \<open>The death of a thread\<close>

lemma owned_mutex:
  assumes inv: "sync_inv K L H w" and s: "s \<in> set (mutex_list (thread_of w t))"
  obtains sy m where "syncs w s = Some sy" and "s_data sy = Mutex_sync m" and "owner m = Some t" and "recursion m \<noteq> 0"
proof -
  have "count_list (mutex_list (thread_of w t)) s = of_bool (owned_by w s = Some t)"
    using inv unfolding sync_inv_def mutexes_ok_def by blast
  then have "owned_by w s = Some t"
    using s by (cases "owned_by w s = Some t") (auto simp: count_list_0_iff)
  then obtain sy where sy: "syncs w s = Some sy" "owner_of (s_data sy) = Some t"
    by (auto simp: owned_by_def bind_eq_Some_conv)
  then obtain m where m: "syncs w s = Some sy" "s_data sy = Mutex_sync m" "owner m = Some t"
    by (cases "s_data sy") (auto simp: owner_of_def)
  then have "data_ok (Mutex_sync m)"
    using inv sync_okD unfolding sync_inv_def syncs_ok_def by metis
  with m that show ?thesis
    by (simp add: data_ok_def)
qed

lemma abandon_mutex_ok:
  assumes inv: "sync_inv None {#} H w" and room: "room {#} w" and s: "s \<in> set (mutex_list (thread_of w t))"
  shows "fst (abandon_mutex s t w)" and "upholds H w (snd (abandon_mutex s t w))"
    and "idents (snd (abandon_mutex s t w)) = idents w"
proof -
  obtain sy m where sy: "syncs w s = Some sy" "s_data sy = Mutex_sync m" and o: "owner m = Some t" "recursion m \<noteq> 0"
    using owned_mutex [OF inv s] .
  let ?m = "m\<lparr>abandoned := True\<rparr>"
  let ?w1 = "put_data s (Mutex_sync ?m) w"
  have w1: "upd_sync s set_abandoned w = ?w1"
    using sy by (intro upd_sync_cong) (auto simp: set_abandoned_def)
  have sh: "shape (Mutex_sync ?m) = shape (s_data sy)"
    by (simp add: sy shape_def)
  have i1: "sync_inv None {#} H ?w1"
    using sh sy o by (intro inv_put_data [OF inv sy(1)]) (simp_all add: owner_of_def data_ok_def)
  have r1: "room {#} ?w1"
    using sy by (intro room_put_data [OF room sy(1)]) auto
  have "settled ?w1" if st: "settled w"
  proof (rule settled_mono [OF st])
    fix x u
    assume "sig ?w1 x u"
    then show "sig w x u"
      using sy by (auto simp: sig_put_data sync_signaled_def mutex_sync_signaled_def split: if_splits)
        (auto simp: sig_alt sync_signaled_def mutex_sync_signaled_def)
  qed simp_all
  then have u1: "upholds H w ?w1"
    using i1 r1 evolve_put_data [OF sy(1) sh] by (simp add: upholds_def)
  have sy1: "syncs ?w1 s = Some (sy\<lparr>s_data := Mutex_sync ?m\<rparr>)"
    by (simp add: sy)
  have a: "abandon_mutex s t w = do_release s t (recursion m) ?w1"
    using sy o w1 by (simp add: abandon_mutex_def mutex_at_def assert_that_def)
  show "fst (abandon_mutex s t w)"
    using o by (simp add: a do_release_def sy Let_def)
  have "upholds H ?w1 (snd (do_release s t (recursion m) ?w1))"
    by (rule do_release_upholds [OF i1 r1 sy1, where m = ?m]) simp_all
  then show "upholds H w (snd (abandon_mutex s t w))"
    unfolding a by (rule upholds_trans [OF u1])
  show "idents (snd (abandon_mutex s t w)) = idents w"
    by (simp add: a)
qed

lemma abandon_mutexes_ok:
  assumes "sync_inv None {#} H w" and "room {#} w"
  shows "upholds H w (abandon_mutexes t w) \<and> idents (abandon_mutexes t w) = idents w \<and>
    mutex_list (thread_of (abandon_mutexes t w) t) = []"
  using assms
proof (induction t w rule: abandon_mutexes.induct)
  case (1 t w)
  show ?case
  proof (cases "mutex_list (thread_of w t)")
    case Nil
    with 1(2,3) upholds_refl show ?thesis
      by (simp add: abandon_mutexes.simps [of t w])
  next
    case (Cons s ss)
    then have "s \<in> set (mutex_list (thread_of w t))"
      by simp
    note a = abandon_mutex_ok [OF 1(2,3) this]
    obtain w1 where w1: "abandon_mutex s t w = (True, w1)"
      using a(1) by (metis prod.collapse)
    have "abandon_mutexes t w = abandon_mutexes t w1"
      using Cons w1 by (simp add: abandon_mutexes.simps [of t w])
    moreover note 1(1) [OF Cons w1 [symmetric] TrueI]
    ultimately show ?thesis
      using a(2,3) w1 upholdsD(1,2) upholds_trans by (metis snd_conv)
  qed
qed

lemma end_all_waits_ok:
  assumes "sync_inv K {#} H w" and "room {#} w"
  shows "sync_inv K {#} H (end_all_waits t w) \<and> room {#} (end_all_waits t w) \<and> subdued t w (end_all_waits t w) \<and>
    idents (end_all_waits t w) = idents w \<and> waits (thread_of (end_all_waits t w) t) = []"
  using assms
proof (induction t w rule: end_all_waits.induct)
  case (1 t w)
  show ?case
  proof (cases "waits (thread_of w t)")
    case Nil
    with 1(2,3) show ?thesis
      by (simp add: end_all_waits.simps [of t w])
  next
    case (Cons wt rest)
    have "64 \<le> unat (STATUS_THREAD_IS_TERMINATING :: ntstatus)"
      by simp
    note c = cancel_wait_ok [OF 1(2,3) Cons this]
    have "waits (thread_of w t) \<noteq> []"
      using Cons by simp
    from 1(1) [OF this c(1,2)] show ?thesis
      using Cons subdued_trans [OF c(3)] by (simp add: end_all_waits.simps [of t w])
  qed
qed


lemma live_threads_terminate:
  assumes t: "t < length (threads w)" and a: "\<not> terminated (thread_of w t)"
  shows "live_threads w = add_mset (t_obj (thread_of w t)) (live_threads (upd_thread t (\<lambda>th. th\<lparr>terminated := True\<rparr>) w))"
proof -
  let ?a = "threads w ! t"
  have th: "thread_of w t = ?a"
    using t by (simp add: thread_of_def)
  obtain M where m: "mset (threads w) = add_mset ?a M"
    using t by (meson multi_member_split nth_mem_mset)
  have "mset (threads (upd_thread t (\<lambda>th. th\<lparr>terminated := True\<rparr>) w)) = add_mset (?a\<lparr>terminated := True\<rparr>) M"
    using t by (simp add: upd_thread_def mset_update th m)
  with m a show ?thesis
    by (simp add: live_threads_def th)
qed

lemma terminate_ok:
  assumes inv: "sync_inv K {#} H w" and room: "room {#} w" and t: "t < length (threads w)" and a: "\<not> terminated (thread_of w t)"
  defines "w1 \<equiv> upd_thread t (\<lambda>th. th\<lparr>terminated := True\<rparr>) w"
  shows "sync_inv K {#} (add_mset (t_obj (thread_of w t)) H) w1" and "room {#} w1" and "subdued t w w1"
    and "idents w1 = (idents w)[t := (t_obj (thread_of w t), True)]" and "waits (thread_of w1 t) = waits (thread_of w t)"
proof -
  let ?x = "t_obj (thread_of w t)"
  have st: "stacks w1 = stacks w"
    unfolding w1_def by (rule stacks_upd_thread_same) simp
  have ho: "holders w1 + add_mset ?x H = holders w + H"
    using live_threads_terminate [OF t a] st by (simp add: holders_def w1_def)
  have ro: "refs_of w1 = refs_of w"
    by (simp add: refs_of_def fun_eq_iff w1_def)
  have "refs_ok (add_mset ?x H) w1"
    unfolding refs_ok_def ho ro using inv by (simp add: sync_inv_def refs_ok_def w1_def)
  moreover have "mutexes_ok w1"
    unfolding w1_def using inv by (intro mutexes_ok_upd_thread) (simp_all add: sync_inv_def)
  moreover have "queues_ok {#} w1" "waits_ok w1"
    using inv unfolding sync_inv_def queues_ok_def waits_ok_def wait_ok_def st
    by (simp_all add: w1_def on_sync_def [abs_def] is_semaphore_def [abs_def])
  ultimately show "sync_inv K {#} (add_mset ?x H) w1"
    using inv by (simp add: sync_inv_def w1_def)
  show "room {#} w1"
    using room by (subst room_outer [of _ w]) (use st in \<open>simp_all add: w1_def\<close>)
  show "subdued t w w1"
    unfolding w1_def by (rule upd_thread_quiet)
  show "idents w1 = (idents w)[t := (?x, True)]" "waits (thread_of w1 t) = waits (thread_of w t)"
    using t by (simp_all add: w1_def idents_def upd_thread_def map_update thread_of_def)
qed

lemma settled_but: "(\<And>u. u \<noteq> t \<Longrightarrow> wait_result w u = None) \<Longrightarrow> subdued t w w' \<Longrightarrow> wait_result w' t = None \<Longrightarrow> settled w'"
  using wait_result_mono [of w' _ w] unfolding settled_def subdued_def by metis

lemma wait_result_idle: "waits (thread_of w t) = [] \<Longrightarrow> wait_result w t = None"
  by (simp add: wait_result_def)

lemma wake_up_idle:
  assumes "waits (thread_of w t) = []"
  shows "thread_of (wake_up s most w) t = thread_of w t"
  by (rule others.view_wake_up) (use assms in simp)

lemma do_release_idle:
  assumes "waits (thread_of w t) = []"
  shows "waits (thread_of (snd (do_release s u n w)) t) = []"
proof -
  have "waits (thread_of (upd_thread u (remove_mutex s) w) t) = []"
    using assms by (auto simp: thread_of_upd_thread remove_mutex_def)
  then have "waits (thread_of (wake_up s 0 (upd_sync s f (upd_thread u (remove_mutex s) w))) t) = []" for f
    by (subst wake_up_idle) simp_all
  with assms show ?thesis
    by (simp add: do_release_def Let_def split: option.split sync_data.split)
qed

lemma abandon_mutexes_idle: "waits (thread_of w t) = [] \<Longrightarrow> waits (thread_of (abandon_mutexes t w) t) = []"
proof (induction t w rule: abandon_mutexes.induct)
  case (1 t w)
  show ?case
  proof (cases "mutex_list (thread_of w t)")
    case Nil
    with 1(2) show ?thesis
      by (simp add: abandon_mutexes.simps [of t w])
  next
    case (Cons s ss)
    obtain ok w1 where a: "abandon_mutex s t w = (ok, w1)"
      by fastforce
    have "waits (thread_of (snd (abandon_mutex s t w)) t) = []"
      using 1(2) by (simp add: abandon_mutex_def do_release_idle split: option.split)
    then have w1: "waits (thread_of w1 t) = []"
      by (simp add: a)
    with Cons a 1(1) [OF Cons a [symmetric] _ w1] show ?thesis
      by (simp add: abandon_mutexes.simps [of t w])
  qed
qed

lemma kill_thread_parts:
  assumes inv: "sync_inv None {#} H w" and room: "room {#} w" and t: "t < length (threads w)" and a: "\<not> terminated (thread_of w t)"
  obtains w2 where "sync_inv None {#} (add_mset (t_obj (thread_of w t)) H) w2" and "room {#} w2" and "subdued t w w2"
    and "idents w2 = (idents w)[t := (t_obj (thread_of w t), True)]" and "waits (thread_of w2 t) = []"
    and "kill_thread t code w = release_obj (t_obj (thread_of w t)) (set_event (t_obj (thread_of w t)) (abandon_mutexes t w2))"
proof -
  let ?x = "t_obj (thread_of w t)"
  let ?w1 = "upd_thread t (\<lambda>th. th\<lparr>terminated := True\<rparr>) w" and ?H = "add_mset ?x H"
  note 1 = terminate_ok [OF inv room t a]
  let ?e = "end_all_waits t ?w1"
  have e: "sync_inv None {#} ?H ?e" "room {#} ?e" "subdued t ?w1 ?e" "idents ?e = idents ?w1" "waits (thread_of ?e t) = []"
    using end_all_waits_ok [OF 1(1,2), of t] by simp_all
  let ?s = "send_thread_wakeup t 0 code ?e"
  note s = send_ok [OF e(1,2), of t 0 code]
  have "waits (thread_of ?s t) = []"
    using e(5) unfolding thread_of_waits by (simp split: if_splits)
  then show ?thesis
  proof (cases "waits (thread_of w t) = []")
    case True
    with a 1 show ?thesis
      by (intro that [of ?w1]) (simp_all add: kill_thread_def Let_def)
  next
    case False
    with a 1 e s \<open>waits (thread_of ?s t) = []\<close> subdued_trans [OF 1(3) subdued_trans [OF e(3) s(3)]] show ?thesis
      by (intro that [of ?s]) (simp_all add: kill_thread_def Let_def)
  qed
qed

lemma kill_thread_ok:
  assumes inv: "sync_inv None {#} H w" and room: "room {#} w" and t: "t < length (threads w)"
    and a: "\<not> terminated (thread_of w t)" and k: "has_kind is_event w (t_obj (thread_of w t))"
  shows "upholds H w (kill_thread t code w)"
    and "idents (kill_thread t code w) = (idents w)[t := (t_obj (thread_of w t), True)]"
    and "waits (thread_of (kill_thread t code w) t) = []" and "mutex_list (thread_of (kill_thread t code w) t) = []"
proof -
  let ?x = "t_obj (thread_of w t)"
  let ?H = "add_mset ?x H"
  obtain w2 where 2: "sync_inv None {#} ?H w2" "room {#} w2" "subdued t w w2"
      "idents w2 = (idents w)[t := (?x, True)]" "waits (thread_of w2 t) = []"
      "kill_thread t code w = release_obj ?x (set_event ?x (abandon_mutexes t w2))"
    by (rule kill_thread_parts [OF inv room t a])
  have u2: "upholds ?H w w2"
    using 2(1-3) subdued_evolve settled_subdued [OF _ 2(3) wait_result_idle [OF 2(5)]] by (simp add: upholds_def)
  let ?w3 = "abandon_mutexes t w2"
  have b: "upholds ?H w2 ?w3" "idents ?w3 = idents w2" "mutex_list (thread_of ?w3 t) = []"
    using abandon_mutexes_ok [OF 2(1,2), of t] by simp_all
  note u3 = upholds_trans [OF u2 b(1)]
  note 3 = upholdsD [OF u3]
  have "has_kind is_event ?w3 ?x"
    by (rule has_kind_evolve [OF k 3(3,1) _ kind_shape(1)]) simp_all
  then have "upholds ?H ?w3 (set_event ?x ?w3)"
    by (intro set_event_upholds(1) [OF 3(1,2)]) simp_all
  from upholds_release [OF upholds_trans [OF u3 this]] show "upholds H w (kill_thread t code w)"
    by (simp add: 2(6))
  show "idents (kill_thread t code w) = (idents w)[t := (?x, True)]"
    by (simp add: 2(4,6) b(2))
  have w3: "waits (thread_of ?w3 t) = []"
    by (rule abandon_mutexes_idle [OF 2(5)])
  have "thread_of (set_event ?x ?w3) t = thread_of ?w3 t"
    by (rule others.view_set_event) (use w3 in simp)
  then have "thread_of (kill_thread t code w) t = thread_of ?w3 t"
    by (simp add: 2(6) others.view_release_obj)
  then show "waits (thread_of (kill_thread t code w) t) = []" "mutex_list (thread_of (kill_thread t code w) t) = []"
    using w3 b(3) by simp_all
qed

end
