(* ===== verification/Sync_Run.thy ===== *)
theory Sync_Run
  imports Sync_Life
begin

text \<open>
  Runs of the engine: the requests of the clients, the timers, the clock and the deaths of threads, in
  any order. Every state a run reaches keeps the invariant, so no assertion of the server fails and no
  freed object is touched.
\<close>

subsection \<open>Steps\<close>

datatype request =
    Create_event tid access bool bool "obj_handle option" oid sid
  | Create_mutex tid access bool "obj_handle option" oid sid
  | Create_semaphore tid access "32 word" "32 word" "obj_handle option" oid sid
  | Close_handle tid obj_handle
  | Event_op tid obj_handle nat
  | Query_event tid obj_handle
  | Release_mutex tid obj_handle
  | Query_mutex tid obj_handle
  | Release_semaphore tid obj_handle "32 word"
  | Query_semaphore tid obj_handle
  | Select tid "32 word list" cookie "32 word" abstime
  | Suspend_thread tid
  | Resume_thread tid
  | Kill_thread tid ntstatus
  | Timer tid nat
  | Clock abstime abstime

fun perform :: "request \<Rightarrow> engine \<Rightarrow> engine" where
  "perform (Create_event t acc man initial slot x s) w = snd (create_event t acc man initial slot x s w)"
| "perform (Create_mutex t acc owned slot x s) w = snd (create_mutex t acc owned slot x s w)"
| "perform (Create_semaphore t acc initial most slot x s) w = snd (create_semaphore t acc initial most slot x s w)"
| "perform (Close_handle t h) w = snd (close_object_handle (process (thread_of w t)) h w)"
| "perform (Event_op t h op) w = snd (event_op t h op w)"
| "perform (Query_event t h) w = snd (query_event t h w)"
| "perform (Release_mutex t h) w = snd (release_mutex t h w)"
| "perform (Query_mutex t h) w = snd (query_mutex t h w)"
| "perform (Release_semaphore t h n) w = snd (release_semaphore_request t h n w)"
| "perform (Query_semaphore t h) w = snd (query_semaphore t h w)"
| "perform (Select t data ck fl timeout) w = snd (select_on t data ck fl timeout w)"
| "perform (Suspend_thread t) w = snd (suspend_thread t w)"
| "perform (Resume_thread t) w = snd (resume_thread t w)"
| "perform (Kill_thread t code) w = kill_thread t code w"
| "perform (Timer t d) w = thread_timeout t d w"
| "perform (Clock now ticks) w = w\<lparr>current_time := now, monotonic_time := ticks\<rparr>"

text \<open>
  The allocator gives fresh addresses, a timer fires only when it is armed, and a client names no
  semaphore twice in one wait for all objects.
\<close>

fun allowed :: "request \<Rightarrow> engine \<Rightarrow> bool" where
  "allowed (Create_event t acc man initial slot x s) w \<longleftrightarrow> objs w x = None \<and> syncs w s = None"
| "allowed (Create_mutex t acc owned slot x s) w \<longleftrightarrow> objs w x = None \<and> syncs w s = None \<and> t < length (threads w)"
| "allowed (Create_semaphore t acc initial most slot x s) w \<longleftrightarrow> objs w x = None \<and> syncs w s = None"
| "allowed (Select t data ck fl timeout) w \<longleftrightarrow> select_ok t data ck w"
| "allowed (Kill_thread t code) w \<longleftrightarrow> t < length (threads w)"
| "allowed (Timer t d) w \<longleftrightarrow> armed t d w"
| "allowed _ w \<longleftrightarrow> True"

inductive reachable :: "engine \<Rightarrow> engine \<Rightarrow> bool" for w0 where
  reach_start: "reachable w0 w0"
| reach_step: "reachable w0 w \<Longrightarrow> refs_low 129 w \<Longrightarrow> allowed r w \<Longrightarrow> reachable w0 (perform r w)"

text \<open>A server with one thread for each entry of \<open>ps\<close>, which names its process, and no other object.\<close>

definition new_thread :: "pid \<Rightarrow> oid \<Rightarrow> thread" where
  "new_thread p x = idle_thread\<lparr>t_obj := x, process := p\<rparr>"

definition start :: "pid list \<Rightarrow> env \<Rightarrow> engine" where
  "start ps e =
     \<lparr>threads = map2 new_thread ps [0..<length ps],
      objs = (\<lambda>x. if x < length ps then Some \<lparr>o_refs = 1, o_ops = Other_ops, o_sync = Some x\<rparr> else None),
      syncs = (\<lambda>s. if s < length ps then
                 Some \<lparr>s_refs = 1, s_queue = [], s_data = Event_sync \<lparr>manual = True, signaled = False\<rparr>\<rparr> else None),
      handles = [], proc_suspend = (\<lambda>_. 0), current_time = 0, monotonic_time = 0, errors = e, sent = [], fault = False\<rparr>"

subsection \<open>The threads' own objects\<close>

definition persists :: "engine \<Rightarrow> engine \<Rightarrow> bool" where
  "persists w w' \<longleftrightarrow>
     (\<forall>y ob ob'. objs w y = Some ob \<longrightarrow> objs w' y = Some ob' \<longrightarrow> o_sync ob' = o_sync ob) \<and>
     (\<forall>r sy sy'. syncs w r = Some sy \<longrightarrow> syncs w' r = Some sy' \<longrightarrow> shape (s_data sy') = shape (s_data sy))"

definition threads_ok :: "engine \<Rightarrow> bool" where
  "threads_ok w \<longleftrightarrow> (\<forall>x. (x, False) \<in> set (idents w) \<longrightarrow> has_kind is_event w x)"

lemma persistsI:
  assumes "\<And>y ob'. objs w' y = Some ob' \<Longrightarrow> (\<exists>ob. objs w y = Some ob \<and> o_sync ob' = o_sync ob) \<or> objs w y = None"
    and "\<And>r sy'. syncs w' r = Some sy' \<Longrightarrow>
      (\<exists>sy. syncs w r = Some sy \<and> shape (s_data sy') = shape (s_data sy)) \<or> syncs w r = None"
  shows "persists w w'"
  unfolding persists_def using assms by fastforce

lemma evolve_persists: "evolve w w' \<Longrightarrow> persists w w'"
  unfolding evolve_def by (intro persistsI) blast+

lemma grown_persists:
  assumes g: "\<And>y ob. objs w y = Some ob \<Longrightarrow> objs v y = Some ob" "\<And>r sy. syncs w r = Some sy \<Longrightarrow> syncs v r = Some sy"
    and sh: "shrinks v w'"
  shows "persists w w'"
proof (rule persistsI)
  fix y ob'
  assume "objs w' y = Some ob'"
  then have "\<exists>ob. objs v y = Some ob \<and> o_sync ob' = o_sync ob \<and> o_ops ob' = o_ops ob"
    using sh unfolding shrinks_def by blast
  then show "(\<exists>ob. objs w y = Some ob \<and> o_sync ob' = o_sync ob) \<or> objs w y = None"
    using g(1) [of y] by (cases "objs w y") auto
next
  fix r sy'
  assume "syncs w' r = Some sy'"
  then have "\<exists>sy. syncs v r = Some sy \<and> s_data sy' = s_data sy"
    using sh unfolding shrinks_def by blast
  then show "(\<exists>sy. syncs w r = Some sy \<and> shape (s_data sy') = shape (s_data sy)) \<or> syncs w r = None"
    using g(2) [of r] by (cases "syncs w r") auto
qed

lemma live_thread_held:
  assumes "(x, False) \<in> set (idents w)"
  shows "x \<in># live_threads w"
  using assms by (auto simp: idents_def live_threads_def)

lemma threads_ok_persists:
  assumes ok: "threads_ok w" and p: "persists w w'" and inv: "sync_inv K L H w'"
    and i: "\<And>x. (x, False) \<in> set (idents w') \<Longrightarrow> (x, False) \<in> set (idents w)"
  shows "threads_ok w'"
  unfolding threads_ok_def
proof (intro allI impI)
  fix x
  assume x: "(x, False) \<in> set (idents w')"
  obtain s sy where s: "sync_of w x = Some s" "syncs w s = Some sy" "is_event (s_data sy)"
    using ok i [OF x] by (auto simp: threads_ok_def has_kind_def)
  have "0 < count (holders w') x"
    using live_thread_held [OF x] by (simp add: holders_def)
  moreover have "count (holders w' + (image_mset snd L + H)) x \<le> refs_of w' x"
    using inv by (simp only: sync_inv_def refs_ok_def)
  ultimately have "0 < refs_of w' x"
    unfolding count_union by linarith
  then obtain ob' where ob': "objs w' x = Some ob'"
    by (cases "objs w' x") (auto simp: refs_of_def)
  then have s': "sync_of w' x = Some s"
    using p s(1) unfolding persists_def sync_of_Some by metis
  obtain sy' where sy': "syncs w' s = Some sy'"
    using inv_sync [OF inv s'] .
  then have "shape (s_data sy') = shape (s_data sy)"
    using p s(2) unfolding persists_def by metis
  with s s' sy' show "has_kind is_event w' x"
    using kind_shape(1) unfolding has_kind_def by blast
qed

lemma idents_made: "made s w v \<Longrightarrow> idents v = idents w"
proof (rule nth_equalityI)
  assume m: "made s w v"
  then show "length (idents v) = length (idents w)"
    by (simp add: made_def idents_def)
  fix u
  assume u: "u < length (idents v)"
  obtain l where "thread_of v u = (thread_of w u)\<lparr>mutex_list := l\<rparr>"
    using m by (auto simp: made_def)
  with u m show "idents v ! u = idents w ! u"
    by (simp add: made_def idents_def thread_of_def)
qed

context sync_init
begin

lemma create_handle_keeps:
  assumes inv: "sync_inv None {#} H w" and room: "room {#} w" and x: "objs w x = None" and s: "syncs w s = None"
    and pre: "pre w" and c: "create_obj_handle p acc slot x s ops init w = (h, w')"
  shows "persists w w'" and "idents w' = idents w"
proof -
  let ?e = "set_err 0 w"
  have e: "sync_inv None {#} H ?e" "room {#} ?e" "objs ?e x = None" "syncs ?e s = None" "pre ?e"
    using inv room x s pre pre_env by (simp_all add: set_err_def)
      (simp_all flip: set_err_def [of 0 w])
  obtain b w1 where 1: "create_object_without_name x s ops init ?e = (b, w1)"
    by fastforce
  note k = create_ok [OF e 1]
  have "persists w w' \<and> idents w' = idents w"
  proof (cases b)
    case False
    then obtain f where "w1 = ?e\<lparr>errors := f\<rparr>"
      using k(1) by blast
    with False 1 c have w': "w' = ?e\<lparr>errors := f\<rparr>"
      by (simp add: create_obj_handle_def)
    show ?thesis
      unfolding w' by (auto simp: persists_def)
  next
    case True
    then obtain v where v: "made s ?e v" "w1 = v\<lparr>objs := (objs ?e)(x \<mapsto> \<lparr>o_refs = 1, o_ops = ops, o_sync = Some s\<rparr>)\<rparr>"
      using k(2) by blast
    have iv: "idents w1 = idents w"
      using idents_made [OF v(1)] by (simp add: v(2) idents_def)
    have o1: "objs w1 y = Some ob" if "objs w y = Some ob" for y ob
      using that x by (auto simp: v(2))
    have s1: "syncs w1 r = Some sy" if "syncs w r = Some sy" for r sy
      using that s v by (cases "r = s") (simp_all add: made_def)
    show ?thesis
    proof (cases slot)
      case None
      then have "w' = release_obj x (set_err STATUS_INSUFFICIENT_RESOURCES w1)"
        using True 1 c by (simp add: create_obj_handle_def)
      moreover have "shrinks w1 (release_obj x (set_err STATUS_INSUFFICIENT_RESOURCES w1))"
        by (rule shrinks_trans [OF shrinks_set_err shrinks_release_obj])
      ultimately show ?thesis
        using grown_persists [OF o1 s1] idents_shrinks iv by metis
    next
      case (Some h')
      let ?a = "alloc_object_handle p h' x acc w1"
      have w': "w' = release_obj x ?a"
        using Some True 1 c by (auto simp: create_obj_handle_def)
      have "objs ?a y = objs w1 y" if "y \<noteq> x" for y
        using that by (simp add: alloc_object_handle_def grab_obj_def assert_that_def failed_def split: option.split)
      moreover have "syncs ?a = syncs w1"
        by (simp add: alloc_object_handle_def grab_obj_def assert_that_def failed_def split: option.split)
      ultimately have "persists w w'"
        using o1 s1 x unfolding w' by (intro grown_persists [OF _ _ shrinks_release_obj]) (metis option.distinct(1), simp)
      then show ?thesis
        using iv by (simp add: w' alloc_object_handle_def)
    qed
  qed
  then show "persists w w'" "idents w' = idents w"
    by simp_all
qed

end

subsection \<open>Every step keeps the invariant\<close>

definition good :: "engine \<Rightarrow> bool" where
  "good w \<longleftrightarrow> sync_inv None {#} {#} w \<and> room {#} w \<and> threads_ok w"

lemma goodD: "good w \<Longrightarrow> sync_inv None {#} {#} w" "good w \<Longrightarrow> room {#} w" "good w \<Longrightarrow> threads_ok w"
  by (simp_all add: good_def)

lemma good_persists:
  assumes "good w" and "sync_inv None {#} {#} w'" and "room {#} w'" and "persists w w'" and "idents w' = idents w"
  shows "good w'"
  using assms threads_ok_persists [OF goodD(3) [OF assms(1)] assms(4,2)] by (simp add: good_def)

lemma good_upholds: "good w \<Longrightarrow> upholds {#} w w' \<Longrightarrow> idents w' = idents w \<Longrightarrow> good w'"
  by (rule good_persists [OF _ upholdsD(1,2) evolve_persists [OF upholdsD(3)]])

lemma good_create:
  assumes g: "good w" and a: "allowed r w"
  shows "r = Create_event t acc man initial slot x s \<Longrightarrow> good (perform r w)"
    and "r = Create_mutex t acc owned slot x s \<Longrightarrow> good (perform r w)"
    and "r = Create_semaphore t acc i most slot x s \<Longrightarrow> good (perform r w)"
proof -
  let ?p = "process (thread_of w t)"
  note w = goodD(1,2) [OF g]
  {
    assume r: "r = Create_event t acc man initial slot x s"
    obtain h w' where c: "create_event t acc man initial slot x s w = (h, w')"
      by fastforce
    have f: "objs w x = None" "syncs w s = None"
      using a r by simp_all
    from create_event_ok [OF w f c] event_init.create_handle_keeps [OF w f TrueI c [unfolded create_event_def]]
    show "good (perform r w)"
      using r c by (intro good_persists [OF g]) simp_all
  next
    assume r: "r = Create_mutex t acc owned slot x s"
    obtain h w' where c: "create_mutex t acc owned slot x s w = (h, w')"
      by fastforce
    have f: "objs w x = None" "syncs w s = None" "t < length (threads w)"
      using a r by simp_all
    from create_mutex_ok [OF w f c] mutex_init.create_handle_keeps [OF w f c [unfolded create_mutex_def]]
    show "good (perform r w)"
      using r c by (intro good_persists [OF g]) simp_all
  next
    assume r: "r = Create_semaphore t acc i most slot x s"
    obtain h w' where c: "create_semaphore t acc i most slot x s w = (h, w')"
      by fastforce
    have f: "objs w x = None" "syncs w s = None"
      using a r by simp_all
    have "persists w w' \<and> idents w' = idents w"
    proof (cases "most = 0 \<or> most < i")
      case True
      with c show ?thesis
        by (auto simp: create_semaphore_def persists_def)
    next
      case False
      then have c': "create_obj_handle ?p acc slot x s Semaphore_ops (create_semaphore_sync s i most) w = (h, w')"
        using c by (simp add: create_semaphore_def)
      have "i \<le> most"
        using False by (simp add: not_less)
      from semaphore_init.create_handle_keeps [OF w f this c'] show ?thesis
        by simp
    qed
    with create_semaphore_ok [OF w f c] show "good (perform r w)"
      using r c by (intro good_persists [OF g]) simp_all
  }
qed

lemma good_close:
  assumes g: "good w"
  shows "good (snd (close_object_handle p h w))"
proof -
  let ?w = "snd (close_object_handle p h w)"
  note k = close_object_handle_ok [OF goodD(1,2) [OF g]]
  have "persists w ?w \<and> idents ?w = idents w"
  proof (cases "find_handle w p h")
    case None
    then show ?thesis
      by (auto simp: close_object_handle_def persists_def)
  next
    case (Some xa)
    obtain x a where xa: "xa = (x, a)"
      by fastforce
    let ?v = "w\<lparr>handles := remove1 ((p, h), x, a) (handles w)\<rparr>"
    have "persists w (release_obj x ?v)"
      by (rule grown_persists [OF _ _ shrinks_release_obj]) simp_all
    with Some xa show ?thesis
      by (simp add: close_object_handle_def)
  qed
  with k show ?thesis
    by (intro good_persists [OF g]) simp_all
qed

lemma good_kill:
  assumes g: "good w" and t: "t < length (threads w)"
  shows "good (kill_thread t code w)"
proof (cases "terminated (thread_of w t)")
  case True
  with g show ?thesis
    by (simp add: kill_thread_def)
next
  case False
  let ?x = "t_obj (thread_of w t)" and ?w = "kill_thread t code w"
  have "(?x, False) \<in> set (idents w)"
    using t False by (force simp: idents_def thread_of_def intro: image_eqI [OF _ nth_mem])
  then have k: "has_kind is_event w ?x"
    using goodD(3) [OF g] by (simp add: threads_ok_def)
  note u = kill_thread_ok [OF goodD(1,2) [OF g] t False k, of code]
  have "(x, False) \<in> set (idents w)" if "(x, False) \<in> set (idents ?w)" for x
    using that set_update_subset_insert [of "idents w" t "(?x, True)"] unfolding u(2) by auto
  then have "threads_ok ?w"
    by (rule threads_ok_persists [OF goodD(3) [OF g] evolve_persists [OF upholdsD(3) [OF u(1)]] upholdsD(1) [OF u(1)]])
  with upholdsD [OF u(1)] show ?thesis
    by (simp add: good_def)
qed

lemma good_clock: "good w \<Longrightarrow> good (w\<lparr>current_time := a, monotonic_time := b\<rparr>)"
proof -
  assume g: "good w"
  let ?w = "w\<lparr>current_time := a, monotonic_time := b\<rparr>"
  have "sync_inv None {#} {#} ?w = sync_inv None {#} {#} w"
    by (rule inv_outer) simp_all
  moreover have "room {#} ?w = room {#} w"
    by (rule room_outer) (simp_all add: stacks_def)
  ultimately show ?thesis
    using goodD [OF g] by (intro good_persists [OF g]) (auto simp: persists_def idents_def)
qed

lemma perform_good:
  assumes g: "good w" and l: "refs_low 129 w" and a: "allowed r w"
  shows "good (perform r w)"
proof -
  note w = goodD(1,2) [OF g]
  have l1: "refs_low 1 w"
    using refs_low_mono [OF l] by simp
  note E = good_persists [OF g _ _ evolve_persists]
  show ?thesis
  proof (cases r)
    case (Close_handle t h)
    then show ?thesis
      using good_close [OF g] by simp
  next
    case (Event_op t h op)
    then show ?thesis
      using good_upholds [OF g event_op_upholds [OF w l1]] by simp
  next
    case (Query_event t h)
    then show ?thesis
      using good_upholds [OF g query_event_upholds [OF w l1]] by simp
  next
    case (Release_mutex t h)
    then show ?thesis
      using good_upholds [OF g release_mutex_upholds [OF w l1]] by simp
  next
    case (Query_mutex t h)
    then show ?thesis
      using good_upholds [OF g query_mutex_upholds [OF w l1]] by simp
  next
    case (Release_semaphore t h n)
    then show ?thesis
      using good_upholds [OF g release_semaphore_request_upholds [OF w l1]] by simp
  next
    case (Query_semaphore t h)
    then show ?thesis
      using good_upholds [OF g query_semaphore_upholds [OF w l1]] by simp
  next
    case (Select t data ck fl timeout)
    then have "select_ok t data ck w"
      using a by simp
    from select_on_sound [OF w this l] Select show ?thesis
      by (intro E) simp_all
  next
    case (Suspend_thread t)
    with suspend_thread_ok [OF w] show ?thesis
      by (intro E) simp_all
  next
    case (Resume_thread t)
    with resume_thread_ok(1,2,4) [OF w] subdued_evolve [OF resume_thread_ok(3) [OF w]] show ?thesis
      by (intro E) simp_all
  next
    case (Kill_thread t code)
    with good_kill [OF g] a show ?thesis
      by simp
  next
    case (Timer t d)
    then have "armed t d w"
      using a by simp
    from thread_timeout_ok(1,2) [OF w this] subdued_evolve [OF thread_timeout_ok(3) [OF w this]] Timer show ?thesis
      by (intro E) simp_all
  next
    case (Clock now ticks)
    then show ?thesis
      using good_clock [OF g] by simp
  qed (use good_create [OF g a] in blast)+
qed

lemma reachable_good:
  assumes "reachable w0 w" and "good w0"
  shows "good w"
  using assms by (induction rule: reachable.induct) (simp_all add: perform_good)

subsection \<open>The start\<close>

lemma start_threads:
  "length (threads (start ps e)) = length ps"
  "waits (thread_of (start ps e) t) = []" "mutex_list (thread_of (start ps e) t) = []"
  "stacks (start ps e) = replicate (length ps) []" "live_threads (start ps e) = mset [0..<length ps]"
proof -
  let ?ths = "map2 new_thread ps [0..<length ps]"
  show "length (threads (start ps e)) = length ps"
    by (simp add: start_def)
  show "waits (thread_of (start ps e) t) = []" "mutex_list (thread_of (start ps e) t) = []"
    by (simp_all add: start_def thread_of_def new_thread_def idle_thread_def)
  show "stacks (start ps e) = replicate (length ps) []"
    by (rule nth_equalityI) (simp_all add: stacks_def start_def new_thread_def idle_thread_def)
  have "filter (\<lambda>th. \<not> terminated th) ?ths = ?ths"
    by (rule filter_True) (auto simp: new_thread_def idle_thread_def)
  moreover have "map t_obj ?ths = [0..<length ps]"
    by (rule nth_equalityI) (simp_all add: new_thread_def)
  ultimately show "live_threads (start ps e) = mset [0..<length ps]"
    by (simp add: live_threads_def start_def flip: mset_filter mset_map)
qed

lemma start_good: "good (start ps e)"
proof -
  let ?w = "start ps e" and ?n = "length ps"
  have en: "entries ?w = {#}"
    unfolding start_threads entries_in_def by (simp add: sum.neutral)
  have so: "sync_of ?w x = (if x < ?n then Some x else None)"
    and ob: "objs ?w x = (if x < ?n then Some \<lparr>o_refs = 1, o_ops = Other_ops, o_sync = Some x\<rparr> else None)"
    and sy: "syncs ?w x = (if x < ?n then
      Some \<lparr>s_refs = 1, s_queue = [], s_data = Event_sync \<lparr>manual = True, signaled = False\<rparr>\<rparr> else None)" for x
    by (simp_all add: start_def sync_of_def)
  have ho: "holders ?w = mset [0..<?n]"
    unfolding holders_def en start_threads(5) by (simp add: start_def)
  have "count (mset [0..<?n]) x = (if x < ?n then 1 else 0)" for x
    by (simp add: count_mset_0_iff distinct_count_atmost_1)
  then have "refs_ok (image_mset snd {#} + {#}) ?w"
    by (simp add: refs_ok_def ho refs_of_def ob)
  moreover have "objs_ok ?w"
    unfolding objs_ok_def so ob sy by (auto simp: kind_ok_def split: if_splits)
  moreover have "syncs_ok None ?w"
    unfolding syncs_ok_def sync_ok_def so sy by (auto simp: data_ok_def owner_of_def split: if_splits)
  moreover have "queues_ok {#} ?w"
    unfolding queues_ok_def en sy by (auto split: if_splits)
  moreover have "mutexes_ok ?w"
    by (simp add: mutexes_ok_def start_threads(3) owned_by_def sy owner_of_def)
  moreover have "waits_ok ?w"
    by (simp add: waits_ok_def start_threads(4))
  moreover have "room {#} ?w"
    unfolding room_def sy by (auto split: if_splits)
  moreover have "threads_ok ?w"
    unfolding threads_ok_def has_kind_def so sy
    by (auto simp: idents_def start_def new_thread_def is_event_def set_zip)
  moreover have "\<not> fault ?w"
    by (simp add: start_def)
  ultimately show ?thesis
    by (simp add: good_def sync_inv_def)
qed

end
