(* ===== verification/Spec2Isabelle.thy ===== *)
theory Spec2Isabelle
  imports Region_Properties Handle_Properties Fg_Properties Sync_Run
begin

text \<open>
  \<^bold>\<open>A verification development for this Wine tree.\<close>

  Wine runs Windows programs: PE modules under \<open>dlls/\<close> and \<open>programs/\<close> implement the Windows API, and one
  server process, the wineserver under \<open>server/\<close>, keeps the objects all processes share. This tree adds
  its own frame-generation module, a FidelityFX provider that sends frame generation to MetalFX. The
  development models parts of both: of the wineserver the window regions, the object headers and the
  handle tables; of the graphics side the whole frame-generation DLL.

  \<^bold>\<open>Conventions.\<close> A struct is a record, a tagged union a datatype, an operation one definition with the
  name of the C function. C \<open>int\<close> coordinates are \<open>int\<close> with the conversions written out (\<open>Prelude\<close>);
  unsigned quantities where wrap-around matters are words. The last error of the server is threaded
  through as a value; allocation answers come from a list or an answer function, so every failure branch
  is reachable. A loop is a recursive function, with a termination proof where the recursion is not
  structural. Failed assertions, out-of-bounds accesses and null dereferences of the C code are the value
  \<open>None\<close> in the handle model and the sticky flag \<open>fault\<close> in the frame-generation model, so a
  theorem that rules these out is a memory-safety theorem.

  \<^bold>\<open>The theories.\<close>

  \<^descr>[Prelude] shared types and lemmas: the error codes, C integer conversions, lists and options.

  \<^descr>[Rectangle] \<open>struct rectangle\<close> and the inline helpers of server/user.h.

  \<^descr>[Region] all of server/region.c: banded rectangle lists, \<open>region_op\<close> with its three operators, the
  queries and the conversions from and to request data. \<open>Region_Bands\<close> defines well-formed (y-x-banded)
  regions and the set of pixels of a region; \<open>Region_Overlap\<close> and \<open>Region_Sweep\<close> follow the sweep of
  \<open>region_op\<close> band by band, once, in a locale over the operator's row function; \<open>Region_Correct\<close> interprets
  it for intersection, union and difference; \<open>Region_Properties\<close> states the results: each operation
  computes exactly the set operation on pixels and returns a well-formed region or reports an
  allocation failure.

  \<^descr>[Objects] object headers, reference counts, type statistics and access mapping of server/object.c and
  object.h.

  \<^descr>[Handle] the handle tables of server/handle.c: allocation, lookup, closing, inheritance, duplication,
  the global table, and the requests built on them. \<open>Handle_Table\<close> is the invariant of one table,
  \<open>Handle_Inv\<close> the invariant of the server: every reference count accounts for the handles, an extra
  credit included; \<open>Handle_Ops\<close> and \<open>Handle_Dup\<close> show that the operations keep it;
  \<open>Handle_Properties\<close> states the results.

  \<^descr>[Ffx_Api, Ffx_Chain] the FidelityFX descriptors and descriptor chains. Floats are IEEE bit patterns;
  a chain is walked for at most 64 entries, which \<open>valid_chain\<close> makes enough.

  \<^descr>[Fg_State to Fg_Api] dlls/amd_fidelityfx_framegeneration_dx12/main.c and unixlib.c, in the order of the
  file: contexts and packets, memory and COM references, the loader of the native provider, the Unix
  call (\<open>Fg_State\<close>); frame snapshots, references, callback scopes, claims (\<open>Fg_Frames\<close>); validation and
  translation of dispatches (\<open>Fg_Translate\<close>); configuration (\<open>Fg_Configure\<close>); the five entry points and
  the two swapchain callbacks (\<open>Fg_Api\<close>). The state \<open>fg_world\<close> holds the contexts by address, the list of
  registered contexts, what is alive (blocks with the deallocator they need, COM references), the locks
  held, the callback scopes and the trace of calls to the outside. The native provider, the sidecar, the
  swapchain, the allocator and the loader are not in the repository: the record \<open>outside\<close> holds arbitrary
  answer functions of the trace.

  \<^descr>[Fg_Snapshots to Fg_System] the proofs: what the snapshot list means (\<open>Fg_Snapshots\<close>), symbolic states
  that follow an operation step by step (\<open>Fg_Sym\<close>, \<open>Fg_Steps\<close>), the context invariant (\<open>Fg_Inv\<close>,
  \<open>Fg_Config_Inv\<close>), the invariant of the DLL (\<open>Fg_World\<close>), the entry points (\<open>Fg_Calls\<close>, \<open>Fg_Life\<close>), and the
  states an application can reach (\<open>Fg_System\<close>). \<open>Fg_Demo\<close> evaluates one concrete run, and
  \<open>Fg_Properties\<close> states the results: no double free, no leak, no dangling callback binding, one
  provider per context.

  \<^bold>\<open>Bounds.\<close> The only bounds are those of the code: 64 entries of a descriptor chain and 64 snapshots. No
  model runs on fuel.

  \<^bold>\<open>Not modelled.\<close> The handle requests that need names, security descriptors or tokens; object names and
  namespaces; everything else of the wineserver (files, processes, threads, windows, messages, registry,
  sockets), which is I/O or rests on components not modelled; the other DLLs, the programs, the build
  tools, the generated code and the vendored libraries. In the frame-generation DLL: \<open>DllMain\<close>, debug
  output, and contention between threads, since calls run one after another.
\<close>

end
